(* ===== verification/Prelude.thy ===== *)
theory Prelude
  imports Main "HOL-Library.Word" "HOL-Library.AList" "HOL-Library.Multiset" "HOL-Library.Char_ord" "HOL-Library.List_Lexorder"
begin

text \<open>
  Shared vocabulary of the development: the collections of rewrite rules the component
  theories extend, the names of the machine types the Rust code uses, and the facts on
  lists, options and association lists that several components need.

  \<^item> \<open>rtxt\<close> collects the rules of the string operations of the Rust standard library
    (theory \<open>Rust_Text\<close>).
  \<^item> \<open>frame\<close> collects the frame rules of the operations on the system state: which field
    an operation leaves alone (theory \<open>Kernel\<close> and the theories above it).
\<close>

named_theorems rtxt "string operations of the Rust standard library"
named_theorems frame "fields an operation of the system leaves unchanged"

type_synonym u8 = "8 word"
type_synonym u16 = "16 word"
type_synonym u32 = "32 word"
type_synonym u64 = "64 word"
type_synonym i32 = "32 word"

text \<open>Process ids are Rust \<open>i32\<close> values that are only compared and printed.\<close>

type_synonym pid = int

text \<open>
  \<open>Duration\<close> and \<open>Instant\<close> (time since the origin of the monotonic clock) in nanoseconds.
\<close>

type_synonym duration = nat
type_synonym instant = nat

abbreviation nanos_per_sec :: nat where
  "nanos_per_sec \<equiv> 1000000000"

lemma unat_bound: "unat (w :: 'a::len word) < 2 ^ LENGTH('a)"
  by (rule unsigned_less)

definition from_secs :: "u64 \<Rightarrow> duration" where
  "from_secs s = unat s * nanos_per_sec"

definition from_millis :: "u64 \<Rightarrow> duration" where
  "from_millis s = unat s * 1000000"

text \<open>
  \<open>Instant + Duration\<close> panics when the seconds do not fit the \<open>i64\<close> the standard library
  keeps them in; \<open>None\<close> is that panic.
\<close>

definition instant_add :: "instant \<Rightarrow> duration \<Rightarrow> instant option" where
  "instant_add t d = (if t + d < 2 ^ 63 * nanos_per_sec then Some (t + d) else None)"

text \<open>The result of an operation that may panic, with the state it leaves in either case.\<close>

datatype 'a run = Ret 'a | Panic 'a

text \<open>\<open>Instant::duration_since\<close> saturates at zero, as truncating subtraction does.\<close>

definition duration_since :: "instant \<Rightarrow> instant \<Rightarrow> duration" where
  "duration_since later earlier = later - earlier"

lemma instant_add_Some: "instant_add t d = Some u \<Longrightarrow> u = t + d"
  by (auto simp: instant_add_def split: if_splits)

lemma instant_add_mono: "instant_add t d = Some u \<Longrightarrow> t \<le> u"
  by (auto simp: instant_add_def split: if_splits)


subsection \<open>Lists\<close>

text \<open>\<open>Iterator::position\<close> and \<open>Vec::remove\<close>: the first match and the list without it.\<close>

fun position :: "('a \<Rightarrow> bool) \<Rightarrow> 'a list \<Rightarrow> nat option" where
  "position P [] = None"
| "position P (x # xs) = (if P x then Some 0 else map_option Suc (position P xs))"

definition remove_at :: "nat \<Rightarrow> 'a list \<Rightarrow> 'a list" where
  "remove_at i xs = take i xs @ drop (Suc i) xs"

lemma position_None: "position P xs = None \<longleftrightarrow> (\<forall>x \<in> set xs. \<not> P x)"
  by (induction xs) auto

lemma position_Some:
  "position P xs = Some i \<Longrightarrow> i < length xs \<and> P (xs ! i) \<and> (\<forall>j < i. \<not> P (xs ! j))"
proof (induction xs arbitrary: i)
  case Nil
  then show ?case by simp
next
  case (Cons x xs)
  show ?case
  proof (cases "P x")
    case True
    with Cons.prems show ?thesis by simp
  next
    case False
    with Cons.prems obtain k where k: "position P xs = Some k" "i = Suc k" by auto
    with Cons.IH [OF k(1)] False show ?thesis by (auto simp: less_Suc_eq_0_disj)
  qed
qed

lemma length_remove_at: "i < length xs \<Longrightarrow> length (remove_at i xs) = length xs - 1"
  by (simp add: remove_at_def)

lemma mset_remove_at: "i < length xs \<Longrightarrow> add_mset (xs ! i) (mset (remove_at i xs)) = mset xs"
proof -
  assume i: "i < length xs"
  have "mset xs = mset (take i xs @ xs ! i # drop (Suc i) xs)"
    using id_take_nth_drop [OF i] by simp
  then show ?thesis by (simp add: remove_at_def)
qed

lemma set_remove_at: "i < length xs \<Longrightarrow> set xs = insert (xs ! i) (set (remove_at i xs))"
  using mset_remove_at [of i xs] by (metis set_mset_add_mset_insert set_mset_mset)

lemma dropWhile_append_stop: "x \<in> set xs \<Longrightarrow> \<not> P x \<Longrightarrow> dropWhile P (xs @ ys) = dropWhile P xs @ ys"
  by (induction xs) auto

lemma find_Some_mem: "List.find P xs = Some x \<Longrightarrow> x \<in> set xs \<and> P x"
  by (induction xs) (auto split: if_splits)

lemma find_None_iff': "List.find P xs = None \<longleftrightarrow> (\<forall>x \<in> set xs. \<not> P x)"
  by (induction xs) auto


subsection \<open>Association lists: the model of \<open>HashMap\<close>\<close>

text \<open>
  A \<open>HashMap\<close> is an association list with distinct keys, updated by \<^const>\<open>AList.update\<close>
  and \<^const>\<open>AList.delete\<close>. Iteration visits the list in its order; Rust leaves that order
  unspecified, so no theorem of the development starts from a particular one.
\<close>

abbreviation keys :: "('k \<times> 'v) list \<Rightarrow> 'k list" where
  "keys m \<equiv> map fst m"

abbreviation vals :: "('k \<times> 'v) list \<Rightarrow> 'v list" where
  "vals m \<equiv> map snd m"

lemma set_update_subset: "set (AList.update k v m) \<subseteq> insert (k, v) (set m)"
  by (induction m) auto

lemma in_set_update_distinct:
  "distinct (keys m) \<Longrightarrow>
   x \<in> set (AList.update k v m) \<longleftrightarrow> x = (k, v) \<or> (x \<in> set m \<and> fst x \<noteq> k)"
  by (induction m) force+

lemma in_set_delete: "x \<in> set (AList.delete k m) \<longleftrightarrow> x \<in> set m \<and> fst x \<noteq> k"
  by (auto simp: AList.delete_eq)

lemma distinct_keys_delete: "distinct (keys m) \<Longrightarrow> distinct (keys (AList.delete k m))"
  by (simp add: AList.distinct_delete)

lemma distinct_keys_update: "distinct (keys m) \<Longrightarrow> distinct (keys (AList.update k v m))"
  by (simp add: AList.distinct_update)

lemma map_of_in_set: "distinct (keys m) \<Longrightarrow> (k, v) \<in> set m \<longleftrightarrow> map_of m k = Some v"
  by auto

lemma update_new: "k \<notin> set (keys m) \<Longrightarrow> AList.update k v m = m @ [(k, v)]"
  by (induction m) auto

end
