(* ===== verification/Rust_Text.thy ===== *)
theory Rust_Text
  imports Prelude
begin

text \<open>
  The string operations of the Rust standard library that the sources use. A Rust \<open>str\<close> is
  a sequence of Unicode scalar values; the model represents those up to U+00FF, one HOL
  \<^typ>\<open>char\<close> each, so white space is the part of the Unicode property \<open>White_Space\<close> in
  that range (U+0009 to U+000D, U+0020, U+0085, U+00A0). Text beyond U+00FF is outside the
  model.
\<close>

subsection \<open>Characters\<close>

definition code :: "char \<Rightarrow> nat" where
  "code c = of_char c"

definition nl :: char where "nl = CHR 0x0A"
definition cr :: char where "cr = CHR 0x0D"
definition dquote :: char where "dquote = CHR 0x22"
definition squote :: char where "squote = CHR 0x27"

definition is_ws :: "char \<Rightarrow> bool" where
  "is_ws c = (let n = code c in (9 \<le> n \<and> n \<le> 13) \<or> n = 32 \<or> n = 133 \<or> n = 160)"

definition ascii_lower :: "char \<Rightarrow> char" where
  "ascii_lower c = (if 65 \<le> code c \<and> code c \<le> 90 then char_of (code c + 32) else c)"

definition ascii_upper :: "char \<Rightarrow> char" where
  "ascii_upper c = (if 97 \<le> code c \<and> code c \<le> 122 then char_of (code c - 32) else c)"

definition eq_ignore_ascii_case :: "string \<Rightarrow> string \<Rightarrow> bool" where
  "eq_ignore_ascii_case s t = (map ascii_lower s = map ascii_lower t)"

lemmas char_defs = nl_def cr_def dquote_def squote_def code_def

lemma is_ws_code [rtxt]: "is_ws c \<longleftrightarrow> (9 \<le> code c \<and> code c \<le> 13) \<or> code c = 32 \<or> code c = 133 \<or> code c = 160"
  by (simp add: is_ws_def Let_def)

subsection \<open>Trimming and matching\<close>

definition trim_start_by :: "(char \<Rightarrow> bool) \<Rightarrow> string \<Rightarrow> string" where
  "trim_start_by P s = dropWhile P s"

definition trim_by :: "(char \<Rightarrow> bool) \<Rightarrow> string \<Rightarrow> string" where
  "trim_by P s = rev (dropWhile P (rev (dropWhile P s)))"

definition trim :: "string \<Rightarrow> string" where
  "trim s = trim_by is_ws s"

definition trim_matches :: "char \<Rightarrow> string \<Rightarrow> string" where
  "trim_matches c s = trim_by (\<lambda>x. x = c) s"

definition starts_with :: "string \<Rightarrow> string \<Rightarrow> bool" where
  "starts_with p s = (take (length p) s = p)"

definition strip_prefix :: "string \<Rightarrow> string \<Rightarrow> string option" where
  "strip_prefix p s = (if starts_with p s then Some (drop (length p) s) else None)"

definition strip_suffix :: "string \<Rightarrow> string \<Rightarrow> string option" where
  "strip_suffix p s = map_option rev (strip_prefix (rev p) (rev s))"

fun str_contains :: "string \<Rightarrow> string \<Rightarrow> bool" where
  "str_contains p [] = (p = [])"
| "str_contains p (c # s) = (starts_with p (c # s) \<or> str_contains p s)"

subsection \<open>Splitting and joining\<close>

fun split_by :: "(char \<Rightarrow> bool) \<Rightarrow> string \<Rightarrow> string list" where
  "split_by P [] = [[]]"
| "split_by P (c # s) =
     (if P c then [] # split_by P s
      else (case split_by P s of [] \<Rightarrow> [[c]] | x # xs \<Rightarrow> (c # x) # xs))"

definition split_on :: "char \<Rightarrow> string \<Rightarrow> string list" where
  "split_on d s = split_by (\<lambda>c. c = d) s"

definition split_whitespace :: "string \<Rightarrow> string list" where
  "split_whitespace s = filter (\<lambda>x. x \<noteq> []) (split_by is_ws s)"

fun split_once :: "char \<Rightarrow> string \<Rightarrow> (string \<times> string) option" where
  "split_once d [] = None"
| "split_once d (c # s) =
     (if c = d then Some ([], s)
      else (case split_once d s of None \<Rightarrow> None | Some (a, b) \<Rightarrow> Some (c # a, b)))"

text \<open>
  \<open>str::lines\<close>: every piece that a line feed ends loses one trailing carriage return; a last
  piece without line feed is kept as it is, and an empty one is not a line.
\<close>

definition strip_cr :: "string \<Rightarrow> string" where
  "strip_cr s = (if s \<noteq> [] \<and> last s = cr then butlast s else s)"

definition lines :: "string \<Rightarrow> string list" where
  "lines s =
     (let ps = split_on nl s
      in map strip_cr (butlast ps) @ (if last ps = [] then [] else [last ps]))"

fun join :: "string \<Rightarrow> string list \<Rightarrow> string" where
  "join sep [] = []"
| "join sep [x] = x"
| "join sep (x # y # xs) = x @ sep @ join sep (y # xs)"

definition quote :: "string \<Rightarrow> string" where
  "quote s = squote # s @ [squote]"

text \<open>\<open>Path::join\<close>: an absolute second part replaces the first.\<close>

definition path_join :: "string \<Rightarrow> string \<Rightarrow> string" where
  "path_join root name =
     (if starts_with ''/'' name \<or> root = [] then name
      else if last root = CHR ''/'' then root @ name
      else root @ ''/'' @ name)"

subsection \<open>Integers\<close>

definition digit_val :: "char \<Rightarrow> nat option" where
  "digit_val c = (if 48 \<le> code c \<and> code c \<le> 57 then Some (code c - 48) else None)"

fun digits_acc :: "nat \<Rightarrow> string \<Rightarrow> nat option" where
  "digits_acc n [] = Some n"
| "digits_acc n (c # s) =
     (case digit_val c of None \<Rightarrow> None | Some d \<Rightarrow> digits_acc (10 * n + d) s)"

text \<open>
  \<open>from_str\<close> of the integer types: an optional sign (a minus only for signed types), at
  least one decimal digit, and a value in range.
\<close>

definition parse_digits :: "string \<Rightarrow> nat option" where
  "parse_digits s = (if s = [] then None else digits_acc 0 s)"

definition parse_unsigned :: "nat \<Rightarrow> string \<Rightarrow> nat option" where
  "parse_unsigned hi s =
     (case parse_digits (case s of [] \<Rightarrow> [] | c # t \<Rightarrow> if c = CHR ''+'' then t else s) of
        None \<Rightarrow> None
      | Some n \<Rightarrow> if n \<le> hi then Some n else None)"

definition parse_u64 :: "string \<Rightarrow> u64 option" where
  "parse_u64 s = map_option of_nat (parse_unsigned (2 ^ 64 - 1) s)"

definition parse_u32 :: "string \<Rightarrow> u32 option" where
  "parse_u32 s = map_option of_nat (parse_unsigned (2 ^ 32 - 1) s)"

definition parse_i32 :: "string \<Rightarrow> i32 option" where
  "parse_i32 s =
     (case s of
        [] \<Rightarrow> None
      | c # t \<Rightarrow>
          if c = CHR ''-''
          then (case parse_digits t of
                  None \<Rightarrow> None
                | Some n \<Rightarrow> if n \<le> 2 ^ 31 then Some (- of_nat n) else None)
          else map_option of_nat (parse_unsigned (2 ^ 31 - 1) s))"

definition digit_char :: "nat \<Rightarrow> char" where
  "digit_char d = char_of (if d < 10 then 48 + d else 87 + d)"

fun show_base :: "nat \<Rightarrow> nat \<Rightarrow> string" where
  "show_base b n =
     (if n < b \<or> b < 2 then [digit_char n]
      else show_base b (n div b) @ [digit_char (n mod b)])"

declare show_base.simps [simp del]

definition show_nat :: "nat \<Rightarrow> string" where
  "show_nat n = show_base 10 n"

definition show_int :: "int \<Rightarrow> string" where
  "show_int i = (if i < 0 then CHR ''-'' # show_nat (nat (- i)) else show_nat (nat i))"

definition show_hex :: "nat \<Rightarrow> string" where
  "show_hex n = show_base 16 n"

text \<open>
  The \<open>Debug\<close> text of a \<open>String\<close> and of a \<open>Vec<String>\<close>: quotes, and escapes for the quote,
  the backslash, the usual control characters and what is not printable.
\<close>

definition debug_char :: "char \<Rightarrow> string" where
  "debug_char c =
     (let n = code c in
      if n = 0 then [CHR 0x5C, CHR ''0'']
      else if n = 9 then [CHR 0x5C, CHR ''t'']
      else if n = 10 then [CHR 0x5C, CHR ''n'']
      else if n = 13 then [CHR 0x5C, CHR ''r'']
      else if n = 34 \<or> n = 92 then [CHR 0x5C, c]
      else if n < 32 \<or> (127 \<le> n \<and> n \<le> 160) \<or> n = 173
        then [CHR 0x5C, CHR ''u'', CHR 0x7B] @ show_hex n @ [CHR 0x7D]
      else [c])"

definition debug_str :: "string \<Rightarrow> string" where
  "debug_str s = [dquote] @ concat (map debug_char s) @ [dquote]"

definition debug_list :: "string list \<Rightarrow> string" where
  "debug_list xs = ''['' @ join '', '' (map debug_str xs) @ '']''"


subsection \<open>Laws of splitting\<close>

lemma split_by_not_Nil [simp]: "split_by P s \<noteq> []"
  by (induction s) (auto split: list.splits)

lemma split_on_not_Nil [simp]: "split_on d s \<noteq> []"
  by (simp add: split_on_def)

lemma split_by_pieces: "x \<in> set (split_by P s) \<Longrightarrow> c \<in> set x \<Longrightarrow> \<not> P c \<and> c \<in> set s"
proof (induction s arbitrary: x)
  case Nil
  then show ?case by simp
next
  case (Cons a s)
  then show ?case
    by (cases "split_by P s") (fastforce split: if_splits)+
qed

lemma split_by_append:
  "(\<forall>c \<in> set a. \<not> P c) \<Longrightarrow> P d \<Longrightarrow> split_by P (a @ d # s) = a # split_by P s"
  by (induction a) auto

lemma split_by_none: "(\<forall>c \<in> set a. \<not> P c) \<Longrightarrow> split_by P a = [a]"
  by (induction a) auto

lemma split_on_append: "d \<notin> set a \<Longrightarrow> split_on d (a @ d # s) = a # split_on d s"
  unfolding split_on_def by (rule split_by_append) auto

lemma split_on_none: "d \<notin> set a \<Longrightarrow> split_on d a = [a]"
  unfolding split_on_def by (rule split_by_none) auto

lemma join_split_on: "join [d] (split_on d s) = s"
proof -
  have "join [d] (split_by (\<lambda>c. c = d) s) = s"
  proof (induction s)
    case Nil
    then show ?case by simp
  next
    case (Cons c s)
    obtain x xs where sp: "split_by (\<lambda>c. c = d) s = x # xs"
      using split_by_not_Nil by (metis neq_Nil_conv)
    with Cons.IH have "join [d] (x # xs) = s" by simp
    then show ?case using sp by (cases xs) auto
  qed
  then show ?thesis by (simp add: split_on_def)
qed

lemma split_on_join:
  "xs \<noteq> [] \<Longrightarrow> (\<forall>x \<in> set xs. d \<notin> set x) \<Longrightarrow> split_on d (join [d] xs) = xs"
proof (induction xs rule: induct_list012)
  case (2 x)
  then show ?case by (simp add: split_on_none)
next
  case (3 x y zs)
  then show ?case by (simp add: split_on_append)
qed simp

lemma split_whitespace_pieces:
  "x \<in> set (split_whitespace s) \<Longrightarrow> x \<noteq> [] \<and> (\<forall>c \<in> set x. \<not> is_ws c)"
  by (auto simp: split_whitespace_def dest: split_by_pieces)

lemma is_ws_space [simp]: "is_ws CHR '' ''" and not_ws_eq [simp]: "\<not> is_ws CHR ''=''"
  by (simp_all add: is_ws_def code_def)

lemma split_whitespace_Nil [simp]: "split_whitespace [] = []"
  by (simp add: split_whitespace_def)

lemma split_whitespace_join:
  "(\<forall>x \<in> set xs. x \<noteq> [] \<and> (\<forall>c \<in> set x. \<not> is_ws c)) \<Longrightarrow>
   split_whitespace (join '' '' xs) = xs"
proof (induction xs rule: induct_list012)
  case (2 x)
  then show ?case by (simp add: split_whitespace_def split_by_none)
next
  case (3 x y zs)
  then show ?case by (simp add: split_whitespace_def split_by_append)
qed simp

lemma split_once_Some_iff:
  "split_once d s = Some (a, b) \<longleftrightarrow> s = a @ d # b \<and> d \<notin> set a"
proof (induction s arbitrary: a)
  case Nil
  then show ?case by simp
next
  case (Cons c s)
  show ?case
  proof (cases "c = d")
    case True
    then show ?thesis by (cases a) auto
  next
    case False
    show ?thesis
    proof (cases a)
      case Nil
      with False show ?thesis by (auto split: option.splits)
    next
      case (Cons x a')
      with False Cons.IH [of a'] show ?thesis by (auto split: option.splits)
    qed
  qed
qed

lemma split_once_append: "d \<notin> set a \<Longrightarrow> split_once d (a @ d # b) = Some (a, b)"
  by (simp add: split_once_Some_iff)

lemma split_once_None_iff: "split_once d s = None \<longleftrightarrow> d \<notin> set s"
  by (induction s) (auto split: option.splits)


subsection \<open>Laws of trimming\<close>

lemma trim_by_Nil [simp]: "trim_by P [] = []"
  by (simp add: trim_by_def)

lemma trim_Nil [simp]: "trim [] = []"
  by (simp add: trim_def)

lemma trim_by_id: "s = [] \<or> (\<not> P (hd s) \<and> \<not> P (last s)) \<Longrightarrow> trim_by P s = s"
proof (cases s)
  case (Cons c t)
  moreover assume "s = [] \<or> (\<not> P (hd s) \<and> \<not> P (last s))"
  ultimately have "\<not> P c" "\<not> P (last s)" "s \<noteq> []" by auto
  then have "dropWhile P s = s" using Cons by simp
  moreover have "dropWhile P (rev s) = rev s"
    using \<open>\<not> P (last s)\<close> \<open>s \<noteq> []\<close> by (cases "rev s") (auto simp: last_rev hd_rev)
  ultimately show ?thesis by (simp add: trim_by_def)
qed simp

lemma trim_by_ends:
  "trim_by P s = [] \<or> (\<not> P (hd (trim_by P s)) \<and> \<not> P (last (trim_by P s)))"
proof -
  define u where "u = dropWhile P s"
  define v where "v = dropWhile P (rev u)"
  have uv: "trim_by P s = rev v" by (simp add: trim_by_def u_def v_def)
  have l: "v \<noteq> [] \<Longrightarrow> \<not> P (hd v)" by (simp add: v_def hd_dropWhile)
  have "v \<noteq> [] \<Longrightarrow> \<not> P (last v)"
  proof -
    assume v: "v \<noteq> []"
    then have "u \<noteq> []" by (auto simp: v_def)
    then have "\<not> P (hd u)" by (simp add: u_def hd_dropWhile)
    moreover have "last v = hd u"
      using v \<open>u \<noteq> []\<close> unfolding v_def
      by (metis dropWhile_eq_drop hd_rev last_drop last_rev rev_is_Nil_conv rev_rev_ident drop_eq_Nil not_le)
    ultimately show ?thesis by simp
  qed
  with l uv show ?thesis by (cases "v = []") (auto simp: hd_rev last_rev)
qed

lemma trim_by_idem [simp]: "trim_by P (trim_by P s) = trim_by P s"
  by (rule trim_by_id) (rule trim_by_ends)

lemma trim_idem [simp]: "trim (trim s) = trim s"
  by (simp add: trim_def)

lemma trim_by_subset: "set (trim_by P s) \<subseteq> set s"
proof -
  have "set (dropWhile P xs) \<subseteq> set xs" for xs by (auto dest: set_dropWhileD)
  then show ?thesis unfolding trim_by_def by (metis set_rev subset_trans)
qed

lemma trim_id: "s = [] \<or> (\<not> is_ws (hd s) \<and> \<not> is_ws (last s)) \<Longrightarrow> trim s = s"
  unfolding trim_def by (rule trim_by_id)

lemma trim_no_ws: "(\<forall>c \<in> set s. \<not> is_ws c) \<Longrightarrow> trim s = s"
  by (rule trim_id) (cases s, auto)

lemma trim_matches_id: "c \<notin> set s \<Longrightarrow> trim_matches c s = s"
  unfolding trim_matches_def by (rule trim_by_id) (cases s, auto)


subsection \<open>Laws of lines\<close>

lemma lines_Nil [simp]: "lines [] = []"
  by (simp add: lines_def split_on_def Let_def)

lemma strip_cr_id: "cr \<notin> set s \<Longrightarrow> strip_cr s = s"
  by (auto simp: strip_cr_def dest: last_in_set)

lemma lines_Cons:
  "nl \<notin> set l \<Longrightarrow> lines (l @ nl # s) = strip_cr l # lines s"
  by (simp add: lines_def split_on_append Let_def)

lemma lines_single: "nl \<notin> set l \<Longrightarrow> lines l = (if l = [] then [] else [l])"
  by (simp add: lines_def split_on_none Let_def)

text \<open>A text written line by line is read back line by line.\<close>

lemma lines_concat:
  "(\<forall>l \<in> set ls. nl \<notin> set l \<and> cr \<notin> set l) \<Longrightarrow> lines (concat (map (\<lambda>l. l @ [nl]) ls)) = ls"
  by (induction ls) (simp_all add: lines_Cons strip_cr_id)

lemma lines_pieces: "l \<in> set (lines s) \<Longrightarrow> nl \<notin> set l \<and> set l \<subseteq> set s"
proof -
  have sc: "set (strip_cr x) \<subseteq> set x" for x
    by (auto simp: strip_cr_def dest: in_set_butlastD)
  assume "l \<in> set (lines s)"
  then consider y where "y \<in> set (butlast (split_on nl s))" "l = strip_cr y" | "l = last (split_on nl s)"
    by (auto simp: lines_def Let_def split: if_splits)
  then obtain x where "x \<in> set (split_on nl s)" "set l \<subseteq> set x"
  proof cases
    case 1
    then show ?thesis using that [of y] sc [of y] by (blast dest: in_set_butlastD)
  next
    case 2
    then show ?thesis using that [of l] last_in_set [OF split_on_not_Nil [of nl s]] by simp
  qed
  then show ?thesis unfolding split_on_def by (blast dest: split_by_pieces)
qed

lemmas lines_no_nl = lines_pieces [THEN conjunct1]
  and lines_subset = lines_pieces [THEN conjunct2]


subsection \<open>Laws of integers\<close>

lemma code_char_of: "n < 256 \<Longrightarrow> code (char_of n) = n"
  by (simp add: code_def)

lemma digit_val_char: "d < 10 \<Longrightarrow> digit_val (digit_char d) = Some d"
  by (simp add: digit_val_def digit_char_def code_char_of)

lemma digits_acc_append:
  "digits_acc n (s @ t) = (case digits_acc n s of None \<Rightarrow> None | Some m \<Rightarrow> digits_acc m t)"
  by (induction s arbitrary: n) (auto split: option.splits)

lemma show_base_not_Nil [simp]: "show_base b n \<noteq> []"
  by (subst show_base.simps) simp

lemma digits_acc_show: "digits_acc 0 (show_base 10 n) = Some n"
proof (induction n rule: less_induct)
  case (less n)
  show ?case
  proof (cases "n < 10")
    case True
    then show ?thesis by (simp add: show_base.simps [of 10 n] digit_val_char)
  next
    case False
    with less [of "n div 10"] have "digits_acc 0 (show_base 10 (n div 10)) = Some (n div 10)" by simp
    with False show ?thesis
      by (simp add: show_base.simps [of 10 n] digits_acc_append digit_val_char)
  qed
qed

lemma parse_digits_show_nat [rtxt]: "parse_digits (show_nat n) = Some n"
  by (simp add: parse_digits_def show_nat_def digits_acc_show)

lemma digits_acc_all_digits: "digits_acc n s = Some m \<Longrightarrow> c \<in> set s \<Longrightarrow> 48 \<le> code c \<and> code c \<le> 57"
  by (induction s arbitrary: n) (auto simp: digit_val_def split: option.splits if_splits)

lemma show_nat_digits: "c \<in> set (show_nat n) \<Longrightarrow> 48 \<le> code c \<and> code c \<le> 57"
  unfolding show_nat_def using digits_acc_show by (rule digits_acc_all_digits)

lemma show_nat_not_Nil [simp]: "show_nat n \<noteq> []"
  by (simp add: show_nat_def)

lemma show_nat_no_sign: "CHR ''+'' \<notin> set (show_nat n)" "CHR ''-'' \<notin> set (show_nat n)"
  using show_nat_digits by (fastforce simp: code_def)+

lemma parse_unsigned_show_nat: "parse_unsigned hi (show_nat n) = (if n \<le> hi then Some n else None)"
proof -
  obtain c t where ct: "show_nat n = c # t" by (meson neq_Nil_conv show_nat_not_Nil)
  then have "c \<noteq> CHR ''+''" using show_nat_no_sign(1) [of n] by auto
  with ct parse_digits_show_nat [of n] show ?thesis by (simp add: parse_unsigned_def)
qed

lemma parse_u64_show [rtxt]: "parse_u64 (show_nat (unat w)) = Some w"
proof -
  have "unat w < 2 ^ 64" using unat_bound [of w] by simp
  then have "unat w \<le> 2 ^ 64 - 1" by simp
  then show ?thesis by (simp add: parse_u64_def parse_unsigned_show_nat)
qed

lemma parse_u32_show [rtxt]: "parse_u32 (show_nat (unat w)) = Some w"
proof -
  have "unat w < 2 ^ 32" using unat_bound [of w] by simp
  then have "unat w \<le> 2 ^ 32 - 1" by simp
  then show ?thesis by (simp add: parse_u32_def parse_unsigned_show_nat)
qed

lemma parse_i32_show [rtxt]: "parse_i32 (show_int (sint w)) = Some w"
proof (cases "sint w < 0")
  case True
  have "- (2 ^ 31) \<le> sint w" using sint_greater_eq [of w] by simp
  then have "nat (- sint w) \<le> 2 ^ 31" by simp
  moreover have "- of_nat (nat (- sint w)) = w" using True by simp
  ultimately show ?thesis
    using True by (simp add: show_int_def parse_i32_def parse_digits_show_nat)
next
  case False
  obtain c t where ct: "show_nat (nat (sint w)) = c # t" by (meson neq_Nil_conv show_nat_not_Nil)
  then have "c \<noteq> CHR ''-''" using show_nat_no_sign(2) [of "nat (sint w)"] by auto
  moreover have "nat (sint w) \<le> 2 ^ 31 - 1" using sint_less [of w] by simp
  then have "parse_unsigned (2 ^ 31 - 1) (c # t) = Some (nat (sint w))"
    using parse_unsigned_show_nat [of "2 ^ 31 - 1" "nat (sint w)"] ct by simp
  ultimately show ?thesis
    using False ct by (simp add: show_int_def parse_i32_def)
qed

lemma parse_unsigned_le: "parse_unsigned hi s = Some n \<Longrightarrow> n \<le> hi"
  by (auto simp: parse_unsigned_def split: option.splits if_splits)

lemma parse_u64_unat:
  "parse_unsigned (2 ^ 64 - 1) s = Some n \<Longrightarrow> parse_u64 s = Some (of_nat n) \<and> unat (of_nat n :: u64) = n"
  using parse_unsigned_le [of "2 ^ 64 - 1" s n]
  by (auto simp: parse_u64_def unat_of_nat take_bit_eq_mod)

text \<open>Two numbers with the same digits are equal, in any base the code prints in.\<close>

lemma digit_char_inj: "a < 36 \<Longrightarrow> b < 36 \<Longrightarrow> digit_char a = digit_char b \<Longrightarrow> a = b"
proof -
  assume a: "a < 36" "b < 36" and eq: "digit_char a = digit_char b"
  have "code (digit_char a) = (if a < 10 then 48 + a else 87 + a)"
    "code (digit_char b) = (if b < 10 then 48 + b else 87 + b)"
    using a by (simp_all add: digit_char_def code_char_of)
  then have "(if a < 10 then 48 + a else 87 + a) = (if b < 10 then 48 + b else 87 + b)"
    using arg_cong [OF eq, of code] by presburger
  then show ?thesis by presburger
qed

lemma show_base_inj:
  assumes "2 \<le> b" "b \<le> 36" and "show_base b m = show_base b n"
  shows "m = n"
  using assms(3)
proof (induction m arbitrary: n rule: less_induct)
  case (less m)
  have d: "m mod b < 36" "n mod b < 36"
    using assms(1,2) by (simp_all add: less_le_trans [OF mod_less_divisor])
  have unf: "show_base b k = (if k < b then [digit_char k]
      else show_base b (k div b) @ [digit_char (k mod b)])" for k
    using assms(1) by (subst show_base.simps) simp
  show ?case
  proof (cases "m < b"; cases "n < b")
    assume "m < b" "n < b"
    with less.prems have "digit_char m = digit_char n" by (simp add: unf)
    with \<open>m < b\<close> \<open>n < b\<close> assms(2) show ?thesis by (auto intro: digit_char_inj)
  next
    assume "m < b" "\<not> n < b"
    with less.prems unf [of m] unf [of n] show_base_not_Nil [of b "n div b"] show ?thesis
      by (metis append_is_Nil_conv append_self_conv2 butlast.simps(2) butlast_snoc)
  next
    assume "\<not> m < b" "n < b"
    with less.prems unf [of m] unf [of n] show ?thesis by simp
  next
    assume *: "\<not> m < b" "\<not> n < b"
    have eq: "show_base b (m div b) @ [digit_char (m mod b)] = show_base b (n div b) @ [digit_char (n mod b)]"
      using less.prems unf [of m] unf [of n] * by simp
    then have eqs: "show_base b (m div b) = show_base b (n div b)" "digit_char (m mod b) = digit_char (n mod b)"
      by simp_all
    have "m div b < m" using *(1) assms(1) by (simp add: div_less_dividend)
    from less.IH [OF this eqs(1)] digit_char_inj [OF d eqs(2)]
    show ?thesis by (metis div_mult_mod_eq)
  qed
qed

lemma show_base_chars:
  "2 \<le> b \<Longrightarrow> b \<le> 36 \<Longrightarrow> c \<in> set (show_base b n) \<Longrightarrow> code c \<ge> 48"
proof (induction n rule: less_induct)
  case (less n)
  have dc: "d < 36 \<Longrightarrow> code (digit_char d) \<ge> 48" for d
    by (simp add: digit_char_def code_char_of)
  show ?case
  proof (cases "n < b")
    case True
    with less.prems show ?thesis by (subst (asm) show_base.simps) (auto intro: dc)
  next
    case False
    then have "n div b < n" using less.prems(1) by (simp add: div_less_dividend)
    moreover have "n mod b < 36"
      using less.prems(1,2) by (simp add: less_le_trans [OF mod_less_divisor])
    moreover have "c \<in> set (show_base b (n div b)) \<or> c = digit_char (n mod b)"
      using less.prems False show_base.simps [of b n] by auto
    ultimately show ?thesis using less.IH [of "n div b"] less.prems(1,2) dc by blast
  qed
qed

subsection \<open>UTF-8\<close>

text \<open>
  \<open>std::str::from_utf8\<close> on the bytes of a buffer, as a check: the bytes of a valid text are its
  UTF-8 form, so nothing is decoded. A byte is a \<^typ>\<open>char\<close> here. The ranges are those of the
  Unicode standard: no overlong form, no surrogate, nothing above U+10FFFF.
\<close>

definition utf8_cont :: "nat \<Rightarrow> bool" where
  "utf8_cont b = (0x80 \<le> b \<and> b < 0xC0)"

fun utf8_codes :: "nat list \<Rightarrow> bool" where
  "utf8_codes [] = True"
| "utf8_codes (a # s) =
     (if a < 0x80 then utf8_codes s
      else if 0xC2 \<le> a \<and> a < 0xE0 then
        (case s of
           b # s \<Rightarrow> utf8_cont b \<and> utf8_codes s
         | _ \<Rightarrow> False)
      else if 0xE0 \<le> a \<and> a < 0xF0 then
        (case s of
           b # c # s \<Rightarrow>
             (if a = 0xE0 then 0xA0 \<le> b \<and> b < 0xC0 else if a = 0xED then 0x80 \<le> b \<and> b < 0xA0 else utf8_cont b)
             \<and> utf8_cont c \<and> utf8_codes s
         | _ \<Rightarrow> False)
      else if 0xF0 \<le> a \<and> a < 0xF5 then
        (case s of
           b # c # d # s \<Rightarrow>
             (if a = 0xF0 then 0x90 \<le> b \<and> b < 0xC0 else if a = 0xF4 then 0x80 \<le> b \<and> b < 0x90 else utf8_cont b)
             \<and> utf8_cont c \<and> utf8_cont d \<and> utf8_codes s
         | _ \<Rightarrow> False)
      else False)"

definition utf8_valid :: "string \<Rightarrow> bool" where
  "utf8_valid bytes = utf8_codes (map code bytes)"

lemma utf8_ascii: "\<forall>c \<in> set s. code c < 128 \<Longrightarrow> utf8_valid s"
  unfolding utf8_valid_def by (induction s) simp_all

end
