(* ===== verification/Journal.thy ===== *)
theory Journal
  imports Rust_Text
begin

text \<open>
  \<open>src/journal.rs\<close>: the in-memory log buffer behind \<open>mitosctl logs\<close>. The state is the
  \<open>VecDeque\<close>, oldest line first. The interface \<open>bounded_log\<close> says what any such
  buffer promises (it holds exactly the most recent \<open>cap\<close> entries) and what follows for a
  sequence of records; the buffer of the code is an instance of it.
\<close>

type_synonym journal = "string list"

definition MAX_LINES :: nat where
  "MAX_LINES = 2000"

definition record_line :: "string \<Rightarrow> journal \<Rightarrow> journal" where
  "record_line line j = (if length j \<ge> MAX_LINES then tl j else j) @ [line]"

definition recent :: "string \<Rightarrow> journal \<Rightarrow> string list" where
  "recent filt j = filter (\<lambda>line. filt = [] \<or> str_contains filt line) j"

text \<open>The last \<open>n\<close> elements of a list: the specification of a bounded history.\<close>

definition last_n :: "nat \<Rightarrow> 'a list \<Rightarrow> 'a list" where
  "last_n n xs = drop (length xs - n) xs"

lemma length_last_n [simp]: "length (last_n n xs) = min n (length xs)"
  by (simp add: last_n_def)

lemma last_n_all: "length xs \<le> n \<Longrightarrow> last_n n xs = xs"
  by (simp add: last_n_def)

lemma last_n_snoc: "0 < n \<Longrightarrow> last_n n (last_n n xs @ [y]) = last_n n (xs @ [y])"
  by (cases "n \<le> length xs") (auto simp: last_n_def Suc_diff_le)

lemma last_n_suffix: "\<exists>ys. xs = ys @ last_n n xs"
  by (metis append_take_drop_id last_n_def)

locale bounded_log =
  fixes rec :: "'a \<Rightarrow> 'q \<Rightarrow> 'q"
    and contents :: "'q \<Rightarrow> 'a list"
    and cap :: nat
  assumes cap_pos: "0 < cap"
    and contents_rec: "length (contents q) \<le> cap \<Longrightarrow> contents (rec x q) = last_n cap (contents q @ [x])"
begin

lemma length_rec: "length (contents q) \<le> cap \<Longrightarrow> length (contents (rec x q)) \<le> cap"
  by (simp add: contents_rec)

lemma newest_kept: "length (contents q) \<le> cap \<Longrightarrow> contents (rec x q) \<noteq> [] \<and> last (contents (rec x q)) = x"
proof -
  assume q: "length (contents q) \<le> cap"
  obtain ys where "contents q @ [x] = ys @ contents (rec x q)"
    using last_n_suffix contents_rec [OF q] by metis
  moreover have "length (contents (rec x q)) > 0" using cap_pos by (simp add: contents_rec [OF q])
  ultimately show ?thesis by (metis last_appendR last_snoc length_greater_0_conv)
qed

lemma fold_rec:
  "length (contents q) \<le> cap \<Longrightarrow> contents (fold rec xs q) = last_n cap (contents q @ xs)"
proof (induction xs rule: rev_induct)
  case Nil
  then show ?case by (simp add: last_n_all)
next
  case (snoc x xs)
  then show ?case
    using last_n_snoc [OF cap_pos, of "contents q @ xs" x] by (simp add: contents_rec)
qed

lemma fold_rec_bound: "length (contents q) \<le> cap \<Longrightarrow> length (contents (fold rec xs q)) \<le> cap"
  by (simp add: fold_rec)

end

lemma record_line_last_n:
  "length j \<le> MAX_LINES \<Longrightarrow> record_line line j = last_n MAX_LINES (j @ [line])"
  by (cases j) (auto simp: record_line_def last_n_def MAX_LINES_def Suc_diff_le drop_Suc)

interpretation jn: bounded_log record_line "\<lambda>j. j" MAX_LINES
  by unfold_locales (simp_all add: MAX_LINES_def record_line_last_n [unfolded MAX_LINES_def])

lemma recent_all [simp]: "recent [] j = j"
  by (simp add: recent_def)

lemma recent_subseq: "set (recent f j) = {l \<in> set j. f = [] \<or> str_contains f l}"
  by (auto simp: recent_def)

end
