(* ===== verification/Logging.thy ===== *)
theory Logging
  imports Journal
begin

text \<open>
  \<open>src/logging.rs\<close>: log levels, their parser, and \<open>write_line\<close>, which filters by the
  current level, records the line in the journal and writes it to \<open>/dev/kmsg\<close> or, failing
  that, to the console. The text of the uptime stamp (a formatted \<open>f64\<close>) and whether a write
  to \<open>/dev/kmsg\<close> succeeds are arguments.
\<close>

datatype level = Error | Warn | Info | Debug

fun level_u8 :: "level \<Rightarrow> u8" where
  "level_u8 Error = 0"
| "level_u8 Warn = 1"
| "level_u8 Info = 2"
| "level_u8 Debug = 3"

text \<open>\<open>Level\<close> derives \<open>PartialOrd\<close> and \<open>Ord\<close>: the order of the discriminants.\<close>

instantiation level :: linorder
begin

definition less_eq_level :: "level \<Rightarrow> level \<Rightarrow> bool" where
  "less_eq_level a b = (level_u8 a \<le> level_u8 b)"

definition less_level :: "level \<Rightarrow> level \<Rightarrow> bool" where
  "less_level a b = (level_u8 a < level_u8 b)"

instance
proof
  fix a b c :: level
  show "(a < b) = (a \<le> b \<and> \<not> b \<le> a)" by (auto simp: less_eq_level_def less_level_def)
  show "a \<le> a" by (simp add: less_eq_level_def)
  show "a \<le> b \<Longrightarrow> b \<le> c \<Longrightarrow> a \<le> c" unfolding less_eq_level_def by (rule order_trans)
  show "a \<le> b \<Longrightarrow> b \<le> a \<Longrightarrow> a = b"
    by (cases a; cases b) (simp_all add: less_eq_level_def word_le_nat_alt)
  show "a \<le> b \<or> b \<le> a" by (auto simp: less_eq_level_def)
qed

end

definition level_parse :: "string \<Rightarrow> level option" where
  "level_parse s =
     (let l = map ascii_lower s in
      if l = ''error'' then Some Error
      else if l = ''warn'' \<or> l = ''warning'' then Some Warn
      else if l = ''info'' then Some Info
      else if l = ''debug'' then Some Debug
      else None)"

datatype sink = Kmsg | Stderr | Stdout

record log_state =
  current_level :: u8
  boot_clock :: "instant option"
  kmsg_open :: bool
  journal :: journal
  written :: "(sink \<times> string) list"

definition pad_left :: "nat \<Rightarrow> string \<Rightarrow> string" where
  "pad_left n s = replicate (n - length s) CHR '' '' @ s"

definition log_line :: "string \<Rightarrow> string \<Rightarrow> string \<Rightarrow> string" where
  "log_line tag uptime msg =
     ''mitos-services ['' @ pad_left 4 tag @ ''] ['' @ uptime @ ''] '' @ msg @ [nl]"

definition write_line :: "level \<Rightarrow> string \<Rightarrow> string \<Rightarrow> string \<Rightarrow> bool \<Rightarrow> log_state \<Rightarrow> log_state" where
  "write_line lvl tag msg uptime kmsg_ok st =
     (if level_u8 lvl > current_level st then st
      else
        let line = log_line tag uptime msg;
            st = st\<lparr>journal := record_line line (journal st)\<rparr>;
            wrote_kmsg = (kmsg_open st \<and> kmsg_ok);
            sink = (if wrote_kmsg then Kmsg
                    else if lvl = Error \<or> lvl = Warn then Stderr else Stdout)
        in st\<lparr>written := written st @ [(sink, line)]\<rparr>)"

definition set_level :: "level \<Rightarrow> log_state \<Rightarrow> log_state" where
  "set_level lvl st = st\<lparr>current_level := level_u8 lvl\<rparr>"

fun level_tag :: "level \<Rightarrow> string" where
  "level_tag Error = ''FAIL''"
| "level_tag Warn = ''WARN''"
| "level_tag Info = ''OK''"
| "level_tag Debug = ''DBG''"

text \<open>The static initial values: \<open>Info\<close>, no clock, no \<open>/dev/kmsg\<close>, an empty journal.\<close>

definition log_init :: log_state where
  "log_init =
     \<lparr>current_level = level_u8 Info, boot_clock = None, kmsg_open = False, journal = [], written = []\<rparr>"

text \<open>What \<open>init\<close> puts into the two cells; both can be set only once.\<close>

definition log_open :: "instant \<Rightarrow> bool \<Rightarrow> log_state \<Rightarrow> log_state" where
  "log_open t opened st =
     (case boot_clock st of
        None \<Rightarrow> st\<lparr>boot_clock := Some t, kmsg_open := opened\<rparr>
      | Some t0 \<Rightarrow> st)"

lemma write_line_cases:
  "write_line lvl tag msg up ok st = st \<or>
   (level_u8 lvl \<le> current_level st \<and>
    journal (write_line lvl tag msg up ok st) = record_line (log_line tag up msg) (journal st))"
  by (cases "level_u8 lvl > current_level st") (simp_all add: write_line_def Let_def not_less)

lemma write_line_current_level [simp]:
  "current_level (write_line lvl tag msg up ok st) = current_level st"
  by (simp add: write_line_def Let_def)

lemma write_line_boot_clock [simp]:
  "boot_clock (write_line lvl tag msg up ok st) = boot_clock st"
  by (simp add: write_line_def Let_def)

lemma write_line_error:
  "last (journal (write_line Error tag msg up ok st)) = log_line tag up msg"
  by (simp add: write_line_def Let_def record_line_def)

text \<open>Every line the log writes lands in the journal, and the journal stays bounded.\<close>

lemma write_line_bounded:
  "length (journal st) \<le> MAX_LINES \<Longrightarrow> length (journal (write_line lvl tag msg up ok st)) \<le> MAX_LINES"
  using write_line_cases [of lvl tag msg up ok st] jn.length_rec by auto

lemma write_line_passes:
  "level_u8 lvl \<le> current_level st \<Longrightarrow> length (journal st) \<le> MAX_LINES \<Longrightarrow>
   last (journal (write_line lvl tag msg up ok st)) = log_line tag up msg"
  using jn.newest_kept [of "journal st" "log_line tag up msg"]
  by (auto simp: write_line_def Let_def)

lemma write_line_suppressed:
  "current_level st < level_u8 lvl \<Longrightarrow> write_line lvl tag msg up ok st = st"
  by (simp add: write_line_def)

end
