(* ===== verification/Syscalls.thy ===== *)
theory Syscalls
  imports Rust_Text
begin

text \<open>
  The system calls that \<open>src/sandbox.rs\<close>, \<open>src/seccomp.rs\<close> and the \<open>pre_exec\<close> closure of
  \<open>src/supervisor.rs\<close> make in the child, between \<open>fork\<close> and \<open>exec\<close>. What the kernel
  answers to the \<open>n\<close>-th call is a parameter (\<open>None\<close>: success, \<open>Some e\<close>: the error
  number); a child computation takes the calls made so far and returns its \<open>io::Result\<close>
  with the calls made by then.
\<close>

datatype errno = EINTR | ECHILD | ESRCH | EPERM | EINVAL | ENOENT | EOTHER nat

text \<open>\<open>struct sock_filter\<close> of \<open>linux/filter.h\<close>.\<close>

record sock_filter =
  sf_code :: u16
  sf_jt :: u8
  sf_jf :: u8
  sf_k :: u32

datatype ns_flag = CLONE_NEWNS | CLONE_NEWUTS | CLONE_NEWIPC

datatype mount_flag =
  MS_REC | MS_PRIVATE | MS_NOSUID | MS_NODEV | MS_NOEXEC | MS_BIND | MS_REMOUNT | MS_RDONLY

datatype syscall =
    Unshare "ns_flag list"
  | Mount "string option" string "string option" "mount_flag list" "string option"
  | Prctl int u64
  | Prctl_seccomp int u64 u16 "sock_filter list"
  | Setgroups_none
  | Setgid u32
  | Setuid u32

type_synonym answers = "nat \<Rightarrow> syscall \<Rightarrow> errno option"
type_synonym child = "answers \<Rightarrow> syscall list \<Rightarrow> errno option \<times> syscall list"

text \<open>\<open>if libc::call(..) != 0 { return Err(last_os_error()) }\<close> and \<open>let _ = libc::call(..)\<close>.\<close>

definition attempt :: "syscall \<Rightarrow> child" where
  "attempt c r cs = (r (length cs) c, cs @ [c])"

definition ignoring :: "syscall \<Rightarrow> child" where
  "ignoring c r cs = (None, cs @ [c])"

definition ok :: child where
  "ok r cs = (None, cs)"

text \<open>\<open>a?; b\<close>: the second runs only when the first succeeded.\<close>

definition andthen :: "child \<Rightarrow> child \<Rightarrow> child" where
  "andthen a b r cs = (case a r cs of (Some e, cs') \<Rightarrow> (Some e, cs') | (None, cs') \<Rightarrow> b r cs')"

fun each :: "child list \<Rightarrow> child" where
  "each [] = ok"
| "each (a # as) = andthen a (each as)"

definition when_then :: "bool \<Rightarrow> child \<Rightarrow> child" where
  "when_then b a = (if b then a else ok)"


subsection \<open>Outcomes of a child computation\<close>

text \<open>
  \<open>child_run c r mandatory\<close>: when \<open>c\<close> succeeds it has made exactly the calls
  \<open>calls\<close>; when it fails it has made a proper prefix of them and the call that failed.
\<close>

lemma attempt_ok [simp]: "attempt c r cs = (None, cs') \<longleftrightarrow> r (length cs) c = None \<and> cs' = cs @ [c]"
  by (auto simp: attempt_def)

lemma attempt_err [simp]:
  "attempt c r cs = (Some e, cs') \<longleftrightarrow> r (length cs) c = Some e \<and> cs' = cs @ [c]"
  by (auto simp: attempt_def)

lemma ignoring_ok [simp]: "ignoring c r cs = (e, cs') \<longleftrightarrow> e = None \<and> cs' = cs @ [c]"
  by (auto simp: ignoring_def)

lemma ok_ok [simp]: "ok r cs = (e, cs') \<longleftrightarrow> e = None \<and> cs' = cs"
  by (auto simp: ok_def)

lemma andthen_ok:
  "andthen a b r cs = (None, cs'') \<longleftrightarrow> (\<exists>cs'. a r cs = (None, cs') \<and> b r cs' = (None, cs''))"
  by (auto simp: andthen_def split: prod.splits option.splits)

lemma andthen_err:
  "andthen a b r cs = (Some e, cs'') \<longleftrightarrow>
   a r cs = (Some e, cs'') \<or> (\<exists>cs'. a r cs = (None, cs') \<and> b r cs' = (Some e, cs''))"
  by (auto simp: andthen_def split: prod.splits option.splits)

lemmas child_simps = andthen_ok andthen_err

lemma each_append: "each (as @ bs) r cs = andthen (each as) (each bs) r cs"
  by (induction as arbitrary: cs) (auto simp: andthen_def ok_def split: prod.splits option.splits)

lemma each_ignoring: "each (map ignoring css) r cs = (None, cs @ css)"
  by (induction css arbitrary: cs) (auto simp: andthen_def ok_def ignoring_def)

text \<open>
  A computation only appends to the calls made before it, and a failing one ends with the
  call the kernel refused: nothing is done after a refusal.
\<close>

definition fail_fast :: "child \<Rightarrow> bool" where
  "fail_fast a \<longleftrightarrow>
     (\<forall>r cs. \<exists>new. snd (a r cs) = cs @ new \<and>
        (\<forall>e. fst (a r cs) = Some e \<longrightarrow>
           (\<exists>pre c. new = pre @ [c] \<and> r (length (cs @ pre)) c = Some e)))"

lemma fail_fast_attempt [intro]: "fail_fast (attempt c)"
  by (auto simp: fail_fast_def attempt_def)

lemma fail_fast_ignoring [intro]: "fail_fast (ignoring c)"
  by (auto simp: fail_fast_def ignoring_def)

lemma fail_fast_ok [intro]: "fail_fast ok"
  by (auto simp: fail_fast_def ok_def)

lemma fail_fastD:
  assumes "fail_fast a"
  obtains new where "snd (a r cs) = cs @ new"
    "\<And>e. fst (a r cs) = Some e \<Longrightarrow> \<exists>pre c. new = pre @ [c] \<and> r (length (cs @ pre)) c = Some e"
  using assms unfolding fail_fast_def by meson

lemma fail_fast_andthen [intro]:
  assumes a: "fail_fast a" and b: "fail_fast b"
  shows "fail_fast (andthen a b)"
  unfolding fail_fast_def
proof (intro allI)
  fix r cs
  from fail_fastD [OF a, of r cs] obtain n1 where n1: "snd (a r cs) = cs @ n1"
    "\<And>e. fst (a r cs) = Some e \<Longrightarrow> \<exists>pre c. n1 = pre @ [c] \<and> r (length (cs @ pre)) c = Some e"
    by metis
  from fail_fastD [OF b, of r "cs @ n1"] obtain n2 where n2: "snd (b r (cs @ n1)) = (cs @ n1) @ n2"
    "\<And>e. fst (b r (cs @ n1)) = Some e \<Longrightarrow>
       \<exists>pre c. n2 = pre @ [c] \<and> r (length ((cs @ n1) @ pre)) c = Some e"
    by metis
  show "\<exists>new. snd (andthen a b r cs) = cs @ new \<and>
      (\<forall>e. fst (andthen a b r cs) = Some e \<longrightarrow>
        (\<exists>pre c. new = pre @ [c] \<and> r (length (cs @ pre)) c = Some e))"
  proof (cases "fst (a r cs)")
    case (Some e)
    then have "andthen a b r cs = a r cs"
      by (cases "a r cs") (simp add: andthen_def)
    with n1 show ?thesis by auto
  next
    case None
    then have eq: "andthen a b r cs = b r (cs @ n1)"
      using n1(1) by (cases "a r cs") (simp add: andthen_def)
    show ?thesis
    proof (rule exI [of _ "n1 @ n2"], intro conjI allI impI)
      show "snd (andthen a b r cs) = cs @ n1 @ n2" using eq n2(1) by simp
      fix e assume "fst (andthen a b r cs) = Some e"
      with eq n2(2) obtain pre c where "n2 = pre @ [c]" "r (length ((cs @ n1) @ pre)) c = Some e"
        by auto
      then show "\<exists>pre c. n1 @ n2 = pre @ [c] \<and> r (length (cs @ pre)) c = Some e"
        by (intro exI [of _ "n1 @ pre"]) auto
    qed
  qed
qed

lemma fail_fast_each [intro]: "(\<And>a. a \<in> set as \<Longrightarrow> fail_fast a) \<Longrightarrow> fail_fast (each as)"
  by (induction as) auto

lemma fail_fast_when_then [intro]: "fail_fast a \<Longrightarrow> fail_fast (when_then b a)"
  by (simp add: when_then_def fail_fast_ok)

end
