(* ===== verification/Seccomp.thy ===== *)
theory Seccomp
  imports Syscalls
begin

unbundle bit_operations_syntax

text \<open>
  \<open>src/seccomp.rs\<close>: the deny-list system call filter. The program is translated
  instruction by instruction. The machine that runs it is the kernel's, so it is a parameter
  \<open>run\<close> of the theorems with its documented semantics (\<open>linux/filter.h\<close>,
  \<open>linux/seccomp.h\<close>) as the hypothesis \<open>bpf_semantics\<close>, stated with the numbers of that
  interface and not with the constants of the source.
\<close>

definition BPF_LD :: u16 where "BPF_LD = 0x00"
definition BPF_JMP :: u16 where "BPF_JMP = 0x05"
definition BPF_RET :: u16 where "BPF_RET = 0x06"
definition BPF_W :: u16 where "BPF_W = 0x00"
definition BPF_ABS :: u16 where "BPF_ABS = 0x20"
definition BPF_JEQ :: u16 where "BPF_JEQ = 0x10"
definition BPF_K :: u16 where "BPF_K = 0x00"

definition SECCOMP_RET_KILL_PROCESS :: u32 where "SECCOMP_RET_KILL_PROCESS = 0x80000000"
definition SECCOMP_RET_ERRNO :: u32 where "SECCOMP_RET_ERRNO = 0x00050000"
definition SECCOMP_RET_ALLOW :: u32 where "SECCOMP_RET_ALLOW = 0x7fff0000"
definition SECCOMP_RET_DATA_MASK :: u32 where "SECCOMP_RET_DATA_MASK = 0x0000ffff"
definition EPERM_code :: u32 where "EPERM_code = 1"

definition PR_SET_NO_NEW_PRIVS :: int where "PR_SET_NO_NEW_PRIVS = 38"
definition PR_SET_SECCOMP :: int where "PR_SET_SECCOMP = 22"
definition SECCOMP_MODE_FILTER :: u64 where "SECCOMP_MODE_FILTER = 2"

definition OFFSET_NR :: u32 where "OFFSET_NR = 0"
definition OFFSET_ARCH :: u32 where "OFFSET_ARCH = 4"
definition AUDIT_ARCH_X86_64 :: u32 where "AUDIT_ARCH_X86_64 = 0xC000003E"

lemmas bpf_consts = BPF_LD_def BPF_JMP_def BPF_RET_def BPF_W_def BPF_ABS_def BPF_JEQ_def BPF_K_def
  SECCOMP_RET_KILL_PROCESS_def SECCOMP_RET_ERRNO_def SECCOMP_RET_ALLOW_def
  SECCOMP_RET_DATA_MASK_def EPERM_code_def OFFSET_NR_def OFFSET_ARCH_def AUDIT_ARCH_X86_64_def

definition BLOCKED_SYSCALLS :: "i32 list" where
  "BLOCKED_SYSCALLS =
     [101, 103, 154, 155, 161, 163, 164, 165, 166, 167, 168, 169, 170, 171, 172, 173, 175, 176,
      179, 246, 248, 249, 250, 298, 313, 320, 321]"

definition stmt :: "u16 \<Rightarrow> u32 \<Rightarrow> sock_filter" where
  "stmt c k = \<lparr>sf_code = c, sf_jt = 0, sf_jf = 0, sf_k = k\<rparr>"

definition jump :: "u16 \<Rightarrow> u32 \<Rightarrow> u8 \<Rightarrow> u8 \<Rightarrow> sock_filter" where
  "jump c k jt jf = \<lparr>sf_code = c, sf_jt = jt, sf_jf = jf, sf_k = k\<rparr>"

text \<open>One round of the loop of \<open>build_program\<close>; \<open>nr as u32\<close> keeps the bits of an \<open>i32\<close>.\<close>

definition deny_one :: "u32 \<Rightarrow> i32 \<Rightarrow> sock_filter list" where
  "deny_one errno_ret nr =
     [jump (BPF_JMP OR BPF_JEQ OR BPF_K) nr 0 1, stmt (BPF_RET OR BPF_K) errno_ret]"

definition build_program :: "sock_filter list" where
  "build_program =
     [stmt (BPF_LD OR BPF_W OR BPF_ABS) OFFSET_ARCH,
      jump (BPF_JMP OR BPF_JEQ OR BPF_K) AUDIT_ARCH_X86_64 1 0,
      stmt (BPF_RET OR BPF_K) SECCOMP_RET_KILL_PROCESS,
      stmt (BPF_LD OR BPF_W OR BPF_ABS) OFFSET_NR] @
     (let errno_ret = SECCOMP_RET_ERRNO OR (EPERM_code AND SECCOMP_RET_DATA_MASK)
      in concat (map (deny_one errno_ret) BLOCKED_SYSCALLS)) @
     [stmt (BPF_RET OR BPF_K) SECCOMP_RET_ALLOW]"

text \<open>\<open>seccomp::apply\<close>: \<open>len as u16\<close> truncates.\<close>

definition seccomp_apply :: child where
  "seccomp_apply =
     andthen (attempt (Prctl PR_SET_NO_NEW_PRIVS 1))
       (attempt (Prctl_seccomp PR_SET_SECCOMP SECCOMP_MODE_FILTER
          (of_nat (length build_program)) build_program))"


subsection \<open>The kernel's filter machine\<close>

text \<open>
  \<open>run p nr arch a\<close> is the verdict of the rest \<open>p\<close> of a program for a call \<open>nr\<close> entered
  through architecture \<open>arch\<close>, with accumulator \<open>a\<close>. The three instructions the filter
  uses: load a word of \<open>struct seccomp_data\<close> (\<open>nr\<close> at 0, \<open>arch\<close> at 4), compare and jump
  forward, return.
\<close>

type_synonym bpf_machine = "sock_filter list \<Rightarrow> u32 \<Rightarrow> u32 \<Rightarrow> u32 \<Rightarrow> u32 option"

definition bpf_semantics :: "bpf_machine \<Rightarrow> bool" where
  "bpf_semantics run \<longleftrightarrow>
     (\<forall>p nr arch a jt jf.
        run (\<lparr>sf_code = 0x20, sf_jt = jt, sf_jf = jf, sf_k = 0\<rparr> # p) nr arch a = run p nr arch nr \<and>
        run (\<lparr>sf_code = 0x20, sf_jt = jt, sf_jf = jf, sf_k = 4\<rparr> # p) nr arch a = run p nr arch arch) \<and>
     (\<forall>p nr arch a jt jf k.
        run (\<lparr>sf_code = 0x15, sf_jt = jt, sf_jf = jf, sf_k = k\<rparr> # p) nr arch a =
          run (drop (if a = k then unat jt else unat jf) p) nr arch a) \<and>
     (\<forall>p nr arch a jt jf k.
        run (\<lparr>sf_code = 0x06, sf_jt = jt, sf_jf = jf, sf_k = k\<rparr> # p) nr arch a = Some k)"

text \<open>A reference machine, to show that the hypothesis can hold and to run the filter.\<close>

fun bpf_run :: "nat \<Rightarrow> bpf_machine" where
  "bpf_run 0 p nr arch a = None"
| "bpf_run (Suc n) [] nr arch a = None"
| "bpf_run (Suc n) (i # p) nr arch a =
     (if sf_code i = 0x20 then bpf_run n p nr arch (if sf_k i = 0 then nr else if sf_k i = 4 then arch else 0)
      else if sf_code i = 0x15 then bpf_run n (drop (if a = sf_k i then unat (sf_jt i) else unat (sf_jf i)) p) nr arch a
      else if sf_code i = 0x06 then Some (sf_k i)
      else None)"

definition reference_bpf :: bpf_machine where
  "reference_bpf p nr arch a = bpf_run (Suc (length p)) p nr arch a"

lemma bpf_run_enough:
  "length p < n \<Longrightarrow> length p < m \<Longrightarrow> bpf_run n p nr arch a = bpf_run m p nr arch a"
proof (induction n p nr arch a arbitrary: m rule: bpf_run.induct)
  case (1 p nr arch a)
  then show ?case by simp
next
  case (2 n nr arch a)
  then show ?case by (cases m) auto
next
  case (3 n i p nr arch a)
  then obtain k where k: "m = Suc k" by (cases m) auto
  with "3.prems" have lens: "length p < n" "length p < k" by simp_all
  then have drops: "length (drop j p) < n" "length (drop j p) < k" for j by simp_all
  show ?case
    unfolding k bpf_run.simps
    by (intro if_cong refl "3.IH" lens drops) simp_all
qed

lemma reference_bpf_semantics: "bpf_semantics reference_bpf"
proof -
  have red: "bpf_run (length p) (drop j p) nr arch a = reference_bpf (drop j p) nr arch a"
    if "0 < j" "p \<noteq> []" for p j nr arch a
    unfolding reference_bpf_def using that by (intro bpf_run_enough) (cases p; simp)+
  have jmp: "bpf_run (Suc (length p)) (drop j p) nr arch a = reference_bpf (drop j p) nr arch a"
    for p j nr arch a
    unfolding reference_bpf_def by (intro bpf_run_enough) simp_all
  show ?thesis
    unfolding bpf_semantics_def
    by (auto simp: reference_bpf_def jmp [unfolded reference_bpf_def])
qed


subsection \<open>The verdict of the filter\<close>

lemma bpf_laws:
  assumes "bpf_semantics run"
  shows "run (\<lparr>sf_code = 0x20, sf_jt = jt, sf_jf = jf, sf_k = 0\<rparr> # q) nr arch a = run q nr arch nr"
    and "run (\<lparr>sf_code = 0x20, sf_jt = jt, sf_jf = jf, sf_k = 4\<rparr> # q) nr arch a = run q nr arch arch"
    and "run (\<lparr>sf_code = 0x15, sf_jt = jt, sf_jf = jf, sf_k = k\<rparr> # q) nr arch a =
      run (drop (if a = k then unat jt else unat jf) q) nr arch a"
    and "run (\<lparr>sf_code = 0x06, sf_jt = jt, sf_jf = jf, sf_k = k\<rparr> # q) nr arch a = Some k"
  using assms unfolding bpf_semantics_def by blast+

text \<open>The chain of comparisons, for any deny-list and any rest of the program.\<close>

lemma run_deny_list:
  assumes "bpf_semantics run"
  shows "run (concat (map (deny_one e) nrs) @ p) nr arch nr =
    (if nr \<in> set nrs then Some e else run p nr arch nr)"
proof (induction nrs)
  case Nil
  then show ?case by simp
next
  case (Cons n nrs)
  then show ?case
    by (simp add: deny_one_def jump_def stmt_def bpf_consts bpf_laws [OF assms])
qed

definition verdict :: "u32 \<Rightarrow> u32 \<Rightarrow> u32" where
  "verdict nr arch =
     (if arch \<noteq> AUDIT_ARCH_X86_64 then SECCOMP_RET_KILL_PROCESS
      else if nr \<in> set BLOCKED_SYSCALLS then SECCOMP_RET_ERRNO OR 1
      else SECCOMP_RET_ALLOW)"

lemma run_build_program:
  assumes sem: "bpf_semantics run"
  shows "run build_program nr arch a = Some (verdict nr arch)"
proof -
  note defs = stmt_def jump_def bpf_consts bpf_laws [OF sem]
  let ?e = "SECCOMP_RET_ERRNO OR 1"
  let ?deny = "concat (map (deny_one ?e) BLOCKED_SYSCALLS)"
  let ?allow = "[stmt (BPF_RET OR BPF_K) SECCOMP_RET_ALLOW]"
  have mask: "EPERM_code AND SECCOMP_RET_DATA_MASK = 1" by (simp add: bpf_consts)
  have deny: "run (?deny @ ?allow) nr arch nr =
      Some (if nr \<in> set BLOCKED_SYSCALLS then ?e else SECCOMP_RET_ALLOW)"
    unfolding run_deny_list [OF sem] by (simp add: defs)
  have "run build_program nr arch a =
      (if arch = AUDIT_ARCH_X86_64 then run (?deny @ ?allow) nr arch nr
       else Some SECCOMP_RET_KILL_PROCESS)"
    unfolding build_program_def mask Let_def append_Cons append_Nil by (simp add: defs)
  then show ?thesis unfolding deny verdict_def by simp
qed

lemma length_build_program: "length build_program = 5 + 2 * length BLOCKED_SYSCALLS"
proof -
  have "length (concat (map (deny_one e) nrs)) = 2 * length nrs" for e nrs
    by (induction nrs) (simp_all add: deny_one_def)
  then show ?thesis by (simp add: build_program_def Let_def)
qed

lemma length_blocked: "length BLOCKED_SYSCALLS = 27"
  by (simp add: BLOCKED_SYSCALLS_def)

lemma build_program_len_u16: "unat (of_nat (length build_program) :: u16) = length build_program"
  by (simp add: length_build_program length_blocked)

end
