(* ===== verification/Sandbox.thy ===== *)
theory Sandbox
  imports Seccomp
begin

text \<open>
  \<open>src/sandbox.rs\<close>: the isolation applied in the child, as sequences of system calls. The
  last section is the \<open>pre_exec\<close> closure \<open>src/supervisor.rs\<close> builds for a sandboxed
  service, whose hand-made privilege drop belongs to the same sequence.
\<close>

record sandbox =
  cap_last_cap :: u32

definition FALLBACK_LAST_CAP :: u32 where
  "FALLBACK_LAST_CAP = 40"

text \<open>\<open>prepare\<close>: the argument is what reading \<open>/proc/sys/kernel/cap_last_cap\<close> gave.\<close>

definition prepare :: "string option \<Rightarrow> sandbox" where
  "prepare file =
     \<lparr>cap_last_cap =
        (case file of
           None \<Rightarrow> FALLBACK_LAST_CAP
         | Some s \<Rightarrow> (case parse_u32 (trim s) of None \<Rightarrow> FALLBACK_LAST_CAP | Some n \<Rightarrow> n))\<rparr>"

definition mount_private :: syscall where
  "mount_private = Mount None ''/'' None [MS_REC, MS_PRIVATE] None"

definition namespaces :: child where
  "namespaces =
     andthen (attempt (Unshare [CLONE_NEWNS, CLONE_NEWUTS, CLONE_NEWIPC]))
       (attempt mount_private)"

definition mount_tmp :: syscall where
  "mount_tmp =
     Mount (Some ''tmpfs'') ''/tmp'' (Some ''tmpfs'') [MS_NOSUID, MS_NODEV, MS_NOEXEC]
       (Some ''size=64M,mode=1777'')"

definition private_tmp :: child where
  "private_tmp = attempt mount_tmp"

definition bind_self :: "string \<Rightarrow> syscall" where
  "bind_self path = Mount (Some path) path None [MS_BIND, MS_REC] None"

definition remount_ro :: "string \<Rightarrow> syscall" where
  "remount_ro path = Mount None path None [MS_REMOUNT, MS_BIND, MS_RDONLY, MS_REC] None"

text \<open>One round of \<open>protect_system\<close>: a refused bind mount skips the remount (\<open>continue\<close>).\<close>

definition protect_path :: "string \<Rightarrow> child" where
  "protect_path path r cs =
     (let (bind_ret, cs) = attempt (bind_self path) r cs
      in if bind_ret \<noteq> None then (None, cs)
         else ignoring (remount_ro path) r cs)"

definition protect_system :: child where
  "protect_system = each (map protect_path [''/usr'', ''/boot'', ''/etc''])"

definition PR_CAPBSET_DROP :: int where
  "PR_CAPBSET_DROP = 24"

definition drop_cap :: "nat \<Rightarrow> syscall" where
  "drop_cap cap = Prctl PR_CAPBSET_DROP (of_nat cap)"

definition drop_privileges :: "u32 \<Rightarrow> child" where
  "drop_privileges last_cap =
     andthen (attempt (Prctl PR_SET_NO_NEW_PRIVS 1))
       (each (map (\<lambda>cap. ignoring (drop_cap cap)) [0..<Suc (unat last_cap)]))"

definition sandbox_apply :: "sandbox \<Rightarrow> child" where
  "sandbox_apply sb =
     andthen namespaces
       (andthen private_tmp
         (andthen (drop_privileges (cap_last_cap sb))
           (andthen seccomp_apply ok)))"

record service_sandbox =
  sb_private_tmp :: bool
  sb_protect_system :: bool
  sb_no_new_privileges :: bool

definition sandbox_is_empty :: "service_sandbox \<Rightarrow> bool" where
  "sandbox_is_empty sb =
     (\<not> sb_private_tmp sb \<and> \<not> sb_protect_system sb \<and> \<not> sb_no_new_privileges sb)"

definition service_sandbox_apply :: "service_sandbox \<Rightarrow> child" where
  "service_sandbox_apply sb =
     (let needs_mounts = sb_private_tmp sb \<or> sb_protect_system sb
      in andthen (when_then needs_mounts
             (andthen (attempt (Unshare [CLONE_NEWNS])) (attempt mount_private)))
         (andthen (when_then (sb_private_tmp sb) private_tmp)
         (andthen (when_then (sb_protect_system sb) protect_system)
         (andthen (when_then (sb_no_new_privileges sb) (attempt (Prctl PR_SET_NO_NEW_PRIVS 1)))
           ok))))"

text \<open>
  The closure of \<open>spawn_with_history\<close> for a sandboxed service: the sandbox, then
  \<open>setgroups\<close> (result ignored) and \<open>setgid\<close> when a group is set, then \<open>setuid\<close> when a user
  is set.
\<close>

definition service_pre_exec :: "service_sandbox \<Rightarrow> u32 option \<Rightarrow> u32 option \<Rightarrow> child" where
  "service_pre_exec sb gid uid =
     andthen (service_sandbox_apply sb)
       (andthen
          (case gid of
             None \<Rightarrow> ok
           | Some g \<Rightarrow> andthen (ignoring Setgroups_none) (attempt (Setgid g)))
          (andthen
             (case uid of None \<Rightarrow> ok | Some u \<Rightarrow> attempt (Setuid u))
             ok))"


subsection \<open>The calls of each step\<close>

lemma each_ignoring_caps:
  "each (map (\<lambda>cap. ignoring (drop_cap cap)) ns) r cs = (None, cs @ map drop_cap ns)"
  using each_ignoring [of "map drop_cap ns" r cs] by (simp add: comp_def)

lemma protect_path_never_fails: "fst (protect_path p r cs) = None"
  by (simp add: protect_path_def ignoring_def split: prod.splits)

lemma protect_path_calls:
  "snd (protect_path p r cs) =
    cs @ bind_self p # (if r (length cs) (bind_self p) = None then [remount_ro p] else [])"
  by (simp add: protect_path_def attempt_def ignoring_def)

lemma protect_path_ok:
  "protect_path p r cs = (e, cs') \<longleftrightarrow> e = None \<and>
    cs' = cs @ bind_self p # (if r (length cs) (bind_self p) = None then [remount_ro p] else [])"
  using protect_path_never_fails [of p r cs] protect_path_calls [of p r cs]
  by (cases "protect_path p r cs") auto

lemma fail_fast_protect_path: "fail_fast (protect_path p)"
  unfolding fail_fast_def using protect_path_never_fails protect_path_calls by auto

lemma fail_fast_namespaces [intro]: "fail_fast namespaces"
  and fail_fast_private_tmp [intro]: "fail_fast private_tmp"
  and fail_fast_protect_system [intro]: "fail_fast protect_system"
  and fail_fast_drop_privileges [intro]: "fail_fast (drop_privileges n)"
  and fail_fast_seccomp_apply [intro]: "fail_fast seccomp_apply"
  unfolding namespaces_def private_tmp_def protect_system_def drop_privileges_def seccomp_apply_def
  by (auto intro!: fail_fast_andthen fail_fast_each fail_fast_protect_path)

lemma fail_fast_sandbox_apply: "fail_fast (sandbox_apply sb)"
  unfolding sandbox_apply_def by (intro fail_fast_andthen) auto

lemma fail_fast_service_sandbox_apply [intro]: "fail_fast (service_sandbox_apply sb)"
  unfolding service_sandbox_apply_def Let_def by (intro fail_fast_andthen fail_fast_when_then) auto

lemma fail_fast_service_pre_exec: "fail_fast (service_pre_exec sb gid uid)"
  unfolding service_pre_exec_def
  by (intro fail_fast_andthen) (auto split: option.splits)

text \<open>The exact sequence of a launched app's sandbox that was set up in full.\<close>

definition app_calls :: "sandbox \<Rightarrow> syscall list" where
  "app_calls sb =
     [Unshare [CLONE_NEWNS, CLONE_NEWUTS, CLONE_NEWIPC], mount_private, mount_tmp,
      Prctl PR_SET_NO_NEW_PRIVS 1] @
     map drop_cap [0..<Suc (unat (cap_last_cap sb))] @
     [Prctl PR_SET_NO_NEW_PRIVS 1,
      Prctl_seccomp PR_SET_SECCOMP SECCOMP_MODE_FILTER (of_nat (length build_program)) build_program]"

lemma sandbox_apply_calls: "sandbox_apply sb r cs = (None, cs') \<Longrightarrow> cs' = cs @ app_calls sb"
  by (auto simp: sandbox_apply_def namespaces_def private_tmp_def drop_privileges_def
      seccomp_apply_def child_simps each_ignoring_caps app_calls_def simp del: upt_Suc)

text \<open>The calls of a service sandbox contain no change of identity.\<close>

fun is_identity_call :: "syscall \<Rightarrow> bool" where
  "is_identity_call Setgroups_none = True"
| "is_identity_call (Setgid _) = True"
| "is_identity_call (Setuid _) = True"
| "is_identity_call _ = False"

lemma protect_system_ok:
  "protect_system r cs = (e, cs') \<Longrightarrow>
   e = None \<and> (\<exists>new. cs' = cs @ new \<and> (\<forall>c \<in> set new. \<not> is_identity_call c))"
proof -
  have "\<exists>new. each (map protect_path ps) r cs = (None, cs @ new) \<and> (\<forall>c \<in> set new. \<not> is_identity_call c)"
    for ps r cs
  proof (induction ps arbitrary: cs)
    case Nil
    then show ?case by simp
  next
    case (Cons p ps)
    let ?n = "bind_self p # (if r (length cs) (bind_self p) = None then [remount_ro p] else [])"
    obtain new where "each (map protect_path ps) r (cs @ ?n) = (None, (cs @ ?n) @ new)"
      "\<forall>c \<in> set new. \<not> is_identity_call c"
      using Cons.IH [of "cs @ ?n"] by auto
    moreover have "protect_path p r cs = (None, cs @ ?n)" by (simp only: protect_path_ok simp_thms)
    moreover have "\<forall>c \<in> set ?n. \<not> is_identity_call c" by (simp add: bind_self_def remount_ro_def)
    ultimately show ?case
      by (intro exI [of _ "?n @ new"]) (auto simp: andthen_def)
  qed
  from this [of "[''/usr'', ''/boot'', ''/etc'']" r cs]
  show "protect_system r cs = (e, cs') \<Longrightarrow>
    e = None \<and> (\<exists>new. cs' = cs @ new \<and> (\<forall>c \<in> set new. \<not> is_identity_call c))"
    unfolding protect_system_def by auto
qed

lemma service_sandbox_apply_calls:
  assumes "service_sandbox_apply sb r cs = (None, cs')"
  shows "\<exists>new. cs' = cs @ new \<and> (\<forall>c \<in> set new. \<not> is_identity_call c)"
  using assms
  by (auto simp: service_sandbox_apply_def Let_def child_simps when_then_def private_tmp_def
      mount_private_def mount_tmp_def split: if_splits dest!: protect_system_ok)

end
