(* ===== verification/Kernel.thy ===== *)
theory Kernel
  imports Logging Sandbox
begin

text \<open>
  The operating system as the supervisor process sees it: the monotonic clock, sleeping,
  file operations, spawning, killing and waiting for children, and the log.

  What the system answers is a parameter, the record \<open>os\<close>: every
  interaction has a number (the field \<open>ev\<close> counts them), and the oracle gives the answer to
  the interaction with that number. Nothing is assumed about the answers here; a theorem that
  relies on documented behaviour of the system names it as a hypothesis. What the program did
  to the system is recorded, oldest first, in the field \<open>trace\<close>. The state record is
  extended by the components above it.
\<close>

type_synonym io_error = string

datatype signal = SIGINT | SIGTERM | SIGQUIT | SIGKILL | SIGUSR1 | SIGUSR2 | SIG_other nat string

text \<open>The \<open>Debug\<close> text of \<open>nix::sys::signal::Signal\<close>.\<close>

fun signal_name :: "signal \<Rightarrow> string" where
  "signal_name SIGINT = ''SIGINT''"
| "signal_name SIGTERM = ''SIGTERM''"
| "signal_name SIGQUIT = ''SIGQUIT''"
| "signal_name SIGKILL = ''SIGKILL''"
| "signal_name SIGUSR1 = ''SIGUSR1''"
| "signal_name SIGUSR2 = ''SIGUSR2''"
| "signal_name (SIG_other n name) = name"

text \<open>\<open>nix::sys::wait::WaitStatus\<close>.\<close>

datatype wait_status =
    Exited pid int
  | Signaled pid signal bool
  | Stopped pid signal
  | PtraceEvent pid signal int
  | PtraceSyscall pid
  | Continued pid
  | StillAlive

datatype wait_result = Wait_ok wait_status | Wait_err errno

datatype fs_op =
    Create_dir_all string
  | Write_file string string
  | Remove_dir string
  | Remove_file string
  | Set_permissions string nat
  | Bind_datagram string
  | Bind_stream string
  | Chown string u32 u32
  | Metadata string
  | Open_write string

text \<open>What \<open>UnixDatagram::recv\<close> returned: the bytes of the datagram, \<open>ErrorKind::Interrupted\<close>, or any
  other error.\<close>

datatype recv_result = Received string | Interrupted | Recv_failed

text \<open>A \<open>std::process::Command\<close> ready to spawn.\<close>

datatype pre_exec =
    Pre_service service_sandbox "u32 option" "u32 option"
  | Pre_app sandbox

record command =
  cmd_path :: string
  cmd_args :: "string list"
  cmd_env_clear :: bool
  cmd_env :: "(string \<times> string) list"
  cmd_dir :: "string option"
  cmd_uid :: "u32 option"
  cmd_gid :: "u32 option"
  cmd_pre_exec :: "pre_exec option"

definition command_new :: "string \<Rightarrow> command" where
  "command_new path =
     \<lparr>cmd_path = path, cmd_args = [], cmd_env_clear = False, cmd_env = [], cmd_dir = None,
      cmd_uid = None, cmd_gid = None, cmd_pre_exec = None\<rparr>"

text \<open>The calls \<open>main\<close> makes once to set the process up; they can only fail.\<close>

datatype setup_call =
    Become_subreaper
  | Sigaction signal
  | Sigmask_block "signal list"
  | Sigmask_unblock "signal list"

datatype event =
    Fs fs_op
  | Spawn command "io_error + pid"
  | Kill pid signal
  | Wait pid bool wait_result
  | Listener string
  | Set_hostname string
  | Setup setup_call
  | Shutdown_ack

record os =
  os_tick :: "nat \<Rightarrow> nat"
  os_fs :: "nat \<Rightarrow> fs_op \<Rightarrow> io_error option"
  os_read :: "nat \<Rightarrow> string \<Rightarrow> io_error + string"
  os_read_dir :: "nat \<Rightarrow> string \<Rightarrow> string list option"
  os_spawn :: "nat \<Rightarrow> command \<Rightarrow> io_error + pid"
  os_child :: "nat \<Rightarrow> answers"
  os_wait :: "nat \<Rightarrow> pid \<Rightarrow> bool \<Rightarrow> wait_result"
  os_notify :: "nat \<Rightarrow> (string \<times> recv_result) list"
  os_hostname :: "nat \<Rightarrow> string \<Rightarrow> io_error option"
  os_setup :: "nat \<Rightarrow> setup_call \<Rightarrow> errno option"
  os_ack :: "nat \<Rightarrow> io_error option"
  os_uptime :: "duration \<Rightarrow> string"
  os_kmsg :: "nat \<Rightarrow> bool"
  os_errno_text :: "errno \<Rightarrow> string"
  os_panic_info :: string

record kernel =
  clock :: instant
  ev :: nat
  trace :: "event list"
  log_st :: log_state

subsection \<open>Operations\<close>

definition now :: "os \<Rightarrow> 'a kernel_scheme \<Rightarrow> instant \<times> 'a kernel_scheme" where
  "now os s =
     (let t = clock s + os_tick os (ev s)
      in (t, s\<lparr>clock := t, ev := Suc (ev s)\<rparr>))"

text \<open>\<open>thread::sleep\<close> sleeps for at least the duration given.\<close>

definition sleep :: "os \<Rightarrow> duration \<Rightarrow> 'a kernel_scheme \<Rightarrow> 'a kernel_scheme" where
  "sleep os d s = s\<lparr>clock := clock s + d + os_tick os (ev s), ev := Suc (ev s)\<rparr>"

text \<open>\<open>uptime_secs\<close>: the time since \<open>BOOT_CLOCK\<close>, zero before \<open>logging::init\<close>.\<close>

definition uptime :: "'a kernel_scheme \<Rightarrow> duration" where
  "uptime s = (case boot_clock (log_st s) of None \<Rightarrow> 0 | Some t \<Rightarrow> duration_since (clock s) t)"

definition log_at :: "os \<Rightarrow> level \<Rightarrow> string \<Rightarrow> 'a kernel_scheme \<Rightarrow> 'a kernel_scheme" where
  "log_at os lvl msg s =
     s\<lparr>log_st := write_line lvl (level_tag lvl) msg (os_uptime os (uptime s)) (os_kmsg os (ev s))
                  (log_st s)\<rparr>"

definition emit :: "event \<Rightarrow> 'a kernel_scheme \<Rightarrow> 'a kernel_scheme" where
  "emit e s = s\<lparr>ev := Suc (ev s), trace := trace s @ [e]\<rparr>"

definition fs :: "os \<Rightarrow> fs_op \<Rightarrow> 'a kernel_scheme \<Rightarrow> io_error option \<times> 'a kernel_scheme" where
  "fs os op s = (os_fs os (ev s) op, emit (Fs op) s)"

definition read_to_string :: "os \<Rightarrow> string \<Rightarrow> 'a kernel_scheme \<Rightarrow> (io_error + string) \<times> 'a kernel_scheme" where
  "read_to_string os path s = (os_read os (ev s) path, s\<lparr>ev := Suc (ev s)\<rparr>)"

definition read_dir :: "os \<Rightarrow> string \<Rightarrow> 'a kernel_scheme \<Rightarrow> string list option \<times> 'a kernel_scheme" where
  "read_dir os path s = (os_read_dir os (ev s) path, s\<lparr>ev := Suc (ev s)\<rparr>)"

text \<open>\<open>logging::init\<close>: the first call sets the boot clock, and \<open>/dev/kmsg\<close> is opened.\<close>

definition logging_init :: "os \<Rightarrow> 'a kernel_scheme \<Rightarrow> 'a kernel_scheme" where
  "logging_init os s =
     (let (t, s) = now os s;
          (e, s) = fs os (Open_write ''/dev/kmsg'') s
      in s\<lparr>log_st := log_open t (e = None) (log_st s)\<rparr>)"

definition spawn :: "os \<Rightarrow> command \<Rightarrow> 'a kernel_scheme \<Rightarrow> (io_error + pid) \<times> 'a kernel_scheme" where
  "spawn os cmd s = (let r = os_spawn os (ev s) cmd in (r, emit (Spawn cmd r) s))"

definition kill :: "pid \<Rightarrow> signal \<Rightarrow> 'a kernel_scheme \<Rightarrow> 'a kernel_scheme" where
  "kill p sig s = emit (Kill p sig) s"

text \<open>\<open>waitpid(p, WNOHANG)\<close> or, when \<open>nohang\<close> is false, the blocking call.\<close>

definition waitpid :: "os \<Rightarrow> pid \<Rightarrow> bool \<Rightarrow> 'a kernel_scheme \<Rightarrow> wait_result \<times> 'a kernel_scheme" where
  "waitpid os p nohang s =
     (let r = os_wait os (ev s) p nohang
      in (r, emit (Wait p nohang r) (s\<lparr>clock := clock s + os_tick os (ev s)\<rparr>)))"

definition sethostname :: "os \<Rightarrow> string \<Rightarrow> 'a kernel_scheme \<Rightarrow> io_error option \<times> 'a kernel_scheme" where
  "sethostname os h s = (os_hostname os (ev s) h, emit (Set_hostname h) s)"

definition process_setup :: "os \<Rightarrow> setup_call \<Rightarrow> 'a kernel_scheme \<Rightarrow> errno option \<times> 'a kernel_scheme" where
  "process_setup os c s = (os_setup os (ev s) c, emit (Setup c) s)"

lemmas kernel_ops = now_def sleep_def log_at_def emit_def fs_def read_to_string_def read_dir_def
  spawn_def kill_def waitpid_def sethostname_def

text \<open>What \<open>Command::spawn\<close> documents about \<open>pre_exec\<close>: it reports success only when the closure
  returned \<open>Ok\<close> in the child.\<close>

definition run_pre_exec :: "pre_exec \<Rightarrow> child" where
  "run_pre_exec p =
     (case p of Pre_service sb gid uid \<Rightarrow> service_pre_exec sb gid uid | Pre_app sb \<Rightarrow> sandbox_apply sb)"

definition spawn_honours_pre_exec :: "os \<Rightarrow> bool" where
  "spawn_honours_pre_exec os \<longleftrightarrow>
     (\<forall>n cmd p pid. os_spawn os n cmd = Inr pid \<and> cmd_pre_exec cmd = Some p \<longrightarrow>
        fst (run_pre_exec p (os_child os n) []) = None)"

subsection \<open>Frame rules\<close>

lemma now_frame [frame]:
  "fst (now os s) = clock s + os_tick os (ev s)"
  "clock (snd (now os s)) = fst (now os s)"
  "trace (snd (now os s)) = trace s" "log_st (snd (now os s)) = log_st s"
  by (simp_all add: now_def Let_def)

lemma sleep_frame [frame]:
  "trace (sleep os d s) = trace s" "log_st (sleep os d s) = log_st s"
  "clock (sleep os d s) = clock s + d + os_tick os (ev s)"
  by (simp_all add: sleep_def)

lemma log_at_frame [frame]:
  "trace (log_at os l m s) = trace s" "clock (log_at os l m s) = clock s" "ev (log_at os l m s) = ev s"
  "uptime (log_at os l m s) = uptime s"
  by (simp_all add: log_at_def uptime_def split: option.split)

lemma log_at_error:
  "last (journal (log_st (log_at os Error msg s))) = log_line ''FAIL'' (os_uptime os (uptime s)) msg"
  by (simp add: log_at_def write_line_error)

lemma emit_frame [frame]:
  "trace (emit e s) = trace s @ [e]" "clock (emit e s) = clock s" "log_st (emit e s) = log_st s"
  by (simp_all add: emit_def)

lemma clock_now_ge: "clock s \<le> clock (snd (now os s))"
  by (simp add: now_def Let_def)

subsection \<open>Documented behaviour that theorems may assume\<close>

text \<open>No spawn fails.\<close>

definition spawns_succeed :: "os \<Rightarrow> bool" where
  "spawns_succeed os \<longleftrightarrow> (\<forall>n c e. os_spawn os n c \<noteq> Inl e)"

text \<open>From interaction \<open>n0\<close> on, the system gives no new child the pid of one of the processes in \<open>K\<close>.\<close>

definition fresh_from :: "os \<Rightarrow> nat \<Rightarrow> pid set \<Rightarrow> bool" where
  "fresh_from os n0 K \<longleftrightarrow> (\<forall>n c p. n0 \<le> n \<and> os_spawn os n c = Inr p \<longrightarrow> p \<notin> K)"

lemma fresh_from_mono: "fresh_from os n K \<Longrightarrow> n \<le> m \<Longrightarrow> fresh_from os m K"
  by (auto simp: fresh_from_def intro: order_trans)

text \<open>No pid is handed out twice.\<close>

definition pids_unique :: "os \<Rightarrow> bool" where
  "pids_unique os \<longleftrightarrow>
     (\<forall>n c p m c' q. n < m \<and> os_spawn os n c = Inr p \<and> os_spawn os m c' = Inr q \<longrightarrow> p \<noteq> q)"

text \<open>A directory lists each entry once, by a name without slashes.\<close>

definition dir_entries_ok :: "os \<Rightarrow> bool" where
  "dir_entries_ok os \<longleftrightarrow>
     (\<forall>n path names. os_read_dir os n path = Some names \<longrightarrow>
        distinct names \<and> (\<forall>x \<in> set names. x \<noteq> [] \<and> CHR ''/'' \<notin> set x))"

text \<open>Two interactions with the system never happen at the same instant.\<close>

definition clock_advances :: "os \<Rightarrow> bool" where
  "clock_advances os \<longleftrightarrow> (\<forall>n. 0 < os_tick os n)"

lemma pids_unique_fresh:
  "pids_unique os \<Longrightarrow> os_spawn os n c = Inr p \<Longrightarrow> n < m \<Longrightarrow> fresh_from os m {p}"
  unfolding fresh_from_def pids_unique_def by (metis less_le_trans singletonD)

lemma fresh_from_Un: "fresh_from os n (A \<union> B) \<longleftrightarrow> fresh_from os n A \<and> fresh_from os n B"
  by (auto simp: fresh_from_def)

lemma fresh_from_subset: "fresh_from os n A \<Longrightarrow> B \<subseteq> A \<Longrightarrow> fresh_from os n B"
  by (auto simp: fresh_from_def)

end
