(* ===== verification/Cgroups.thy ===== *)
theory Cgroups
  imports Kernel
begin

text \<open>
  \<open>src/cgroups.rs\<close>: the cgroup directory of a service or an app, as file operations on
  cgroupfs, and \<open>parse_size\<close>. Sizes are \<open>u64\<close>; the multiplication of \<open>parse_size\<close> wraps
  around, as it does in the release profile (a debug build would panic there).
\<close>

definition CGROUP_ROOT :: string where
  "CGROUP_ROOT = ''/sys/fs/cgroup/mitos-init''"

definition cgroups_available :: "os \<Rightarrow> 'a kernel_scheme \<Rightarrow> bool \<times> 'a kernel_scheme" where
  "cgroups_available os s = (let (e, s) = fs os (Metadata CGROUP_ROOT) s in (e = None, s))"

definition dir_under :: "string \<Rightarrow> string \<Rightarrow> string" where
  "dir_under root name = path_join root name"

definition prepare_intermediate :: "os \<Rightarrow> string \<Rightarrow> 'a kernel_scheme \<Rightarrow> bool \<times> 'a kernel_scheme" where
  "prepare_intermediate os path s =
     (let (e, s) = fs os (Create_dir_all path) s
      in if e \<noteq> None then (False, s)
         else (True, snd (fs os (Write_file (path @ ''/cgroup.subtree_control'') ''+memory'') s)))"

definition create_under ::
  "os \<Rightarrow> string \<Rightarrow> string \<Rightarrow> u64 option \<Rightarrow> 'a kernel_scheme \<Rightarrow> bool \<times> 'a kernel_scheme" where
  "create_under os root name memory_limit s =
     (let dir = dir_under root name;
          (e, s) = fs os (Create_dir_all dir) s
      in case e of
           Some err \<Rightarrow>
             (False, log_at os Debug
                (''cgroup for '' @ quote name @ '': couldn'' @ [squote] @ ''t create '' @ dir @ '': '' @ err) s)
         | None \<Rightarrow>
             (case memory_limit of
                None \<Rightarrow> (True, s)
              | Some limit \<Rightarrow>
                  (let (e, s) = fs os (Write_file (path_join dir ''memory.max'') (show_nat (unat limit))) s
                   in (True,
                       if e \<noteq> None
                       then log_at os Debug
                              (''cgroup for '' @ quote name @ '': couldn'' @ [squote] @ ''t set memory.max'') s
                       else s))))"

definition attach_under :: "os \<Rightarrow> string \<Rightarrow> string \<Rightarrow> pid \<Rightarrow> 'a kernel_scheme \<Rightarrow> 'a kernel_scheme" where
  "attach_under os root name p s =
     (let path = path_join (dir_under root name) ''cgroup.procs'';
          (e, s) = fs os (Write_file path (show_int p)) s
      in case e of
           None \<Rightarrow> s
         | Some err \<Rightarrow>
             log_at os Debug
               (''couldn'' @ [squote] @ ''t attach pid '' @ show_int p @ '' to cgroup '' @ quote name
                  @ '': '' @ err) s)"

definition kill_and_remove_under :: "os \<Rightarrow> string \<Rightarrow> string \<Rightarrow> 'a kernel_scheme \<Rightarrow> 'a kernel_scheme" where
  "kill_and_remove_under os root name s =
     (let dir = dir_under root name;
          (e, s) = fs os (Write_file (path_join dir ''cgroup.kill'') ''1'') s
      in if e \<noteq> None then s
         else snd (fs os (Remove_dir dir) s))"

definition create_for :: "os \<Rightarrow> string \<Rightarrow> u64 option \<Rightarrow> 'a kernel_scheme \<Rightarrow> bool \<times> 'a kernel_scheme" where
  "create_for os name memory_limit s = create_under os CGROUP_ROOT name memory_limit s"

definition attach :: "os \<Rightarrow> string \<Rightarrow> pid \<Rightarrow> 'a kernel_scheme \<Rightarrow> 'a kernel_scheme" where
  "attach os name p s = attach_under os CGROUP_ROOT name p s"

definition kill_and_remove :: "os \<Rightarrow> string \<Rightarrow> 'a kernel_scheme \<Rightarrow> 'a kernel_scheme" where
  "kill_and_remove os name s = kill_and_remove_under os CGROUP_ROOT name s"

definition parse_size :: "string \<Rightarrow> u64 option" where
  "parse_size s =
     (let s = trim s;
          strip = (\<lambda>a b. case strip_suffix a s of Some n \<Rightarrow> Some n | None \<Rightarrow> strip_suffix b s);
          (num, mult) =
            (case strip ''Ki'' ''K'' of
               Some n \<Rightarrow> (n, 1024 :: u64)
             | None \<Rightarrow>
                 (case strip ''Mi'' ''M'' of
                    Some n \<Rightarrow> (n, 1024 * 1024)
                  | None \<Rightarrow>
                      (case strip ''Gi'' ''G'' of
                         Some n \<Rightarrow> (n, 1024 * 1024 * 1024)
                       | None \<Rightarrow> (s, 1))))
      in map_option (\<lambda>n. n * mult) (parse_u64 (trim num)))"


subsection \<open>Sizes\<close>

lemma strip_suffix_append [simp]: "strip_suffix p (s @ p) = Some s"
  by (simp add: strip_suffix_def strip_prefix_def starts_with_def)

lemma strip_suffix_Some: "strip_suffix p s = Some t \<longleftrightarrow> s = t @ p"
proof
  assume "strip_suffix p s = Some t"
  then obtain u where u: "strip_prefix (rev p) (rev s) = Some u" and t: "t = rev u"
    by (auto simp: strip_suffix_def)
  then have pre: "take (length p) (rev s) = rev p" and u': "u = drop (length p) (rev s)"
    by (simp_all add: strip_prefix_def starts_with_def split: if_splits)
  have "rev s = rev p @ u"
    using append_take_drop_id [of "length p" "rev s"] unfolding pre u' by simp
  then have "rev s = rev (t @ p)" by (simp only: t rev_append rev_rev_ident)
  then show "s = t @ p" by (simp only: rev_is_rev_conv)
qed simp

lemma strip_suffix_None: "p \<noteq> [] \<Longrightarrow> s = [] \<or> last s \<noteq> last p \<Longrightarrow> strip_suffix p s = None"
  by (cases "strip_suffix p s") (simp_all add: strip_suffix_Some)

lemma digits_no_ws: "(\<forall>c \<in> set s. 48 \<le> code c \<and> code c \<le> 57) \<Longrightarrow> trim s = s"
  by (rule trim_no_ws) (auto simp: is_ws_code)

lemma show_nat_trim [simp]: "trim (show_nat n) = show_nat n"
  by (rule digits_no_ws) (simp add: show_nat_digits)

lemma last_show_nat: "48 \<le> code (last (show_nat n)) \<and> code (last (show_nat n)) \<le> 57"
  using show_nat_digits [of "last (show_nat n)" n] by simp

lemma hd_show_nat: "48 \<le> code (hd (show_nat n)) \<and> code (hd (show_nat n)) \<le> 57"
  using show_nat_digits [of "hd (show_nat n)" n] by simp

text \<open>Units the parser knows, with their factors; the printed form of a size.\<close>

datatype size_unit = UBytes | UK | UKi | UM | UMi | UG | UGi

fun unit_text :: "size_unit \<Rightarrow> string" where
  "unit_text UBytes = ''''"
| "unit_text UK = ''K''" | "unit_text UKi = ''Ki''"
| "unit_text UM = ''M''" | "unit_text UMi = ''Mi''"
| "unit_text UG = ''G''" | "unit_text UGi = ''Gi''"

fun unit_factor :: "size_unit \<Rightarrow> nat" where
  "unit_factor UBytes = 1"
| "unit_factor UK = 2 ^ 10" | "unit_factor UKi = 2 ^ 10"
| "unit_factor UM = 2 ^ 20" | "unit_factor UMi = 2 ^ 20"
| "unit_factor UG = 2 ^ 30" | "unit_factor UGi = 2 ^ 30"

definition show_size :: "u64 \<Rightarrow> size_unit \<Rightarrow> string" where
  "show_size w u = show_nat (unat w) @ unit_text u"

lemma trim_show_size [simp]: "trim (show_size w u) = show_size w u"
proof (rule trim_id)
  have "hd (show_size w u) = hd (show_nat (unat w))" by (simp add: show_size_def)
  then have 1: "\<not> is_ws (hd (show_size w u))"
    using hd_show_nat [of "unat w"] by (auto simp: is_ws_code)
  have 2: "\<not> is_ws (last (show_size w u))"
    using last_show_nat [of "unat w"] by (cases u) (auto simp: show_size_def is_ws_code code_def)
  from 1 2 show "show_size w u = [] \<or> \<not> is_ws (hd (show_size w u)) \<and> \<not> is_ws (last (show_size w u))"
    by simp
qed

lemma parse_size_wraps: "parse_size (show_size w u) = Some (w * of_nat (unit_factor u))"
proof -
  let ?n = "show_nat (unat w)"
  have l: "last ?n \<noteq> CHR ''i''" "last ?n \<noteq> CHR ''K''" "last ?n \<noteq> CHR ''M''" "last ?n \<noteq> CHR ''G''"
    using last_show_nat [of "unat w"] by (auto simp: code_def)
  have cat: "strip_suffix p (?n @ q) = None" if "p \<noteq> []" "q \<noteq> []" "last p \<noteq> last q" for p q
    using that by (intro strip_suffix_None) auto
  have cat2: "strip_suffix [a, CHR ''i''] (?n @ [b, CHR ''i'']) = None" if "a \<noteq> b" for a b
    using that
    by (cases "strip_suffix [a, CHR ''i''] (?n @ [b, CHR ''i''])")
      (auto simp: strip_suffix_Some append_eq_append_conv2 append_eq_Cons_conv Cons_eq_append_conv)
  have bare: "strip_suffix p ?n = None" if "p \<noteq> []" "last p \<in> {CHR ''i'', CHR ''K'', CHR ''M'', CHR ''G''}" for p
    using that l by (intro strip_suffix_None) auto
  show ?thesis
    unfolding parse_size_def Let_def trim_show_size
    by (cases u) (simp_all add: show_size_def cat cat2 bare rtxt)
qed

lemma parse_size_exact:
  "unat w * unit_factor u < 2 ^ 64 \<Longrightarrow>
   map_option unat (parse_size (show_size w u)) = Some (unat w * unit_factor u)"
proof -
  assume a: "unat w * unit_factor u < 2 ^ 64"
  have f: "unat (of_nat (unit_factor u) :: u64) = unit_factor u" by (cases u) simp_all
  have "unat (w * of_nat (unit_factor u)) = unat w * unit_factor u mod 2 ^ 64"
    using f by (simp add: unat_word_ariths)
  with a show ?thesis by (simp add: parse_size_wraps)
qed

end
