(* ===== verification/Config.thy ===== *)
theory Config
  imports Cgroups
begin

text \<open>
  \<open>src/config.rs\<close> (service definitions, the \<open>init.conf\<close> parser, merging) and
  \<open>src/targets.rs\<close>. The warnings the parser prints to standard error are returned as a list,
  in order.
\<close>

subsection \<open>Data\<close>

datatype restart_policy = Always | OnFailure | Never

record service_def =
  sd_name :: string
  sd_path :: string
  sd_args :: "string list"
  sd_critical :: bool
  sd_restart :: restart_policy
  sd_memory_limit :: "u64 option"
  sd_after :: "string list"
  sd_after_ready :: "string list"
  sd_before :: "string list"
  sd_requires :: "string list"
  sd_wants :: "string list"
  sd_user :: "string option"
  sd_group :: "string option"
  sd_watchdog_timeout :: "duration option"
  sd_environment :: "(string \<times> string) list"
  sd_working_dir :: "string option"
  sd_target :: string
  sd_private_tmp :: bool
  sd_protect_system :: bool
  sd_no_new_privileges :: bool
  sd_oom_score_adjust :: "i32 option"

definition service_def_default :: service_def where
  "service_def_default =
     \<lparr>sd_name = [], sd_path = [], sd_args = [], sd_critical = False, sd_restart = Never,
      sd_memory_limit = None, sd_after = [], sd_after_ready = [], sd_before = [],
      sd_requires = [], sd_wants = [], sd_user = None, sd_group = None,
      sd_watchdog_timeout = None, sd_environment = [], sd_working_dir = None, sd_target = [],
      sd_private_tmp = False, sd_protect_system = False, sd_no_new_privileges = False,
      sd_oom_score_adjust = None\<rparr>"

record config =
  cfg_hostname :: "string option"
  cfg_loglevel :: level
  cfg_shutdown_timeout_secs :: u64
  cfg_default_target :: string
  cfg_services :: "service_def list"

definition DEFAULT_TARGET :: string where
  "DEFAULT_TARGET = ''multi-user''"

definition config_default :: config where
  "config_default =
     \<lparr>cfg_hostname = Some ''mitos'', cfg_loglevel = Info, cfg_shutdown_timeout_secs = 5,
      cfg_default_target = DEFAULT_TARGET,
      cfg_services =
        [service_def_default
           \<lparr>sd_name := ''shell'', sd_path := ''/bin/mitos-shell'', sd_critical := True,
            sd_target := DEFAULT_TARGET\<rparr>]\<rparr>"

subsection \<open>Targets\<close>

definition services_in :: "service_def list \<Rightarrow> string \<Rightarrow> service_def list" where
  "services_in all t = filter (\<lambda>d. sd_target d = t) all"

text \<open>\<open>targets::list\<close>: collect the names not seen yet, then sort.\<close>

definition collect_target :: "service_def \<Rightarrow> string list \<Rightarrow> string list" where
  "collect_target d names = (if sd_target d \<in> set names then names else names @ [sd_target d])"

definition targets_list :: "service_def list \<Rightarrow> string list" where
  "targets_list all = sort (fold collect_target all [])"

subsection \<open>Service lines\<close>

text \<open>
  The local variables of \<open>parse_service\<close> and of \<open>units::parse_unit\<close>: the same set, with
  the same names, in both.
\<close>

record fields =
  f_path :: "string option"
  f_args :: "string list"
  f_critical :: bool
  f_restart :: restart_policy
  f_memory_limit :: "u64 option"
  f_after :: "string list"
  f_after_ready :: "string list"
  f_before :: "string list"
  f_requires :: "string list"
  f_wants :: "string list"
  f_user :: "string option"
  f_group :: "string option"
  f_watchdog_timeout :: "duration option"
  f_environment :: "(string \<times> string) list"
  f_working_dir :: "string option"
  f_target :: "string option"
  f_private_tmp :: bool
  f_protect_system :: bool
  f_no_new_privileges :: bool
  f_oom_score_adjust :: "i32 option"

definition fields_init :: "restart_policy \<Rightarrow> fields" where
  "fields_init r =
     \<lparr>f_path = None, f_args = [], f_critical = False, f_restart = r, f_memory_limit = None,
      f_after = [], f_after_ready = [], f_before = [], f_requires = [], f_wants = [],
      f_user = None, f_group = None, f_watchdog_timeout = None, f_environment = [],
      f_working_dir = None, f_target = None, f_private_tmp = False, f_protect_system = False,
      f_no_new_privileges = False, f_oom_score_adjust = None\<rparr>"

definition service_of_fields :: "string \<Rightarrow> string \<Rightarrow> string list \<Rightarrow> fields \<Rightarrow> service_def" where
  "service_of_fields who path args f =
     \<lparr>sd_name = who, sd_path = path, sd_args = args, sd_critical = f_critical f,
      sd_restart = f_restart f, sd_memory_limit = f_memory_limit f, sd_after = f_after f,
      sd_after_ready = f_after_ready f, sd_before = f_before f, sd_requires = f_requires f,
      sd_wants = f_wants f, sd_user = f_user f, sd_group = f_group f,
      sd_watchdog_timeout = f_watchdog_timeout f, sd_environment = f_environment f,
      sd_working_dir = f_working_dir f,
      sd_target = (case f_target f of None \<Rightarrow> DEFAULT_TARGET | Some t \<Rightarrow> t),
      sd_private_tmp = f_private_tmp f, sd_protect_system = f_protect_system f,
      sd_no_new_privileges = f_no_new_privileges f,
      sd_oom_score_adjust = f_oom_score_adjust f\<rparr>"

definition parse_name_list :: "string \<Rightarrow> string list" where
  "parse_name_list value = filter (\<lambda>s. s \<noteq> []) (split_on CHR '','' value)"

definition parse_env_list :: "string \<Rightarrow> (string \<times> string) list" where
  "parse_env_list value =
     List.map_filter (split_once CHR ''='')
       (filter (\<lambda>s. s \<noteq> []) (split_on CHR '','' value))"

definition parse_secs :: "string \<Rightarrow> duration option" where
  "parse_secs value = map_option from_secs (parse_u64 value)"

definition service_key :: "string \<Rightarrow> string \<Rightarrow> fields \<Rightarrow> fields" where
  "service_key key value f =
     (if key = ''path'' then f\<lparr>f_path := Some value\<rparr>
      else if key = ''args'' then f\<lparr>f_args := parse_name_list value\<rparr>
      else if key = ''critical'' then f\<lparr>f_critical := eq_ignore_ascii_case value ''true''\<rparr>
      else if key = ''restart'' then
        f\<lparr>f_restart := (if value = ''always'' then Always
                         else if value = ''never'' then Never else OnFailure)\<rparr>
      else if key = ''mem_max'' then f\<lparr>f_memory_limit := parse_size value\<rparr>
      else if key = ''after'' then f\<lparr>f_after := parse_name_list value\<rparr>
      else if key = ''after_ready'' then f\<lparr>f_after_ready := parse_name_list value\<rparr>
      else if key = ''before'' then f\<lparr>f_before := parse_name_list value\<rparr>
      else if key = ''requires'' then f\<lparr>f_requires := parse_name_list value\<rparr>
      else if key = ''wants'' then f\<lparr>f_wants := parse_name_list value\<rparr>
      else if key = ''user'' then f\<lparr>f_user := Some value\<rparr>
      else if key = ''group'' then f\<lparr>f_group := Some value\<rparr>
      else if key = ''watchdog_sec'' then f\<lparr>f_watchdog_timeout := parse_secs value\<rparr>
      else if key = ''environment'' then f\<lparr>f_environment := parse_env_list value\<rparr>
      else if key = ''workdir'' then f\<lparr>f_working_dir := Some value\<rparr>
      else if key = ''target'' then f\<lparr>f_target := Some value\<rparr>
      else if key = ''private_tmp'' then f\<lparr>f_private_tmp := eq_ignore_ascii_case value ''true''\<rparr>
      else if key = ''protect_system'' then f\<lparr>f_protect_system := eq_ignore_ascii_case value ''true''\<rparr>
      else if key = ''no_new_privileges'' then
        f\<lparr>f_no_new_privileges := eq_ignore_ascii_case value ''true''\<rparr>
      else if key = ''oom_score_adjust'' then f\<lparr>f_oom_score_adjust := parse_i32 value\<rparr>
      else f)"

fun parse_service_fields :: "string list \<Rightarrow> fields \<Rightarrow> string + fields" where
  "parse_service_fields [] f = Inr f"
| "parse_service_fields (field # rest) f =
     (case split_once CHR ''='' field of
        None \<Rightarrow> Inl (''bad field '' @ quote field)
      | Some (key, value) \<Rightarrow>
          parse_service_fields rest (service_key key (trim_matches dquote value) f))"

definition parse_service :: "string \<Rightarrow> string + service_def" where
  "parse_service rest =
     (case split_whitespace rest of
        [] \<Rightarrow> Inl ''missing service name''
      | who # parts \<Rightarrow>
          (case parse_service_fields parts (fields_init OnFailure) of
             Inl e \<Rightarrow> Inl e
           | Inr f \<Rightarrow>
               (case f_path f of
                  None \<Rightarrow> Inl ''missing path=''
                | Some path \<Rightarrow> Inr (service_of_fields who path (f_args f) f))))"

subsection \<open>The configuration file\<close>

definition warning :: "string \<Rightarrow> string" where
  "warning msg = ''mitos-init [WARN]: '' @ msg"

definition config_key :: "string \<Rightarrow> string \<Rightarrow> config \<times> string list \<Rightarrow> config \<times> string list" where
  "config_key key value cw =
     (case cw of (cfg, warns) \<Rightarrow>
        if key = ''hostname'' then (cfg\<lparr>cfg_hostname := Some value\<rparr>, warns)
        else if key = ''loglevel'' then
          (case level_parse value of
             None \<Rightarrow> (cfg, warns) | Some lvl \<Rightarrow> (cfg\<lparr>cfg_loglevel := lvl\<rparr>, warns))
        else if key = ''shutdown_timeout'' then
          (case parse_u64 value of
             None \<Rightarrow> (cfg, warns) | Some secs \<Rightarrow> (cfg\<lparr>cfg_shutdown_timeout_secs := secs\<rparr>, warns))
        else if key = ''default_target'' then (cfg\<lparr>cfg_default_target := value\<rparr>, warns)
        else (cfg, warns @ [warning (''unknown config key '' @ quote key)]))"

definition config_line :: "string \<Rightarrow> config \<times> string list \<Rightarrow> config \<times> string list" where
  "config_line raw_line cw =
     (let line = trim raw_line
      in if line = [] \<or> starts_with ''#'' line then cw
         else
           case strip_prefix ''service '' line of
             Some rest \<Rightarrow>
               (case cw of (cfg, warns) \<Rightarrow>
                  case parse_service rest of
                    Inr svc \<Rightarrow> (cfg\<lparr>cfg_services := cfg_services cfg @ [svc]\<rparr>, warns)
                  | Inl e \<Rightarrow>
                      (cfg, warns @ [warning (''skipping bad service line ('' @ e @ ''): '' @ line)]))
           | None \<Rightarrow>
               (case split_once CHR ''='' line of
                  None \<Rightarrow> cw
                | Some (key, value) \<Rightarrow>
                    config_key (trim key) (trim_matches dquote (trim value)) cw))"

definition config_parse :: "string \<Rightarrow> config \<times> string list" where
  "config_parse text =
     (let (cfg, warns) = fold config_line (lines text) (config_default\<lparr>cfg_services := []\<rparr>, [])
      in if cfg_services cfg = []
         then (cfg\<lparr>cfg_services := cfg_services config_default\<rparr>, warns)
         else (cfg, warns))"

definition load_or_default :: "os \<Rightarrow> string \<Rightarrow> 'a kernel_scheme \<Rightarrow> config \<times> 'a kernel_scheme" where
  "load_or_default os path s =
     (let (r, s) = read_to_string os path s
      in case r of
           Inr text \<Rightarrow> (fst (config_parse text), s)
         | Inl e \<Rightarrow> (config_default, s))"

text \<open>\<open>merge_services\<close>, with the warnings about the duplicates it drops.\<close>

fun merge_services :: "service_def list \<Rightarrow> service_def list \<Rightarrow> service_def list \<times> string list" where
  "merge_services base [] = (base, [])"
| "merge_services base (svc # extra) =
     (if \<exists>s \<in> set base. sd_name s = sd_name svc
      then (let (r, warns) = merge_services base extra
            in (r, warning (''duplicate service name '' @ quote (sd_name svc)
                              @ '', keeping the first one seen'') # warns))
      else merge_services (base @ [svc]) extra)"

end
