(* ===== verification/Ordering.thy ===== *)
theory Ordering
  imports Config
begin

text \<open>
  The start order of \<open>src/supervisor.rs\<close>: \<open>effective_after\<close> folds \<open>before=\<close>, \<open>requires=\<close>
  and \<open>wants=\<close> into \<open>after\<close>, \<open>topological_order\<close> sorts by it (Kahn's algorithm, with the
  listed order as the answer to a cycle).
\<close>

subsection \<open>\<open>effective_after\<close>\<close>

definition add_after :: "string \<Rightarrow> service_def \<Rightarrow> service_def" where
  "add_after dep d = (if dep \<in> set (sd_after d) then d else d\<lparr>sd_after := sd_after d @ [dep]\<rparr>)"

definition fold_deps :: "service_def \<Rightarrow> service_def" where
  "fold_deps d = fold add_after (sd_requires d @ sd_wants d) d"

definition before_pairs :: "service_def list \<Rightarrow> (string \<times> string) list" where
  "before_pairs defs = concat (map (\<lambda>d. map (\<lambda>target. (target, sd_name d)) (sd_before d)) defs)"

text \<open>\<open>iter_mut().find(..)\<close>: the first element with the name is changed.\<close>

fun update_named :: "string \<Rightarrow> (service_def \<Rightarrow> service_def) \<Rightarrow> service_def list \<Rightarrow> service_def list" where
  "update_named n f [] = []"
| "update_named n f (d # ds) = (if sd_name d = n then f d # ds else d # update_named n f ds)"

definition effective_after :: "service_def list \<Rightarrow> service_def list" where
  "effective_after defs =
     fold (\<lambda>(target, source). update_named target (add_after source))
       (before_pairs defs) (map fold_deps defs)"

subsection \<open>\<open>topological_order\<close>\<close>

definition deps_placed :: "string set \<Rightarrow> string set \<Rightarrow> service_def \<Rightarrow> bool" where
  "deps_placed names placed d = (\<forall>dep \<in> set (sd_after d). dep \<in> placed \<or> dep \<notin> names)"

text \<open>
  The \<open>while\<close> loop; the second result holds the names of the services the cycle warning lists
  (empty when there is none).
\<close>

function topo_loop ::
  "string set \<Rightarrow> service_def list \<Rightarrow> string set \<Rightarrow> service_def list \<Rightarrow> service_def list \<times> string list" where
  "topo_loop names remaining placed ordered =
     (if remaining = [] then (ordered, [])
      else
        case position (deps_placed names placed) remaining of
          Some i \<Rightarrow>
            (let d = remaining ! i
             in topo_loop names (remove_at i remaining) (insert (sd_name d) placed) (ordered @ [d]))
        | None \<Rightarrow> (ordered @ remaining, map sd_name remaining))"
  by pat_completeness auto
termination
  by (relation "measure (\<lambda>(names, remaining, placed, ordered). length remaining)")
    (auto simp: length_remove_at dest!: position_Some)

declare topo_loop.simps [simp del]

definition topological_order :: "service_def list \<Rightarrow> service_def list \<times> string list" where
  "topological_order defs = topo_loop (sd_name ` set defs) defs {} []"


subsection \<open>What the loop produces\<close>

text \<open>A list in which every element's configured dependencies are placed before it.\<close>

fun ordered_from :: "string set \<Rightarrow> string set \<Rightarrow> service_def list \<Rightarrow> bool" where
  "ordered_from names placed [] = True"
| "ordered_from names placed (d # ds) =
     (deps_placed names placed d \<and> ordered_from names (insert (sd_name d) placed) ds)"

lemma topo_loop_parts:
  "\<exists>pre rest. topo_loop names remaining placed ordered = (ordered @ pre @ rest, map sd_name rest) \<and>
     mset (pre @ rest) = mset remaining \<and> ordered_from names placed pre \<and>
     (\<forall>d \<in> set rest. \<not> deps_placed names (placed \<union> sd_name ` set pre) d)"
proof (induction names remaining placed ordered rule: topo_loop.induct)
  case (1 names remaining placed ordered)
  show ?case
  proof (cases "remaining = []")
    case True
    then show ?thesis by (intro exI [of _ "[]"]) (simp add: topo_loop.simps)
  next
    case nonempty: False
    show ?thesis
    proof (cases "position (deps_placed names placed) remaining")
      case None
      with nonempty show ?thesis
        by (intro exI [of _ "[]"] exI [of _ remaining])
          (auto simp: topo_loop.simps [of names remaining placed ordered] position_None [symmetric]
            simp flip: position_None)
    next
      case (Some i)
      let ?d = "remaining ! i"
      from position_Some [OF Some] have i: "i < length remaining" and d: "deps_placed names placed ?d"
        by simp_all
      from "1.IH" [OF nonempty Some refl] obtain pre rest where
        eq: "topo_loop names (remove_at i remaining) (insert (sd_name ?d) placed) (ordered @ [?d]) =
          ((ordered @ [?d]) @ pre @ rest, map sd_name rest)"
        and m: "mset (pre @ rest) = mset (remove_at i remaining)"
        and o: "ordered_from names (insert (sd_name ?d) placed) pre"
        and r: "\<forall>d \<in> set rest. \<not> deps_placed names (insert (sd_name ?d) placed \<union> sd_name ` set pre) d"
        by blast
      from m mset_remove_at [OF i] have "mset ((?d # pre) @ rest) = mset remaining" by simp
      moreover have "topo_loop names remaining placed ordered = (ordered @ (?d # pre) @ rest, map sd_name rest)"
        using nonempty Some eq by (simp add: topo_loop.simps [of names remaining] Let_def)
      ultimately show ?thesis
        using o d r by (intro exI [of _ "?d # pre"] exI [of _ rest]) simp
    qed
  qed
qed

lemma topological_order_parts:
  obtains pre rest where
    "topological_order defs = (pre @ rest, map sd_name rest)"
    "mset (pre @ rest) = mset defs"
    "ordered_from (sd_name ` set defs) {} pre"
    "\<forall>d \<in> set rest. \<not> deps_placed (sd_name ` set defs) (sd_name ` set pre) d"
  using topo_loop_parts [of "sd_name ` set defs" defs "{}" "[]"] that
  unfolding topological_order_def by auto

lemma ordered_from_split:
  "ordered_from names placed (as @ d # bs) \<Longrightarrow> deps_placed names (placed \<union> sd_name ` set as) d"
proof (induction as arbitrary: placed)
  case Nil
  then show ?case by simp
next
  case (Cons a as)
  from Cons.prems have "ordered_from names (insert (sd_name a) placed) (as @ d # bs)" by simp
  from Cons.IH [OF this] show ?case by simp
qed

text \<open>The dependency relation between configured names, and what a reported cycle means.\<close>

definition dep_rel :: "service_def list \<Rightarrow> (string \<times> string) set" where
  "dep_rel defs =
     {(dep, sd_name d) | dep d. d \<in> set defs \<and> dep \<in> set (sd_after d) \<and> dep \<in> sd_name ` set defs}"

lemma finite_dep_rel: "finite (dep_rel defs)"
proof (rule finite_subset)
  show "dep_rel defs \<subseteq> (\<Union>d \<in> set defs. set (sd_after d)) \<times> sd_name ` set defs"
    by (auto simp: dep_rel_def)
  show "finite ((\<Union>d \<in> set defs. set (sd_after d)) \<times> sd_name ` set defs)" by simp
qed

lemma acyclic_no_rest:
  assumes ac: "acyclic (dep_rel defs)"
  shows "snd (topological_order defs) = []"
proof -
  obtain pre rest where eq: "topological_order defs = (pre @ rest, map sd_name rest)"
    and m: "mset (pre @ rest) = mset defs"
    and stuck: "\<forall>d \<in> set rest. \<not> deps_placed (sd_name ` set defs) (sd_name ` set pre) d"
    by (rule topological_order_parts)
  have sets: "set defs = set pre \<union> set rest" using m by (metis mset_eq_setD set_append)
  have "rest = []"
  proof (rule ccontr)
    assume "rest \<noteq> []"
    then obtain z where z: "z \<in> sd_name ` set rest" by (cases rest) auto
    have "wf (dep_rel defs)" using finite_dep_rel ac by (rule finite_acyclic_wf)
    then obtain n where n: "n \<in> sd_name ` set rest"
      "\<And>y. (y, n) \<in> dep_rel defs \<Longrightarrow> y \<notin> sd_name ` set rest"
      using z by (meson wfE_min)
    then obtain d where d: "d \<in> set rest" "sd_name d = n" by auto
    with stuck obtain dep where dep: "dep \<in> set (sd_after d)" "dep \<in> sd_name ` set defs"
      "dep \<notin> sd_name ` set pre"
      by (auto simp: deps_placed_def)
    with sets have "dep \<in> sd_name ` set rest" by auto
    moreover have "(dep, n) \<in> dep_rel defs" using d dep sets by (auto simp: dep_rel_def)
    ultimately show False using n(2) by blast
  qed
  with eq show ?thesis by simp
qed

subsection \<open>What \<open>effective_after\<close> produces\<close>

lemma sd_name_add_after [simp]: "sd_name (add_after dep d) = sd_name d"
  by (simp add: add_after_def)

lemma set_add_after [simp]: "set (sd_after (add_after dep d)) = insert dep (set (sd_after d))"
  by (auto simp: add_after_def)

definition no_after :: "service_def \<Rightarrow> service_def" where
  "no_after d = d\<lparr>sd_after := []\<rparr>"

lemma no_after_add_after [simp]: "no_after (add_after dep d) = no_after d"
  by (simp add: add_after_def no_after_def)

lemma fold_add_after:
  "no_after (fold add_after deps d) = no_after d"
  "sd_name (fold add_after deps d) = sd_name d"
  "set (sd_after (fold add_after deps d)) = set (sd_after d) \<union> set deps"
  by (induction deps arbitrary: d) auto

lemma no_after_fold_deps [simp]: "no_after (fold_deps d) = no_after d"
  and sd_name_fold_deps [simp]: "sd_name (fold_deps d) = sd_name d"
  and set_fold_deps: "set (sd_after (fold_deps d)) =
    set (sd_after d) \<union> set (sd_requires d) \<union> set (sd_wants d)"
  by (auto simp: fold_deps_def fold_add_after)

lemma update_named_map:
  "(\<And>d. g (f d) = g d) \<Longrightarrow> map g (update_named n f ds) = map g ds"
  by (induction ds) auto

lemma length_update_named [simp]: "length (update_named n f ds) = length ds"
  by (induction ds) auto

lemma update_named_nth:
  "distinct (map sd_name ds) \<Longrightarrow> i < length ds \<Longrightarrow>
   update_named n f ds ! i = (if sd_name (ds ! i) = n then f (ds ! i) else ds ! i)"
proof (induction ds arbitrary: i)
  case Nil
  then show ?case by simp
next
  case (Cons d ds)
  show ?case
  proof (cases i)
    case 0
    then show ?thesis by simp
  next
    case (Suc k)
    with Cons have "sd_name d \<noteq> sd_name (ds ! k)" by (auto simp: image_iff)
    with Suc Cons show ?thesis by auto
  qed
qed

definition apply_before :: "(string \<times> string) list \<Rightarrow> service_def list \<Rightarrow> service_def list" where
  "apply_before ps ds = fold (\<lambda>(target, source). update_named target (add_after source)) ps ds"

lemma apply_before_map:
  "(\<And>dep d. g (add_after dep d) = g d) \<Longrightarrow> map g (apply_before ps ds) = map g ds"
  unfolding apply_before_def
  by (induction ps arbitrary: ds) (auto simp: update_named_map split: prod.splits)

lemma apply_before_nth:
  "distinct (map sd_name ds) \<Longrightarrow> i < length ds \<Longrightarrow>
   set (sd_after (apply_before ps ds ! i)) =
     set (sd_after (ds ! i)) \<union> {source. (sd_name (ds ! i), source) \<in> set ps}"
proof (induction ps arbitrary: ds)
  case Nil
  then show ?case by (simp add: apply_before_def)
next
  case (Cons p ps)
  obtain t src where p: "p = (t, src)" by (cases p)
  let ?ds = "update_named t (add_after src) ds"
  have eq: "apply_before (p # ps) ds = apply_before ps ?ds" by (simp add: apply_before_def p)
  have "map sd_name ?ds = map sd_name ds" by (rule update_named_map) simp
  then have "distinct (map sd_name ?ds)" "i < length ?ds" using Cons.prems by simp_all
  from Cons.IH [OF this] show ?case
    unfolding eq using Cons.prems by (auto simp: update_named_nth p)
qed

lemma effective_after_apply: "effective_after defs = apply_before (before_pairs defs) (map fold_deps defs)"
  by (simp add: effective_after_def apply_before_def)

lemma effective_after_names: "map sd_name (effective_after defs) = map sd_name defs"
  using apply_before_map [of sd_name] by (simp add: effective_after_apply comp_def)

lemma effective_after_no_after: "map no_after (effective_after defs) = map no_after defs"
  using apply_before_map [of no_after] by (simp add: effective_after_apply comp_def)

lemma length_effective_after [simp]: "length (effective_after defs) = length defs"
  using arg_cong [OF effective_after_names, of length] by simp

lemma set_before_pairs:
  "(t, s) \<in> set (before_pairs defs) \<longleftrightarrow> (\<exists>e \<in> set defs. sd_name e = s \<and> t \<in> set (sd_before e))"
  by (auto simp: before_pairs_def)

text \<open>The dependencies a definition is ordered after, from all five keys.\<close>

definition ordering_deps :: "service_def list \<Rightarrow> service_def \<Rightarrow> string set" where
  "ordering_deps defs d =
     set (sd_after d) \<union> set (sd_requires d) \<union> set (sd_wants d) \<union>
     {sd_name e | e. e \<in> set defs \<and> sd_name d \<in> set (sd_before e)}"

lemma effective_after_deps:
  assumes "distinct (map sd_name defs)" and "i < length defs"
  shows "set (sd_after (effective_after defs ! i)) = ordering_deps defs (defs ! i)"
proof -
  have "distinct (map sd_name (map fold_deps defs))" using assms(1) by (simp add: comp_def)
  from apply_before_nth [OF this, of i "before_pairs defs"] assms(2) show ?thesis
    by (auto simp: effective_after_apply set_fold_deps set_before_pairs ordering_deps_def)
qed

text \<open>Both together: the boot order, when no cycle is reported.\<close>

lemma boot_order:
  assumes dist: "distinct (map sd_name defs)"
    and none: "snd (topological_order (effective_after defs)) = []"
    and d: "d \<in> set defs" and dep: "dep \<in> ordering_deps defs d" "dep \<in> sd_name ` set defs"
  shows "\<exists>as bs. map sd_name (fst (topological_order (effective_after defs))) = as @ sd_name d # bs \<and>
    dep \<in> set as"
proof -
  let ?ea = "effective_after defs"
  obtain pre rest where eq: "topological_order ?ea = (pre @ rest, map sd_name rest)"
    and m: "mset (pre @ rest) = mset ?ea" and ord: "ordered_from (sd_name ` set ?ea) {} pre"
    by (rule topological_order_parts)
  from eq none have rest: "rest = []" by simp
  obtain i where i: "i < length defs" "d = defs ! i" using d by (auto simp: in_set_conv_nth)
  let ?d = "?ea ! i"
  have "?d \<in> set ?ea" using i by simp
  then have "?d \<in> set pre" using m rest by (metis append_Nil2 set_mset_mset)
  then obtain as bs where ab: "pre = as @ ?d # bs" by (meson split_list)
  have nm: "sd_name ?d = sd_name d"
    using arg_cong [OF effective_after_names [of defs], of "\<lambda>xs. xs ! i"] i by simp
  have names: "sd_name ` set ?ea = sd_name ` set defs"
    using arg_cong [OF effective_after_names [of defs], of set] by simp
  from ordered_from_split [OF ord [unfolded ab]] have "deps_placed (sd_name ` set defs) (sd_name ` set as) ?d"
    by (simp add: names)
  then have "dep \<in> sd_name ` set as"
    using dep effective_after_deps [OF dist i(1)] i(2) by (auto simp: deps_placed_def)
  then show ?thesis using eq rest ab nm by auto
qed

end
