(* ===== verification/Notify.thy ===== *)
theory Notify
  imports Kernel
begin

text \<open>
  \<open>src/notify.rs\<close>: readiness and watchdog state, the handling of one datagram, and the set-up
  of a service's notify socket. The state is keyed by service name; the interface
  \<open>per_name_state\<close> is what the supervisor relies on: an operation on one name never shows
  through another, and \<open>forget\<close> returns a name to the state of a service never heard of.
\<close>

record ready_state =
  ready :: "string set"
  watchdog_pings :: "string \<rightharpoonup> instant"

definition ready_state_default :: ready_state where
  "ready_state_default = \<lparr>ready = {}, watchdog_pings = Map.empty\<rparr>"

definition is_ready :: "string \<Rightarrow> ready_state \<Rightarrow> bool" where
  "is_ready who rs = (who \<in> ready rs)"

definition last_ping :: "string \<Rightarrow> ready_state \<Rightarrow> instant option" where
  "last_ping who rs = watchdog_pings rs who"

definition mark_ready :: "string \<Rightarrow> ready_state \<Rightarrow> ready_state" where
  "mark_ready who rs = rs\<lparr>ready := insert who (ready rs)\<rparr>"

definition mark_ping :: "string \<Rightarrow> instant \<Rightarrow> ready_state \<Rightarrow> ready_state" where
  "mark_ping who t rs = rs\<lparr>watchdog_pings := (watchdog_pings rs)(who \<mapsto> t)\<rparr>"

definition forget :: "string \<Rightarrow> ready_state \<Rightarrow> ready_state" where
  "forget who rs =
     rs\<lparr>ready := ready rs - {who}, watchdog_pings := (watchdog_pings rs)(who := None)\<rparr>"

subsection \<open>The listener thread\<close>

text \<open>
  One call of \<open>recv\<close> into the buffer of 4096 bytes: the text that reaches the line loop, if any. A
  longer datagram is truncated, and one that is not UTF-8 is skipped. After an error the thread
  returns, so the same socket yields nothing more.
\<close>

definition NOTIFY_BUFFER :: nat where
  "NOTIFY_BUFFER = 4096"

definition recv_text :: "recv_result \<Rightarrow> string option" where
  "recv_text r =
     (case r of
        Received bytes \<Rightarrow>
          (let buf = take NOTIFY_BUFFER bytes in if utf8_valid buf then Some buf else None)
      | Interrupted \<Rightarrow> None
      | Recv_failed \<Rightarrow> None)"

text \<open>What the lines of one datagram for \<open>who\<close>, received at time \<open>t\<close>, do to the shared state.\<close>

definition notify_line :: "string \<Rightarrow> instant \<Rightarrow> string \<Rightarrow> ready_state \<Rightarrow> ready_state" where
  "notify_line who t line rs =
     (if line = ''READY=1'' then mark_ready who rs
      else if line = ''WATCHDOG=1'' then mark_ping who t rs
      else rs)"

definition notify_datagram :: "string \<Rightarrow> instant \<Rightarrow> string \<Rightarrow> ready_state \<Rightarrow> ready_state" where
  "notify_datagram who t text rs = fold (notify_line who t) (lines text) rs"

definition NOTIFY_DIR :: string where
  "NOTIFY_DIR = ''/run/mitos-init/notify''"

definition notify_path :: "string \<Rightarrow> string" where
  "notify_path who = path_join NOTIFY_DIR (who @ ''.sock'')"

definition chown_path ::
  "os \<Rightarrow> string \<Rightarrow> u32 option \<Rightarrow> u32 option \<Rightarrow> 'a kernel_scheme \<Rightarrow> 'a kernel_scheme" where
  "chown_path os path uid gid s =
     (if uid = None \<and> gid = None then s
      else if CHR 0x00 \<in> set path then s
      else
        let raw_uid = (case uid of None \<Rightarrow> - 1 | Some u \<Rightarrow> u);
            raw_gid = (case gid of None \<Rightarrow> - 1 | Some g \<Rightarrow> g);
            (e, s) = fs os (Chown path raw_uid raw_gid) s
        in case e of
             None \<Rightarrow> s
           | Some err \<Rightarrow> log_at os Debug (''couldn'' @ [squote] @ ''t chown '' @ path @ '': '' @ err) s)"

definition listen_for ::
  "os \<Rightarrow> string \<Rightarrow> u32 option \<Rightarrow> u32 option \<Rightarrow> 'a kernel_scheme \<Rightarrow> string option \<times> 'a kernel_scheme" where
  "listen_for os who uid gid s =
     (let (e, s) = fs os (Create_dir_all NOTIFY_DIR) s
      in case e of
           Some err \<Rightarrow>
             (None, log_at os Debug (''couldn'' @ [squote] @ ''t create '' @ NOTIFY_DIR @ '': '' @ err) s)
         | None \<Rightarrow>
             (let s = snd (fs os (Set_permissions NOTIFY_DIR 448) s);
                  path = notify_path who;
                  s = snd (fs os (Remove_file path) s);
                  (e, s) = fs os (Bind_datagram path) s
              in case e of
                   Some err \<Rightarrow>
                     (None, log_at os Debug
                        (''couldn'' @ [squote] @ ''t bind notify socket for '' @ quote who @ '': '' @ err) s)
                 | None \<Rightarrow>
                     (let s = snd (fs os (Set_permissions path 384) s);
                          s = chown_path os path uid gid s;
                          s = emit (Listener who) s
                      in (Some path, s))))"

subsection \<open>The interface the supervisor uses\<close>

locale per_name_state =
  fixes is_r :: "'n \<Rightarrow> 's \<Rightarrow> bool"
    and ping :: "'n \<Rightarrow> 's \<Rightarrow> 't option"
    and m_ready :: "'n \<Rightarrow> 's \<Rightarrow> 's"
    and m_ping :: "'n \<Rightarrow> 't \<Rightarrow> 's \<Rightarrow> 's"
    and drop_name :: "'n \<Rightarrow> 's \<Rightarrow> 's"
  assumes is_r_ready [simp]: "is_r n (m_ready m s) \<longleftrightarrow> n = m \<or> is_r n s"
    and is_r_ping [simp]: "is_r n (m_ping m t s) \<longleftrightarrow> is_r n s"
    and is_r_drop [simp]: "is_r n (drop_name m s) \<longleftrightarrow> n \<noteq> m \<and> is_r n s"
    and ping_ready [simp]: "ping n (m_ready m s) = ping n s"
    and ping_ping [simp]: "ping n (m_ping m t s) = (if n = m then Some t else ping n s)"
    and ping_drop [simp]: "ping n (drop_name m s) = (if n = m then None else ping n s)"
begin

text \<open>A message is \<open>Inl ()\<close> for readiness or \<open>Inr t\<close> for a ping at time \<open>t\<close>.\<close>

definition message :: "'n \<times> (unit + 't) \<Rightarrow> 's \<Rightarrow> 's" where
  "message m s = (case m of (n, Inl u) \<Rightarrow> m_ready n s | (n, Inr t) \<Rightarrow> m_ping n t s)"

lemma is_r_messages:
  "is_r n (fold message ms s) \<longleftrightarrow> is_r n s \<or> (n, Inl ()) \<in> set ms"
proof (induction ms arbitrary: s)
  case Nil
  then show ?case by simp
next
  case (Cons m ms)
  obtain k x where m: "m = (k, x)" by (cases m)
  have "is_r n (message m s) \<longleftrightarrow> is_r n s \<or> (n, Inl ()) = m"
    by (cases x) (auto simp: m message_def)
  with Cons.IH [of "message m s"] show ?case by auto
qed

lemma ping_messages_other:
  "(\<forall>m \<in> set ms. fst m \<noteq> n) \<Longrightarrow> ping n (fold message ms s) = ping n s"
proof (induction ms arbitrary: s)
  case Nil
  then show ?case by simp
next
  case (Cons m ms)
  obtain k x where m: "m = (k, x)" by (cases m)
  with Cons.prems have "ping n (message m s) = ping n s"
    by (cases x) (auto simp: message_def)
  with Cons show ?case by simp
qed

text \<open>After \<open>drop_name\<close> only messages that arrive later count: nothing of the old instance is left.\<close>

lemma fresh_after_drop:
  "is_r n (fold message ms (drop_name n s)) \<longleftrightarrow> (n, Inl ()) \<in> set ms"
  "(\<forall>m \<in> set ms. fst m \<noteq> n) \<Longrightarrow> ping n (fold message ms (drop_name n s)) = None"
  by (simp_all add: is_r_messages ping_messages_other)

end

interpretation rs: per_name_state is_ready last_ping mark_ready mark_ping forget
  by unfold_locales
    (auto simp: is_ready_def last_ping_def mark_ready_def mark_ping_def forget_def)

lemma is_ready_default [simp]: "\<not> is_ready who ready_state_default"
  by (simp add: is_ready_def ready_state_default_def)

lemma is_ready_line:
  "is_ready n (notify_line who t line rs) \<longleftrightarrow> is_ready n rs \<or> (n = who \<and> line = ''READY=1'')"
  by (auto simp: notify_line_def)

lemma last_ping_line:
  "last_ping n (notify_line who t line rs) =
    (if n = who \<and> line = ''WATCHDOG=1'' then Some t else last_ping n rs)"
  by (auto simp: notify_line_def)

lemma is_ready_datagram:
  "is_ready n (notify_datagram who t text rs) \<longleftrightarrow>
   is_ready n rs \<or> (n = who \<and> ''READY=1'' \<in> set (lines text))"
proof -
  have "is_ready n (fold (notify_line who t) ls rs) \<longleftrightarrow>
      is_ready n rs \<or> (n = who \<and> ''READY=1'' \<in> set ls)" for ls
    by (induction ls arbitrary: rs) (auto simp: is_ready_line)
  then show ?thesis by (simp add: notify_datagram_def)
qed

lemma last_ping_datagram:
  "last_ping n (notify_datagram who t text rs) =
   (if n = who \<and> ''WATCHDOG=1'' \<in> set (lines text) then Some t else last_ping n rs)"
proof -
  have "last_ping n (fold (notify_line who t) ls rs) =
      (if n = who \<and> ''WATCHDOG=1'' \<in> set ls then Some t else last_ping n rs)" for ls
    by (induction ls arbitrary: rs) (auto simp: last_ping_line)
  then show ?thesis by (simp add: notify_datagram_def)
qed

end
