(* ===== verification/Users.thy ===== *)
theory Users
  imports Kernel
begin

text \<open>
  \<open>src/users.rs\<close>: resolving \<open>user=\<close> and \<open>group=\<close> to numeric ids, from a bare number or from
  the colon-separated text of \<open>/etc/passwd\<close> or \<open>/etc/group\<close>.
\<close>

fun resolve_lines :: "string list \<Rightarrow> string \<Rightarrow> nat \<Rightarrow> u32 option" where
  "resolve_lines [] who id_field = None"
| "resolve_lines (line # rest) who id_field =
     (let fields = split_on CHR '':'' line
      in if fields \<noteq> [] \<and> hd fields = who
         then (if id_field < length fields then parse_u32 (fields ! id_field) else None)
         else resolve_lines rest who id_field)"

definition resolve_from_text :: "string \<Rightarrow> string \<Rightarrow> nat \<Rightarrow> u32 option" where
  "resolve_from_text text who id_field = resolve_lines (lines text) who id_field"

definition resolve_uid :: "os \<Rightarrow> string \<Rightarrow> 'a kernel_scheme \<Rightarrow> u32 option \<times> 'a kernel_scheme" where
  "resolve_uid os spec s =
     (case parse_u32 spec of
        Some n \<Rightarrow> (Some n, s)
      | None \<Rightarrow>
          (let (r, s) = read_to_string os ''/etc/passwd'' s
           in case r of Inl e \<Rightarrow> (None, s) | Inr text \<Rightarrow> (resolve_from_text text spec 2, s)))"

definition resolve_gid :: "os \<Rightarrow> string \<Rightarrow> 'a kernel_scheme \<Rightarrow> u32 option \<times> 'a kernel_scheme" where
  "resolve_gid os spec s =
     (case parse_u32 spec of
        Some n \<Rightarrow> (Some n, s)
      | None \<Rightarrow>
          (let (r, s) = read_to_string os ''/etc/group'' s
           in case r of Inl e \<Rightarrow> (None, s) | Inr text \<Rightarrow> (resolve_from_text text spec 2, s)))"

text \<open>
  \<open>def.user.as_deref().and_then(resolve_uid)\<close>.
\<close>

definition resolve_opt ::
  "(string \<Rightarrow> 'a kernel_scheme \<Rightarrow> u32 option \<times> 'a kernel_scheme) \<Rightarrow> string option \<Rightarrow>
   'a kernel_scheme \<Rightarrow> u32 option \<times> 'a kernel_scheme" where
  "resolve_opt f spec s = (case spec of None \<Rightarrow> (None, s) | Some u \<Rightarrow> f u s)"

text \<open>An entry of the database: the fields before, at and after the id.\<close>

definition db_line :: "string \<Rightarrow> string \<Rightarrow> u32 \<Rightarrow> string list \<Rightarrow> string" where
  "db_line who pw n rest = join '':'' (who # pw # show_nat (unat n) # rest)"

definition no_colon :: "string \<Rightarrow> bool" where
  "no_colon s \<longleftrightarrow> CHR '':'' \<notin> set s"

lemma show_nat_no_colon: "CHR '':'' \<notin> set (show_nat n)"
  using show_nat_digits [of "CHR '':''" n] by (auto simp: code_def)

lemma resolve_db_line:
  assumes "no_colon who" "no_colon pw" "\<forall>x \<in> set rest. no_colon x"
  shows "resolve_lines (db_line who pw n rest # ls) who 2 = Some n"
proof -
  have "split_on CHR '':'' (db_line who pw n rest) = who # pw # show_nat (unat n) # rest"
    unfolding db_line_def using assms
    by (intro split_on_join) (auto simp: no_colon_def show_nat_no_colon)
  then show ?thesis by (simp add: rtxt)
qed

lemma resolve_lines_skip:
  "\<forall>l \<in> set pre. hd (split_on CHR '':'' l) \<noteq> who \<Longrightarrow>
   resolve_lines (pre @ ls) who i = resolve_lines ls who i"
  by (induction pre) (simp_all add: Let_def)

lemma resolve_numeric: "parse_u32 spec = Some n \<Longrightarrow> resolve_uid os spec s = (Some n, s) \<and> resolve_gid os spec s = (Some n, s)"
  by (simp add: resolve_uid_def resolve_gid_def)

end
