(* ===== verification/Supervisor.thy ===== *)
theory Supervisor
  imports Ordering Notify Users
begin

text \<open>
  \<open>src/supervisor.rs\<close> (and \<open>oom::set_score_adjust\<close>): the supervised services and every
  operation on them. The state extends the operating system's record by the fields of
  \<open>struct Supervisor\<close>; the shared \<open>Arc<ReadyState>\<close> is one of them, and what the listener
  threads do to it meanwhile becomes visible at the supervisor's sleeps and waits
  (\<open>deliver\<close>).
\<close>

subsection \<open>State\<close>

record supervised =
  sv_def :: service_def
  restart_times :: "instant list"
  started_at :: instant

record supervisor = kernel +
  services :: "(pid \<times> supervised) list"
  ready_st :: ready_state

datatype outcome = Continue | Halt string | GaveUp string

definition MAX_RESTARTS_IN_WINDOW :: nat where
  "MAX_RESTARTS_IN_WINDOW = 5"

definition BACKOFF_WINDOW :: duration where
  "BACKOFF_WINDOW = from_secs 10"

definition READY_WAIT_TIMEOUT :: duration where
  "READY_WAIT_TIMEOUT = from_secs 15"

subsection \<open>The listener threads\<close>

text \<open>The loop of the listener of \<open>who\<close>: the lines of one datagram, then the result of one \<open>recv\<close>.\<close>

fun notify_lines :: "os \<Rightarrow> string \<Rightarrow> string list \<Rightarrow> 'a supervisor_scheme \<Rightarrow> 'a supervisor_scheme" where
  "notify_lines os who [] s = s"
| "notify_lines os who (line # ls) s =
     notify_lines os who ls
       (if line = ''READY=1''
        then log_at os Debug (quote who @ '' reported READY=1'') (s\<lparr>ready_st := mark_ready who (ready_st s)\<rparr>)
        else if line = ''WATCHDOG=1'' then s\<lparr>ready_st := mark_ping who (clock s) (ready_st s)\<rparr>
        else s)"

definition notify_recv :: "os \<Rightarrow> string \<Rightarrow> recv_result \<Rightarrow> 'a supervisor_scheme \<Rightarrow> 'a supervisor_scheme" where
  "notify_recv os who r s =
     (case recv_text r of None \<Rightarrow> s | Some text \<Rightarrow> notify_lines os who (lines text) s)"

text \<open>What several listeners received, in the order in which it arrived.\<close>

fun deliver_all :: "os \<Rightarrow> (string \<times> recv_result) list \<Rightarrow> 'a supervisor_scheme \<Rightarrow> 'a supervisor_scheme" where
  "deliver_all os [] s = s"
| "deliver_all os ((who, r) # ds) s = deliver_all os ds (notify_recv os who r s)"

definition deliver :: "os \<Rightarrow> 'a supervisor_scheme \<Rightarrow> 'a supervisor_scheme" where
  "deliver os s = deliver_all os (os_notify os (ev s)) s"

definition sleep_d :: "os \<Rightarrow> duration \<Rightarrow> 'a supervisor_scheme \<Rightarrow> 'a supervisor_scheme" where
  "sleep_d os d s = deliver os (sleep os d s)"

subsection \<open>Small helpers\<close>

definition running_names :: "'a supervisor_scheme \<Rightarrow> string list" where
  "running_names s = map (\<lambda>(p, sv). sd_name (sv_def sv)) (services s)"

definition forget_name :: "string \<Rightarrow> 'a supervisor_scheme \<Rightarrow> 'a supervisor_scheme" where
  "forget_name who s = s\<lparr>ready_st := forget who (ready_st s)\<rparr>"

definition insert_service :: "pid \<Rightarrow> supervised \<Rightarrow> 'a supervisor_scheme \<Rightarrow> 'a supervisor_scheme" where
  "insert_service p sv s = s\<lparr>services := AList.update p sv (services s)\<rparr>"

definition remove_service :: "pid \<Rightarrow> 'a supervisor_scheme \<Rightarrow> 'a supervisor_scheme" where
  "remove_service p s = s\<lparr>services := AList.delete p (services s)\<rparr>"

definition set_score_adjust :: "os \<Rightarrow> pid \<Rightarrow> i32 \<Rightarrow> 'a kernel_scheme \<Rightarrow> 'a kernel_scheme" where
  "set_score_adjust os p score s =
     (let (e, s) = fs os (Write_file (''/proc/'' @ show_int p @ ''/oom_score_adj'') (show_int (sint score))) s
      in if e \<noteq> None
         then log_at os Debug (''couldn'' @ [squote] @ ''t set oom_score_adj for pid '' @ show_int p) s
         else s)"

definition fallback_shell :: service_def where
  "fallback_shell = service_def_default\<lparr>sd_name := ''shell'', sd_path := ''/bin/sh'', sd_critical := True\<rparr>"

definition defs_equal :: "service_def \<Rightarrow> service_def \<Rightarrow> bool" where
  "defs_equal a b =
     (sd_path a = sd_path b \<and> sd_args a = sd_args b \<and> sd_critical a = sd_critical b \<and>
      sd_restart a = sd_restart b \<and> sd_memory_limit a = sd_memory_limit b \<and>
      sd_after a = sd_after b \<and> sd_after_ready a = sd_after_ready b \<and>
      sd_before a = sd_before b \<and> sd_requires a = sd_requires b \<and> sd_wants a = sd_wants b \<and>
      sd_user a = sd_user b \<and> sd_group a = sd_group b \<and>
      sd_watchdog_timeout a = sd_watchdog_timeout b \<and> sd_environment a = sd_environment b \<and>
      sd_working_dir a = sd_working_dir b \<and> sd_target a = sd_target b \<and>
      sd_private_tmp a = sd_private_tmp b \<and> sd_protect_system a = sd_protect_system b \<and>
      sd_no_new_privileges a = sd_no_new_privileges b \<and>
      sd_oom_score_adjust a = sd_oom_score_adjust b)"

definition service_sandbox_of :: "service_def \<Rightarrow> service_sandbox" where
  "service_sandbox_of d =
     \<lparr>sb_private_tmp = sd_private_tmp d, sb_protect_system = sd_protect_system d,
      sb_no_new_privileges = sd_no_new_privileges d\<rparr>"

subsection \<open>Spawning\<close>

definition the_text :: "string option \<Rightarrow> string" where
  "the_text x = (case x of None \<Rightarrow> [] | Some t \<Rightarrow> t)"

text \<open>The two look-ups at the head of \<open>spawn_with_history\<close>, with their warnings.\<close>

definition resolve_identity ::
  "os \<Rightarrow> service_def \<Rightarrow> 'a kernel_scheme \<Rightarrow> (u32 option \<times> u32 option) \<times> 'a kernel_scheme" where
  "resolve_identity os d s =
     (let (uid, s) = resolve_opt (resolve_uid os) (sd_user d) s;
          s = (if sd_user d \<noteq> None \<and> uid = None
               then log_at os Warn (''service '' @ quote (sd_name d) @ '': couldn'' @ [squote]
                      @ ''t resolve user '' @ quote (the_text (sd_user d)) @ '', running as root'') s
               else s);
          (gid, s) = resolve_opt (resolve_gid os) (sd_group d) s;
          s = (if sd_group d \<noteq> None \<and> gid = None
               then log_at os Warn (''service '' @ quote (sd_name d) @ '': couldn'' @ [squote]
                      @ ''t resolve group '' @ quote (the_text (sd_group d))
                      @ '', running with the default group'') s
               else s)
      in ((uid, gid), s))"

text \<open>The \<open>Command\<close> that \<open>spawn_with_history\<close> builds.\<close>

definition service_command ::
  "service_def \<Rightarrow> string option \<Rightarrow> u32 option \<Rightarrow> u32 option \<Rightarrow> command" where
  "service_command d sock uid gid =
     (let cmd = (command_new (sd_path d))
            \<lparr>cmd_args := sd_args d,
             cmd_env := (case sock of None \<Rightarrow> [] | Some p \<Rightarrow> [(''NOTIFY_SOCKET'', p)]) @ sd_environment d,
             cmd_dir := sd_working_dir d\<rparr>;
          sandbox = service_sandbox_of d
      in if sandbox_is_empty sandbox
         then cmd\<lparr>cmd_uid := uid, cmd_gid := gid\<rparr>
         else cmd\<lparr>cmd_pre_exec := Some (Pre_service sandbox gid uid)\<rparr>)"

text \<open>The \<open>Ok(child)\<close> branch.\<close>

definition started ::
  "os \<Rightarrow> service_def \<Rightarrow> instant list \<Rightarrow> pid \<Rightarrow> 'a supervisor_scheme \<Rightarrow> 'a supervisor_scheme" where
  "started os d hist p s =
     (let s = log_at os Info (''started '' @ quote (sd_name d) @ '' ('' @ sd_path d @ '') as pid ''
                 @ show_int p) s;
          s = snd (create_for os (sd_name d) (sd_memory_limit d) s);
          s = attach os (sd_name d) p s;
          s = (case sd_oom_score_adjust d of None \<Rightarrow> s | Some score \<Rightarrow> set_score_adjust os p score s);
          (t, s) = now os s
      in insert_service p \<lparr>sv_def = d, restart_times = hist, started_at = t\<rparr> s)"

text \<open>The rescue shell of the \<open>Err\<close> branch.\<close>

definition spawn_fallback :: "os \<Rightarrow> 'a supervisor_scheme \<Rightarrow> 'a supervisor_scheme" where
  "spawn_fallback os s =
     (let (r, s) = spawn os (command_new ''/bin/sh'') s
      in case r of
           Inl e \<Rightarrow> s
         | Inr p \<Rightarrow>
             (let s = log_at os Warn ''fell back to /bin/sh'' s;
                  d = fallback_shell;
                  s = snd (create_for os (sd_name d) None s);
                  s = attach os (sd_name d) p s;
                  (t, s) = now os s
              in insert_service p \<lparr>sv_def = d, restart_times = [], started_at = t\<rparr> s))"

definition spawn_with_history ::
  "os \<Rightarrow> service_def \<Rightarrow> instant list \<Rightarrow> 'a supervisor_scheme \<Rightarrow> 'a supervisor_scheme" where
  "spawn_with_history os d hist s =
     (let ((uid, gid), s) = resolve_identity os d s;
          s = forget_name (sd_name d) s;
          (sock, s) = listen_for os (sd_name d) uid gid s;
          (r, s) = spawn os (service_command d sock uid gid) s
      in case r of
           Inr p \<Rightarrow> started os d hist p s
         | Inl e \<Rightarrow>
             (let s = log_at os Error (''failed to start '' @ quote (sd_name d) @ '' ('' @ sd_path d
                         @ ''): '' @ e) s
              in if sd_critical d then spawn_fallback os s else s))"

subsection \<open>Waiting for readiness\<close>

definition poll_interval :: duration where
  "poll_interval = from_millis 50"

lemma poll_interval_pos [simp]: "0 < poll_interval"
  by (simp add: poll_interval_def from_millis_def)

lemma notify_lines_frame:
  fixes s :: "'a supervisor_scheme"
  shows "clock (notify_lines os who ls s) = clock s" "trace (notify_lines os who ls s) = trace s"
    "ev (notify_lines os who ls s) = ev s" "services (notify_lines os who ls s) = services s"
  by (induction ls arbitrary: s) (simp_all add: log_at_def)

lemma notify_recv_frame [frame]:
  fixes s :: "'a supervisor_scheme"
  shows "clock (notify_recv os who r s) = clock s" "trace (notify_recv os who r s) = trace s"
    "ev (notify_recv os who r s) = ev s" "services (notify_recv os who r s) = services s"
  by (simp_all add: notify_recv_def notify_lines_frame split: option.split)

lemma deliver_all_frame:
  "clock (deliver_all os ds s) = clock s" "trace (deliver_all os ds s) = trace s" "ev (deliver_all os ds s) = ev s"
  "services (deliver_all os ds s) = services s"
  by (induction os ds s rule: deliver_all.induct) (simp_all add: frame)

lemma deliver_frame [frame]:
  "clock (deliver os s) = clock s" "trace (deliver os s) = trace s" "ev (deliver os s) = ev s"
  "services (deliver os s) = services s"
  by (simp_all add: deliver_def deliver_all_frame)

text \<open>What the listeners do to the shared state is the fold of the datagrams that were text.\<close>

definition datagrams :: "(string \<times> recv_result) list \<Rightarrow> (string \<times> string) list" where
  "datagrams ds = List.map_filter (\<lambda>(who, r). map_option (Pair who) (recv_text r)) ds"

lemma notify_lines_ready:
  "clock s = t \<Longrightarrow> ready_st (notify_lines os who ls s) = fold (notify_line who t) ls (ready_st s)"
  by (induction ls arbitrary: s) (simp_all add: notify_line_def log_at_def)

lemma deliver_ready:
  "ready_st (deliver os s) =
     fold (\<lambda>(who, text). notify_datagram who (clock s) text) (datagrams (os_notify os (ev s))) (ready_st s)"
proof -
  have "clock s = t \<Longrightarrow>
      ready_st (deliver_all os ds s) = fold (\<lambda>(who, text). notify_datagram who t text) (datagrams ds) (ready_st s)" for ds t
  proof (induction os ds s rule: deliver_all.induct)
    case (2 os who r ds s)
    have "ready_st (notify_recv os who r s) =
        (case recv_text r of None \<Rightarrow> ready_st s | Some text \<Rightarrow> notify_datagram who t text (ready_st s))"
      using 2(2) by (simp add: notify_recv_def notify_lines_ready [of s t] notify_datagram_def split: option.split)
    with 2 show ?case
      by (cases "recv_text r") (simp_all add: datagrams_def List.map_filter_simps frame)
  qed (simp add: datagrams_def List.map_filter_simps)
  then show ?thesis by (simp add: deliver_def)
qed

lemma clock_sleep_d: "clock s + d \<le> clock (sleep_d os d s)"
  by (simp add: sleep_d_def frame)

text \<open>The polling loop; the result says whether the name was ready before the deadline.\<close>

function ready_loop ::
  "os \<Rightarrow> string \<Rightarrow> instant \<Rightarrow> 'a supervisor_scheme \<Rightarrow> bool \<times> 'a supervisor_scheme" where
  "ready_loop os who deadline s =
     (let (t, s') = now os s
      in if t < deadline
         then (if is_ready who (ready_st s') then (True, s')
               else ready_loop os who deadline (sleep_d os poll_interval s'))
         else (False, s'))"
  by pat_completeness auto
termination
proof (relation "measure (\<lambda>(os, who, deadline, s). deadline - clock s)", goal_cases)
  case 1
  show ?case by simp
next
  case (2 os who deadline s x t s')
  then have s': "clock s' = t" "clock s \<le> t" by (auto simp: now_def Let_def)
  have "t < clock (sleep_d os poll_interval s')"
    using clock_sleep_d [of s' poll_interval os] s'(1) poll_interval_pos by linarith
  with 2 s' show ?case by auto
qed

declare ready_loop.simps [simp del]

definition wait_for_ready :: "os \<Rightarrow> string \<Rightarrow> duration \<Rightarrow> 'a supervisor_scheme \<Rightarrow> 'a supervisor_scheme" where
  "wait_for_ready os who timeout s =
     (let (t, s) = now os s;
          (found, s) = ready_loop os who (t + timeout) s
      in if found then s
         else log_at os Warn (''timed out waiting for '' @ quote who
                @ '' to report ready, starting the dependent service anyway'') s)"

subsection \<open>\<open>spawn_all\<close>\<close>

definition topological_order_logged ::
  "os \<Rightarrow> service_def list \<Rightarrow> 'a kernel_scheme \<Rightarrow> service_def list \<times> 'a kernel_scheme" where
  "topological_order_logged os defs s =
     (let (ordered, stuck) = topological_order defs
      in (ordered,
          if stuck = [] then s
          else log_at os Warn (''dependency cycle among service(s) '' @ debug_list stuck
                 @ '', starting in listed order'') s))"

definition hard_missing :: "string set \<Rightarrow> string set \<Rightarrow> service_def \<Rightarrow> string list" where
  "hard_missing configured spawned d = filter (\<lambda>r. r \<in> configured \<and> r \<notin> spawned) (sd_requires d)"

fun spawn_loop ::
  "os \<Rightarrow> string set \<Rightarrow> service_def list \<Rightarrow> string set \<Rightarrow> 'a supervisor_scheme \<Rightarrow>
   string set \<times> 'a supervisor_scheme" where
  "spawn_loop os configured [] spawned s = (spawned, s)"
| "spawn_loop os configured (d # ds) spawned s =
     (let missing = hard_missing configured spawned d
      in if missing \<noteq> []
         then spawn_loop os configured ds spawned
                (log_at os Error (''service '' @ quote (sd_name d) @ '' requires ''
                   @ debug_list missing @ '' which didn'' @ [squote] @ ''t start - skipping'') s)
         else
           let s = fold (\<lambda>dep. wait_for_ready os dep READY_WAIT_TIMEOUT) (sd_after_ready d) s;
               s = spawn_with_history os d [] s
           in spawn_loop os configured ds
                (if sd_name d \<in> set (running_names s) then insert (sd_name d) spawned else spawned) s)"

definition spawn_all :: "os \<Rightarrow> service_def list \<Rightarrow> 'a supervisor_scheme \<Rightarrow> 'a supervisor_scheme" where
  "spawn_all os defs s =
     (let (ordered, s) = topological_order_logged os (effective_after defs) s
      in snd (spawn_loop os (sd_name ` set defs) ordered {} s))"

subsection \<open>Watchdogs\<close>

definition has_watchdog_services :: "'a supervisor_scheme \<Rightarrow> bool" where
  "has_watchdog_services s = (\<exists>(p, sv) \<in> set (services s). sd_watchdog_timeout (sv_def sv) \<noteq> None)"

definition watchdog_expired :: "instant \<Rightarrow> ready_state \<Rightarrow> supervised \<Rightarrow> bool" where
  "watchdog_expired t rs sv =
     (case sd_watchdog_timeout (sv_def sv) of
        None \<Rightarrow> False
      | Some timeout \<Rightarrow>
          (let last = (case last_ping (sd_name (sv_def sv)) rs of None \<Rightarrow> started_at sv | Some p \<Rightarrow> p)
           in duration_since t last > timeout))"

definition expired_watchdogs :: "os \<Rightarrow> 'a supervisor_scheme \<Rightarrow> pid list \<times> 'a supervisor_scheme" where
  "expired_watchdogs os s =
     (let (t, s) = now os s
      in (map fst (filter (\<lambda>(p, sv). watchdog_expired t (ready_st s) sv) (services s)), s))"

subsection \<open>Exits and the restart policy\<close>

definition exit_summary :: "wait_status \<Rightarrow> (pid \<times> string) option" where
  "exit_summary status =
     (case status of
        Exited p c \<Rightarrow> Some (p, ''exited with status '' @ show_int c)
      | Signaled p sig core \<Rightarrow> Some (p, ''killed by signal '' @ signal_name sig)
      | _ \<Rightarrow> None)"

definition should_restart :: "restart_policy \<Rightarrow> wait_status \<Rightarrow> bool" where
  "should_restart r status =
     (case r of
        Never \<Rightarrow> False
      | Always \<Rightarrow> True
      | OnFailure \<Rightarrow> (case status of Exited p c \<Rightarrow> c \<noteq> 0 | _ \<Rightarrow> True))"

text \<open>\<open>retain\<close> and \<open>push\<close>: the restarts that still count, with the one about to happen.\<close>

definition prune_restarts :: "instant \<Rightarrow> instant list \<Rightarrow> instant list" where
  "prune_restarts t hist = filter (\<lambda>r. duration_since t r < BACKOFF_WINDOW) hist @ [t]"

definition handle_exit ::
  "os \<Rightarrow> wait_status \<Rightarrow> 'a supervisor_scheme \<Rightarrow> outcome \<times> 'a supervisor_scheme" where
  "handle_exit os status s =
     (case exit_summary status of
        None \<Rightarrow> (Continue, s)
      | Some (p, summary) \<Rightarrow>
          (case map_of (services s) p of
             None \<Rightarrow> (Continue, s)
           | Some sv \<Rightarrow>
               (let d = sv_def sv;
                    s = remove_service p s;
                    s = log_at os Warn (''service '' @ quote (sd_name d) @ '' '' @ summary) s;
                    s = kill_and_remove os (sd_name d) s;
                    s = forget_name (sd_name d) s
                in if sd_critical d then (Halt (sd_name d), s)
                   else if should_restart (sd_restart d) status
                   then
                     (let (t, s) = now os s;
                          hist = prune_restarts t (restart_times sv)
                      in if length hist > MAX_RESTARTS_IN_WINDOW
                         then (GaveUp (sd_name d),
                               log_at os Error (''service '' @ quote (sd_name d) @ '' restarted ''
                                 @ show_nat (length hist) @ '' times within 10s, giving up'') s)
                         else (Continue, spawn_with_history os d hist s))
                   else (Continue, s))))"

subsection \<open>Stopping and reloading\<close>

definition stop_grace :: duration where
  "stop_grace = from_secs 3"

text \<open>The wait results on which \<open>stop_one\<close> leaves its loop.\<close>

definition wait_ends_stop :: "wait_result \<Rightarrow> bool" where
  "wait_ends_stop r =
     (case r of
        Wait_err e \<Rightarrow> True
      | Wait_ok st \<Rightarrow> (case st of Exited q c \<Rightarrow> True | Signaled q sig core \<Rightarrow> True | _ \<Rightarrow> False))"

function stop_loop :: "os \<Rightarrow> pid \<Rightarrow> instant \<Rightarrow> 'a supervisor_scheme \<Rightarrow> 'a supervisor_scheme" where
  "stop_loop os p deadline s =
     (let (t, s') = now os s
      in if t \<ge> deadline then kill p SIGKILL s'
         else
           (let (r, s'') = waitpid os p True s'
            in if wait_ends_stop r then s''
               else stop_loop os p deadline (sleep_d os poll_interval s'')))"
  by pat_completeness auto
termination
proof (relation "measure (\<lambda>(os, p, deadline, s). deadline - clock s)", goal_cases)
  case 1
  show ?case by simp
next
  case (2 os p deadline s x t s' y r s'')
  then have c: "clock s \<le> t" "t < deadline" "t \<le> clock s''"
    by (auto simp: now_def waitpid_def emit_def Let_def)
  have "t < clock (sleep_d os poll_interval s'')"
    using clock_sleep_d [of s'' poll_interval os] c(3) poll_interval_pos by linarith
  with c show ?case by auto
qed

declare stop_loop.simps [simp del]

definition stop_one :: "os \<Rightarrow> pid \<Rightarrow> string \<Rightarrow> 'a supervisor_scheme \<Rightarrow> 'a supervisor_scheme" where
  "stop_one os p who s =
     (let s = kill p SIGTERM s;
          (t, s) = now os s;
          s = stop_loop os p (t + stop_grace) s
      in kill_and_remove os who s)"

definition removed_pids :: "service_def list \<Rightarrow> 'a supervisor_scheme \<Rightarrow> pid list" where
  "removed_pids new_defs s =
     map fst (filter (\<lambda>(p, sv). sd_name (sv_def sv) \<notin> sd_name ` set new_defs) (services s))"

fun stop_removed :: "os \<Rightarrow> pid list \<Rightarrow> 'a supervisor_scheme \<Rightarrow> 'a supervisor_scheme" where
  "stop_removed os [] s = s"
| "stop_removed os (p # ps) s =
     (case map_of (services s) p of
        None \<Rightarrow> stop_removed os ps s
      | Some sv \<Rightarrow>
          (let who = sd_name (sv_def sv);
               s = remove_service p s;
               s = log_at os Info (''reload: stopping removed service '' @ quote who) s;
               s = stop_one os p who s;
               s = forget_name who s
           in stop_removed os ps s))"

definition find_running :: "string \<Rightarrow> 'a supervisor_scheme \<Rightarrow> (pid \<times> supervised) option" where
  "find_running who s = List.find (\<lambda>(p, sv). sd_name (sv_def sv) = who) (services s)"

fun reload_loop ::
  "os \<Rightarrow> service_def list \<Rightarrow> 'a supervisor_scheme \<Rightarrow> string list \<times> 'a supervisor_scheme" where
  "reload_loop os [] s = ([], s)"
| "reload_loop os (d # ds) s =
     (case find_running (sd_name d) s of
        Some (p, sv) \<Rightarrow>
          if defs_equal (sv_def sv) d then reload_loop os ds s
          else
            (let s = log_at os Info (''reload: restarting changed service '' @ quote (sd_name d)) s;
                 s = remove_service p s;
                 s = stop_one os p (sd_name d) s;
                 s = spawn_with_history os d [] s;
                 (touched, s) = reload_loop os ds s
             in (sd_name d # touched, s))
      | None \<Rightarrow>
          (let s = log_at os Info (''reload: starting new service '' @ quote (sd_name d)) s;
               s = spawn_with_history os d [] s;
               (touched, s) = reload_loop os ds s
           in (sd_name d # touched, s)))"

definition reload_services ::
  "os \<Rightarrow> service_def list \<Rightarrow> 'a supervisor_scheme \<Rightarrow> string list \<times> 'a supervisor_scheme" where
  "reload_services os new_defs s =
     reload_loop os new_defs (stop_removed os (removed_pids new_defs s) s)"

subsection \<open>Shutdown\<close>

text \<open>
  The wait loop of \<open>shutdown_all\<close>. A round that reaps something or gets a status other than
  \<open>StillAlive\<close> does not sleep, so nothing in the code bounds the number of rounds except the
  clock: the loop is a \<open>partial_function\<close>, and \<open>None\<close> is a run that never leaves it.
\<close>

partial_function (option) shutdown_loop ::
  "os \<Rightarrow> instant \<Rightarrow> 'a supervisor_scheme \<Rightarrow> 'a supervisor_scheme option" where
  "shutdown_loop os deadline s =
     (let (t, s1) = now os s
      in if t < deadline \<and> services s1 \<noteq> []
         then
           (let (r, s2) = waitpid os (- 1) True s1
            in case r of
                 Wait_err e \<Rightarrow>
                   if e = ECHILD then Some s2
                   else shutdown_loop os deadline (sleep_d os poll_interval s2)
               | Wait_ok st \<Rightarrow>
                   (case exit_summary st of
                      Some (p, summary) \<Rightarrow> shutdown_loop os deadline (remove_service p s2)
                    | None \<Rightarrow>
                        if st = StillAlive
                        then shutdown_loop os deadline (sleep_d os poll_interval s2)
                        else shutdown_loop os deadline s2))
         else Some s1)"

fun kill_stragglers :: "os \<Rightarrow> pid list \<Rightarrow> 'a kernel_scheme \<Rightarrow> 'a kernel_scheme" where
  "kill_stragglers os [] s = s"
| "kill_stragglers os (p # ps) s =
     kill_stragglers os ps
       (kill p SIGKILL
         (log_at os Warn (''pid '' @ show_int p @ '' didn'' @ [squote] @ ''t exit in time, sending SIGKILL'') s))"

fun sweep_names :: "os \<Rightarrow> string list \<Rightarrow> 'a supervisor_scheme \<Rightarrow> 'a supervisor_scheme" where
  "sweep_names os [] s = s"
| "sweep_names os (who # names) s = sweep_names os names (forget_name who (kill_and_remove os who s))"

definition shutdown_all :: "os \<Rightarrow> duration \<Rightarrow> 'a supervisor_scheme \<Rightarrow> 'a supervisor_scheme run option" where
  "shutdown_all os grace s =
     (let all_names = running_names s;
          s = fold (\<lambda>p. kill p SIGTERM) (keys (services s)) s;
          (t, s) = now os s
      in case instant_add t grace of
           None \<Rightarrow> Some (Panic s)
         | Some deadline \<Rightarrow>
             map_option
               (\<lambda>s. Ret (sweep_names os all_names (kill_stragglers os (keys (services s)) s)))
               (shutdown_loop os deadline s))"

subsection \<open>Status\<close>

definition status_line :: "ready_state \<Rightarrow> pid \<times> supervised \<Rightarrow> string" where
  "status_line rs e =
     (case e of (p, sv) \<Rightarrow>
        ''  pid '' @ show_int p @ '': '' @ sd_name (sv_def sv) @ '' ('' @ sd_path (sv_def sv) @ '')''
          @ (if sd_critical (sv_def sv) then '' [critical]'' else [])
          @ (if is_ready (sd_name (sv_def sv)) rs then '' ready'' else '' starting''))"

definition status_summary :: "'a supervisor_scheme \<Rightarrow> string" where
  "status_summary s =
     (if services s = [] then ''no supervised services running''
      else join [nl]
        ((show_nat (length (services s)) @ '' supervised service(s):'')
           # map (status_line (ready_st s)) (services s)))"

end
