(* ===== verification/Sup_Frames.thy ===== *)
theory Sup_Frames
  imports Supervisor
begin

text \<open>
  What the operations of the supervisor leave alone, proved once for every state predicate
  with the right closure properties. The interface \<open>kernel_closed\<close> asks of a predicate \<open>I\<close>
  that time may pass, the log and the readiness table may change, and an allowed event may be
  emitted; then \<open>I\<close> survives every operation that does not touch the table of services.
  \<open>table_closed\<close> adds removal and insertion of a service, and with it spawning, stopping,
  reloading and the handling of an exit.

  Two instances are used throughout: \<open>steps P s\<close> (what came after \<open>s\<close>: the trace grew by
  events satisfying \<open>P\<close>, nothing beyond the supervisor's own fields changed) and
  \<open>quiet P s\<close> (the same, and the table of services is the one of \<open>s\<close>).
\<close>

text \<open>File operations and the start of a listener thread: events every operation may have.\<close>

fun housekeeping :: "event \<Rightarrow> bool" where
  "housekeeping (Fs f) = True"
| "housekeeping (Listener who) = True"
| "housekeeping e = False"

definition steps :: "(event \<Rightarrow> bool) \<Rightarrow> 'a supervisor_scheme \<Rightarrow> 'a supervisor_scheme \<Rightarrow> bool" where
  "steps P s s' \<longleftrightarrow>
     clock s \<le> clock s' \<and> ev s \<le> ev s' \<and>
     (\<exists>new. trace s' = trace s @ new \<and> (\<forall>e \<in> set new. housekeeping e \<or> P e)) \<and>
     supervisor.more s' = supervisor.more s"

definition quiet :: "(event \<Rightarrow> bool) \<Rightarrow> 'a supervisor_scheme \<Rightarrow> 'a supervisor_scheme \<Rightarrow> bool" where
  "quiet P s s' \<longleftrightarrow> steps P s s' \<and> services s' = services s"

fun is_spawn :: "event \<Rightarrow> bool" where
  "is_spawn (Spawn c r) = True"
| "is_spawn e = False"

fun is_kill_of :: "pid \<Rightarrow> event \<Rightarrow> bool" where
  "is_kill_of p (Kill q sig) = (p = q)"
| "is_kill_of p e = False"

subsection \<open>Predicates closed under the operating system's operations\<close>

locale kernel_closed =
  fixes I :: "'a supervisor_scheme \<Rightarrow> bool" and allowed :: "event \<Rightarrow> bool"
  assumes I_time: "I s \<Longrightarrow> clock s \<le> c \<Longrightarrow> ev s \<le> n \<Longrightarrow> I (s\<lparr>clock := c, ev := n\<rparr>)"
    and I_log: "I s \<Longrightarrow> I (log_at os lvl m s)"
    and I_emit: "I s \<Longrightarrow> allowed e \<Longrightarrow> I (emit e s)"
    and I_ready: "I s \<Longrightarrow> I (s\<lparr>ready_st := r\<rparr>)"
    and allowed_fs: "allowed (Fs op)"
    and allowed_listener: "allowed (Listener who)"
begin

lemma I_now: "I s \<Longrightarrow> I (snd (now os s))"
  using I_time [of s "clock s + os_tick os (ev s)" "Suc (ev s)"] by (simp add: now_def Let_def)

lemma I_sleep: "I s \<Longrightarrow> I (sleep os d s)"
  using I_time [of s "clock s + d + os_tick os (ev s)" "Suc (ev s)"] by (simp add: sleep_def)

lemma I_ev: "I s \<Longrightarrow> I (s\<lparr>ev := Suc (ev s)\<rparr>)"
  using I_time [of s "clock s" "Suc (ev s)"] by simp

lemma I_fs: "I s \<Longrightarrow> I (snd (fs os op s))"
  by (simp add: fs_def I_emit allowed_fs)

lemma I_read: "I s \<Longrightarrow> I (snd (read_to_string os path s))"
  by (simp add: read_to_string_def I_ev)

lemma I_kill: "I s \<Longrightarrow> allowed (Kill p sig) \<Longrightarrow> I (kill p sig s)"
  by (simp add: kill_def I_emit)

lemma I_spawn: "I s \<Longrightarrow> (\<And>r. allowed (Spawn c r)) \<Longrightarrow> I (snd (spawn os c s))"
  by (simp add: spawn_def Let_def I_emit)

lemma I_waitpid: "I s \<Longrightarrow> (\<And>r. allowed (Wait p b r)) \<Longrightarrow> I (snd (waitpid os p b s))"
  using I_time [of s "clock s + os_tick os (ev s)" "ev s"]
  by (simp add: waitpid_def Let_def I_emit)

lemma I_notify_recv: "I s \<Longrightarrow> I (notify_recv os who r s)"
proof -
  have "I s \<Longrightarrow> I (notify_lines os who ls s)" for ls s
    by (induction ls arbitrary: s) (simp_all add: I_log I_ready)
  then show "I s \<Longrightarrow> I (notify_recv os who r s)" by (simp add: notify_recv_def split: option.split)
qed

lemma I_deliver: "I s \<Longrightarrow> I (deliver os s)"
proof -
  have "I s \<Longrightarrow> I (deliver_all os ds s)" for ds
    by (induction os ds s rule: deliver_all.induct) (simp_all add: I_notify_recv)
  then show "I s \<Longrightarrow> I (deliver os s)" by (simp add: deliver_def)
qed

lemma I_forget: "I s \<Longrightarrow> I (forget_name who s)"
  by (simp add: forget_name_def I_ready)

lemma I_sleep_d: "I s \<Longrightarrow> I (sleep_d os d s)"
  by (simp add: sleep_d_def I_deliver I_sleep)

text \<open>Sequencing, in the form the \<open>let\<close>s of the operations need.\<close>

lemma I_seq: "I (snd x) \<Longrightarrow> (\<And>a t. x = (a, t) \<Longrightarrow> I t \<Longrightarrow> I (g a t)) \<Longrightarrow> I (case x of (a, t) \<Rightarrow> g a t)"
  by (cases x) simp

lemma I_seq_snd:
  "I (snd x) \<Longrightarrow> (\<And>a t. x = (a, t) \<Longrightarrow> I t \<Longrightarrow> I (snd (g a t))) \<Longrightarrow> I (snd (case x of (a, t) \<Rightarrow> g a t))"
  by (cases x) simp

lemma I_if: "(b \<Longrightarrow> I s) \<Longrightarrow> (\<not> b \<Longrightarrow> I t) \<Longrightarrow> I (if b then s else t)"
  by simp

lemma I_option: "(x = None \<Longrightarrow> I s) \<Longrightarrow> (\<And>y. x = Some y \<Longrightarrow> I (g y)) \<Longrightarrow> I (case x of None \<Rightarrow> s | Some y \<Rightarrow> g y)"
  by (cases x) simp_all

lemma I_pair: "I s \<Longrightarrow> I (snd (x, s))"
  by simp

lemma I_if_snd: "(b \<Longrightarrow> I (snd s)) \<Longrightarrow> (\<not> b \<Longrightarrow> I (snd t)) \<Longrightarrow> I (snd (if b then s else t))"
  by simp

lemma I_option_snd:
  "(x = None \<Longrightarrow> I (snd s)) \<Longrightarrow> (\<And>y. x = Some y \<Longrightarrow> I (snd (g y))) \<Longrightarrow>
   I (snd (case x of None \<Rightarrow> s | Some y \<Rightarrow> g y))"
  by (cases x) simp_all

lemma I_sum_snd:
  "(\<And>e. x = Inl e \<Longrightarrow> I (snd (f e))) \<Longrightarrow> (\<And>y. x = Inr y \<Longrightarrow> I (snd (g y))) \<Longrightarrow>
   I (snd (case x of Inl e \<Rightarrow> f e | Inr y \<Rightarrow> g y))"
  by (cases x) simp_all

lemma I_sum:
  "(\<And>e. x = Inl e \<Longrightarrow> I (f e)) \<Longrightarrow> (\<And>y. x = Inr y \<Longrightarrow> I (g y)) \<Longrightarrow>
   I (case x of Inl e \<Rightarrow> f e | Inr y \<Rightarrow> g y)"
  by (cases x) simp_all

lemma I_uncurry: "(\<And>u v. a = (u, v) \<Longrightarrow> I (f u v t)) \<Longrightarrow> I ((case a of (u, v) \<Rightarrow> f u v) t)"
  by (cases a) simp

lemma I_uncurry_snd:
  "(\<And>u v. a = (u, v) \<Longrightarrow> I (snd (f u v t))) \<Longrightarrow> I (snd ((case a of (u, v) \<Rightarrow> f u v) t))"
  by (cases a) simp

lemmas I_flow = I_pair I_seq_snd I_if_snd I_option_snd I_sum_snd I_seq I_if I_option I_sum
lemmas I_ops = I_now I_log I_fs I_read I_forget I_sleep_d I_deliver

lemma I_create_for: "I s \<Longrightarrow> I (snd (create_for os who lim s))"
  unfolding create_for_def create_under_def Let_def
  by (intro I_flow I_ops)

lemma I_attach: "I s \<Longrightarrow> I (attach os who p s)"
  unfolding attach_def attach_under_def Let_def
  by (intro I_flow I_ops)

lemma I_kill_and_remove_under: "I s \<Longrightarrow> I (kill_and_remove_under os root who s)"
  unfolding kill_and_remove_under_def Let_def
  by (intro I_flow I_ops)

lemma I_kill_and_remove: "I s \<Longrightarrow> I (kill_and_remove os who s)"
  unfolding kill_and_remove_def by (rule I_kill_and_remove_under)

lemma I_score_adjust: "I s \<Longrightarrow> I (set_score_adjust os p score s)"
  unfolding set_score_adjust_def Let_def
  by (intro I_flow I_ops)

lemma I_chown_path: "I s \<Longrightarrow> I (chown_path os path uid gid s)"
  unfolding chown_path_def Let_def
  by (intro I_flow I_ops)

lemma I_listen_for: "I s \<Longrightarrow> I (snd (listen_for os who uid gid s))"
  unfolding listen_for_def Let_def
  by (intro I_flow I_ops I_chown_path I_emit allowed_listener)

lemma I_resolve_uid: "I s \<Longrightarrow> I (snd (resolve_uid os spec s))"
  unfolding resolve_uid_def Let_def by (intro I_flow I_ops)

lemma I_resolve_gid: "I s \<Longrightarrow> I (snd (resolve_gid os spec s))"
  unfolding resolve_gid_def Let_def by (intro I_flow I_ops)

lemma I_resolve_identity: "I s \<Longrightarrow> I (snd (resolve_identity os d s))"
  unfolding resolve_identity_def resolve_opt_def Let_def
  by (intro I_flow I_ops I_resolve_uid I_resolve_gid)

lemma I_ready_loop: "I s \<Longrightarrow> I (snd (ready_loop os who deadline s))"
proof (induction os who deadline s rule: ready_loop.induct)
  case (1 os who deadline s)
  obtain t s' where n: "now os s = (t, s')" by fastforce
  with I_now [OF "1.prems", of os] have s': "I s'" by simp
  then show ?case
    using "1.IH" [OF n [symmetric]] n
    by (simp add: ready_loop.simps [of os who deadline s] I_sleep_d)
qed

lemma I_wait_for_ready: "I s \<Longrightarrow> I (wait_for_ready os who timeout s)"
  unfolding wait_for_ready_def Let_def
  by (intro I_flow I_ops I_ready_loop)

lemma I_stop_loop:
  "I s \<Longrightarrow> (\<And>sig. allowed (Kill p sig)) \<Longrightarrow> (\<And>r. allowed (Wait p True r)) \<Longrightarrow>
   I (stop_loop os p deadline s)"
proof (induction os p deadline s rule: stop_loop.induct)
  case (1 os p deadline s)
  obtain t s' where n: "now os s = (t, s')" by fastforce
  with I_now [OF "1.prems"(1), of os] have s': "I s'" by simp
  obtain r s'' where w: "waitpid os p True s' = (r, s'')" by fastforce
  with I_waitpid [OF s', of p True os] "1.prems"(3) have s'': "I s''" by simp
  show ?case
    using "1.IH" [OF n [symmetric] refl _ w [symmetric] refl] n w s' s'' "1.prems"(2,3)
    by (simp add: stop_loop.simps [of os p deadline s] I_kill I_sleep_d)
qed

lemma I_stop_one:
  "I s \<Longrightarrow> (\<And>sig. allowed (Kill p sig)) \<Longrightarrow> (\<And>r. allowed (Wait p True r)) \<Longrightarrow>
   I (stop_one os p who s)"
  unfolding stop_one_def Let_def
  by (intro I_flow I_ops I_kill_and_remove I_stop_loop I_kill)

lemma I_started:
  "I s \<Longrightarrow>
   (\<And>t u. I u \<Longrightarrow> I (insert_service p \<lparr>sv_def = d, restart_times = hist, started_at = t\<rparr> u)) \<Longrightarrow>
   I (started os d hist p s)"
  unfolding started_def Let_def
  by (intro I_flow I_ops I_create_for I_attach I_score_adjust)

lemma I_topological_order_logged: "I s \<Longrightarrow> I (snd (topological_order_logged os defs s))"
  unfolding topological_order_logged_def Let_def
  by (auto split: prod.splits intro: I_log)

end

subsection \<open>The instance: what a table-preserving operation leaves alone\<close>

lemma steps_refl [simp]: "steps P s s"
  by (simp add: steps_def)

lemma quiet_refl [simp]: "quiet P s s"
  by (simp add: quiet_def)

lemma steps_trans: "steps P a b \<Longrightarrow> steps P b c \<Longrightarrow> steps P a c"
  unfolding steps_def by (elim conjE exE, intro conjI) (auto intro: le_trans)

lemma quiet_trans: "quiet P a b \<Longrightarrow> quiet P b c \<Longrightarrow> quiet P a c"
  unfolding quiet_def by (auto intro: steps_trans)

lemma steps_mono: "steps P a b \<Longrightarrow> (\<And>e. P e \<Longrightarrow> Q e) \<Longrightarrow> steps Q a b"
  unfolding steps_def by blast

lemma steps_emit: "steps P a b \<Longrightarrow> housekeeping e \<or> P e \<Longrightarrow> steps P a (emit e b)"
  unfolding steps_def emit_def by (elim conjE exE) (auto intro: le_SucI)

lemma steps_fields:
  "steps P a b \<Longrightarrow> steps P a (b\<lparr>log_st := l\<rparr>)"
  "steps P a b \<Longrightarrow> steps P a (b\<lparr>ready_st := r\<rparr>)"
  "steps P a b \<Longrightarrow> steps P a (b\<lparr>services := t\<rparr>)"
  "steps P a b \<Longrightarrow> clock b \<le> c \<Longrightarrow> ev b \<le> n \<Longrightarrow> steps P a (b\<lparr>clock := c, ev := n\<rparr>)"
  by (auto simp: steps_def)

interpretation q: kernel_closed "quiet P s" "\<lambda>e. housekeeping e \<or> P e" for P s
  by unfold_locales (auto simp: quiet_def emit_def log_at_def intro: steps_fields steps_emit [unfolded emit_def])

lemma services_quiet: "quiet P s s' \<Longrightarrow> services s' = services s"
  by (simp add: quiet_def)

lemma stop_one_quiet: "quiet (\<lambda>e. True) s (stop_one os p who s)"
  by (rule q.I_stop_one) simp_all

lemma services_frame [frame]:
  "services (log_at os l m s) = services s"
  "services (stop_one os p who s) = services s"
  "services (forget_name who s) = services s"
  "services (snd (now os s)) = services s"
  "services (snd (waitpid os p b s)) = services s"
  "services (sleep_d os d s) = services s"
  "services (kill p sig s) = services s"
  "services (kill_and_remove os who s) = services s"
  using services_quiet [OF stop_one_quiet] services_quiet [OF q.I_kill_and_remove [OF quiet_refl]]
  by (simp_all add: log_at_def forget_name_def now_def waitpid_def emit_def sleep_d_def deliver_def
      sleep_def kill_def Let_def deliver_all_frame)

lemma removed_pids_names:
  assumes "distinct (keys (services s))" "p \<in> set (removed_pids new s)" "(p, sv) \<in> set (services s)"
  shows "sd_name (sv_def sv) \<notin> sd_name ` set new"
proof -
  from assms(2) obtain b where b: "(p, b) \<in> set (services s)" "sd_name (sv_def b) \<notin> sd_name ` set new"
    by (auto simp: removed_pids_def)
  from eq_key_imp_eq_value [OF assms(1,3) b(1)] b(2) show ?thesis by simp
qed

subsection \<open>Predicates that also allow changes of the table\<close>

locale table_closed = kernel_closed +
  fixes good :: "nat \<Rightarrow> pid \<Rightarrow> supervised \<Rightarrow> bool" and removable :: "supervised \<Rightarrow> bool" and since :: nat
  assumes I_remove:
      "I s \<Longrightarrow> map_of (services s) p = Some sv \<Longrightarrow> removable sv \<Longrightarrow> I (remove_service p s)"
    and I_insert: "I s \<Longrightarrow> n < ev s \<Longrightarrow> good n p sv \<Longrightarrow> I (insert_service p sv s)"
    and I_since: "I s \<Longrightarrow> since \<le> ev s"
begin

text \<open>
  An entry is inserted after the interaction that spawned its process, whose number is the first
  argument of \<open>good\<close>. A definition may be started with a history when every table entry that can result
  is good.
\<close>

definition startable :: "os \<Rightarrow> service_def \<Rightarrow> instant list \<Rightarrow> bool" where
  "startable os d hist \<longleftrightarrow>
     (\<forall>n c p t. since \<le> n \<and> os_spawn os n c = Inr p \<longrightarrow>
        good n p \<lparr>sv_def = d, restart_times = hist, started_at = t\<rparr> \<and>
        good n p \<lparr>sv_def = fallback_shell, restart_times = [], started_at = t\<rparr>)"

lemma later: "kernel_closed (\<lambda>s. I s \<and> n < ev s) allowed"
  by unfold_locales (auto simp: emit_def log_at_def allowed_fs allowed_listener
      intro: I_time I_log [unfolded log_at_def] I_emit [unfolded emit_def] I_ready)

lemma spawn_Inr: "spawn os c s = (Inr p, t) \<Longrightarrow> os_spawn os (ev s) c = Inr p"
  by (auto simp: spawn_def Let_def)

lemmas later_flow = kernel_closed.I_flow [OF later] kernel_closed.I_ops [OF later]

lemma spawn_ev_Suc: "spawn os c s = (r, t) \<Longrightarrow> ev t = Suc (ev s)"
  by (auto simp: spawn_def emit_def Let_def)

lemma I_started':
  assumes "I s" "n < ev s" and st: "startable os d hist" "since \<le> n" "os_spawn os n c = Inr p"
  shows "I (started os d hist p s)"
proof -
  have "I (started os d hist p s) \<and> n < ev (started os d hist p s)"
  proof (rule kernel_closed.I_started [OF later])
    fix t u
    assume "I u \<and> n < ev u"
    with st show "I (insert_service p \<lparr>sv_def = d, restart_times = hist, started_at = t\<rparr> u) \<and>
        n < ev (insert_service p \<lparr>sv_def = d, restart_times = hist, started_at = t\<rparr> u)"
      by (auto simp: startable_def insert_service_def [of _ _ u] intro: I_insert [unfolded insert_service_def])
  qed (simp add: assms)
  then show ?thesis ..
qed

lemma I_spawn_fallback:
  assumes s: "I s" and st: "startable os d hist" and al: "\<And>c r. allowed (Spawn c r)"
  shows "I (spawn_fallback os s)"
proof -
  obtain r t where sp: "spawn os (command_new ''/bin/sh'') s = (r, t)" by fastforce
  with I_spawn [OF s, of "command_new ''/bin/sh''" os] al have t: "I t" by simp
  show ?thesis
  proof (cases r)
    case (Inl e)
    with sp t show ?thesis by (simp add: spawn_fallback_def)
  next
    case (Inr p)
    with sp have p: "os_spawn os (ev s) (command_new ''/bin/sh'') = Inr p" by (simp add: spawn_Inr)
    have n: "since \<le> ev s" using s by (rule I_since)
    have ins: "I (insert_service p \<lparr>sv_def = fallback_shell, restart_times = [], started_at = c\<rparr> u) \<and>
        ev s < ev (insert_service p \<lparr>sv_def = fallback_shell, restart_times = [], started_at = c\<rparr> u)"
      if "I u \<and> ev s < ev u" for c u
      using that st n p by (auto simp: startable_def insert_service_def intro: I_insert [unfolded insert_service_def])
    have "I t \<and> ev s < ev t" using t sp by (simp add: spawn_ev_Suc)
    then have "I (spawn_fallback os s) \<and> ev s < ev (spawn_fallback os s)"
      unfolding spawn_fallback_def Let_def sp Inr prod.case sum.case
      by (intro later_flow kernel_closed.I_create_for [OF later] kernel_closed.I_attach [OF later] ins)
    then show ?thesis ..
  qed
qed

lemma I_spawn_with_history:
  assumes s: "I s" and st: "startable os d hist" and al: "\<And>c r. allowed (Spawn c r)"
  shows "I (spawn_with_history os d hist s)"
proof -
  have 1: "I (case r of Inr p \<Rightarrow> started os d hist p t
      | Inl e \<Rightarrow> (let t = log_at os Error (m e) t in if sd_critical d then spawn_fallback os t else t))"
    if "spawn os c u = (r, t)" "I u" "I t" for r t c u m
    using that(1) I_started' [OF that(3) _ st I_since [OF that(2)]] I_spawn_fallback [OF I_log [OF that(3)] st al]
      I_log [OF that(3)]
    by (cases r) (auto simp: Let_def spawn_ev_Suc dest: spawn_Inr)
  have 2: "I (case spawn os c u of (r, t) \<Rightarrow> (case r of Inr p \<Rightarrow> started os d hist p t
      | Inl e \<Rightarrow> (let t = log_at os Error (m e) t in if sd_critical d then spawn_fallback os t else t)))"
    if "I u" for c u m
    using I_spawn [where c = c and os = os, OF that al] 1 [OF _ that] by (cases "spawn os c u") simp
  show ?thesis
    unfolding spawn_with_history_def Let_def
    using s 2 [unfolded Let_def]
    by (intro I_seq [OF I_resolve_identity] I_seq [OF I_listen_for] I_uncurry I_forget) simp_all
qed

lemma I_remove_any:
  assumes "I s" "\<And>sv. removable sv" shows "I (remove_service p s)"
proof (cases "map_of (services s) p")
  case None
  then have "AList.delete p (services s) = services s" by (simp add: map_of_eq_None_iff)
  then have "remove_service p s = s" by (simp add: remove_service_def)
  with assms(1) show ?thesis by simp
next
  case (Some sv)
  with assms show ?thesis by (blast intro: I_remove)
qed

lemma I_handle_exit:
  assumes s: "I s" and rem: "\<And>sv. removable sv" and al: "\<And>c r. allowed (Spawn c r)"
    and st: "\<And>p sv t. map_of (services s) p = Some sv \<Longrightarrow> \<not> sd_critical (sv_def sv) \<Longrightarrow>
      length (prune_restarts t (restart_times sv)) \<le> MAX_RESTARTS_IN_WINDOW \<Longrightarrow>
      startable os (sv_def sv) (prune_restarts t (restart_times sv))"
  shows "I (snd (handle_exit os status s))"
proof (cases "exit_summary status")
  case None
  then show ?thesis using s by (simp add: handle_exit_def)
next
  case es: (Some ps)
  obtain p summary where ps: "ps = (p, summary)" by fastforce
  show ?thesis
  proof (cases "map_of (services s) p")
    case None
    then show ?thesis using s es ps by (simp add: handle_exit_def)
  next
    case (Some sv)
    have r: "I (remove_service p s)" using s Some rem by (rule I_remove)
    show ?thesis
      unfolding handle_exit_def es ps option.case prod.case Some Let_def
      using st [OF Some]
      by (intro I_flow I_ops I_kill_and_remove r I_spawn_with_history al) (simp_all add: not_less)
  qed
qed

lemma I_wait_all: "I s \<Longrightarrow> I (fold (\<lambda>dep. wait_for_ready os dep timeout) deps s)"
  by (induction deps arbitrary: s) (simp_all add: I_wait_for_ready)

lemma I_spawn_loop:
  "I s \<Longrightarrow> (\<And>d. d \<in> set ds \<Longrightarrow> startable os d []) \<Longrightarrow> (\<And>c r. allowed (Spawn c r)) \<Longrightarrow>
   I (snd (spawn_loop os configured ds spawned s))"
  by (induction ds arbitrary: spawned s)
    (simp_all add: Let_def I_log I_wait_all I_spawn_with_history)

text \<open>Signals and waits are only sent to a process that was in the table and may be removed.\<close>

definition stoppable :: bool where
  "stoppable \<longleftrightarrow>
     (\<forall>u p sv sig r. I u \<longrightarrow> map_of (services u) p = Some sv \<longrightarrow> removable sv \<longrightarrow>
        allowed (Kill p sig) \<and> allowed (Wait p True r))"

lemma I_stop_removed:
  assumes al: stoppable
  shows "I s \<Longrightarrow>
    (\<And>p sv. p \<in> set ps \<Longrightarrow> (p, sv) \<in> set (services s) \<Longrightarrow> removable sv) \<Longrightarrow>
    I (stop_removed os ps s)"
proof (induction ps arbitrary: s)
  case Nil
  then show ?case by simp
next
  case (Cons p ps)
  show ?case
  proof (cases "map_of (services s) p")
    case None
    have "I (stop_removed os ps s)" using Cons.prems by (intro Cons.IH) auto
    with None show ?thesis by simp
  next
    case (Some sv)
    then have m: "(p, sv) \<in> set (services s)" by (rule map_of_SomeD)
    have r: "I (remove_service p s)" using Cons.prems(2) [OF _ m] by (auto intro: I_remove Cons.prems(1) Some)
    let ?t = "forget_name (sd_name (sv_def sv)) (stop_one os p (sd_name (sv_def sv))
      (log_at os Info (''reload: stopping removed service '' @ quote (sd_name (sv_def sv))) (remove_service p s)))"
    have "allowed (Kill p sig)" "allowed (Wait p True r)" for sig r
      using al Cons.prems(1) Some Cons.prems(2) [OF _ m] by (auto simp: stoppable_def)
    then have t: "I ?t" by (intro I_forget I_stop_one I_log r)
    have sub: "set (services ?t) \<subseteq> set (services s)"
      by (simp add: frame) (auto simp: remove_service_def in_set_delete)
    have "I (stop_removed os ps ?t)"
    proof (rule Cons.IH [OF t])
      fix p' sv'
      assume p': "p' \<in> set ps" and m': "(p', sv') \<in> set (services ?t)"
      show "removable sv'" using p' subsetD [OF sub m'] by (intro Cons.prems(2)) simp_all
    qed
    with Some show ?thesis by (simp add: Let_def)
  qed
qed

lemma I_reload_loop:
  assumes al: stoppable "\<And>c r. allowed (Spawn c r)"
  shows "I s \<Longrightarrow> (\<And>d. d \<in> set ds \<Longrightarrow> startable os d []) \<Longrightarrow>
    (\<And>d sv. d \<in> set ds \<Longrightarrow> sd_name (sv_def sv) = sd_name d \<Longrightarrow> \<not> defs_equal (sv_def sv) d \<Longrightarrow> removable sv) \<Longrightarrow>
    (\<And>u. I u \<Longrightarrow> distinct (keys (services u))) \<Longrightarrow>
    I (snd (reload_loop os ds s))"
proof (induction ds arbitrary: s)
  case Nil
  then show ?case by simp
next
  case (Cons d ds)
  have st: "startable os d []" using Cons.prems(2) by simp
  have IH: "I u \<Longrightarrow> I (snd (reload_loop os ds u))" for u
    using Cons.prems(2-4) by (intro Cons.IH) auto
  show ?case
  proof (cases "find_running (sd_name d) s")
    case None
    then show ?thesis
      using IH [OF I_spawn_with_history [OF I_log [OF Cons.prems(1)] st al(2)]]
      by (simp add: Let_def split_def)
  next
    case (Some psv)
    obtain p sv where psv: "psv = (p, sv)" by fastforce
    from Some have mem: "(p, sv) \<in> set (services s)" and nm: "sd_name (sv_def sv) = sd_name d"
      by (auto simp: find_running_def psv dest!: find_Some_mem)
    show ?thesis
    proof (cases "defs_equal (sv_def sv) d")
      case True
      then show ?thesis using Some psv IH [OF Cons.prems(1)] by simp
    next
      case False
      have rem: "removable sv" using Cons.prems(3) nm False by auto
      let ?l = "log_at os Info (''reload: restarting changed service '' @ quote (sd_name d)) s"
      have l: "I ?l" using Cons.prems(1) by (rule I_log)
      have m: "map_of (services ?l) p = Some sv"
        using mem Cons.prems(4) [OF Cons.prems(1)] by (simp add: frame)
      have r: "I (remove_service p ?l)" by (rule I_remove [OF l m rem])
      have "allowed (Kill p sig)" "allowed (Wait p True r)" for sig r
        using al(1) l m rem unfolding stoppable_def by blast+
      then have "I (spawn_with_history os d [] (stop_one os p (sd_name d) (remove_service p ?l)))"
        by (intro I_spawn_with_history I_stop_one st al r)
      from IH [OF this] show ?thesis
        using Some psv False by (simp add: Let_def split_def)
    qed
  qed
qed

lemma I_reload_services:
  assumes al: stoppable "\<And>c r. allowed (Spawn c r)"
    and s: "I s" and st: "\<And>d. d \<in> set new \<Longrightarrow> startable os d []"
    and dk: "\<And>u. I u \<Longrightarrow> distinct (keys (services u))"
    and gone: "\<And>sv. sd_name (sv_def sv) \<notin> sd_name ` set new \<Longrightarrow> removable sv"
    and changed: "\<And>d sv. d \<in> set new \<Longrightarrow> sd_name (sv_def sv) = sd_name d \<Longrightarrow>
      \<not> defs_equal (sv_def sv) d \<Longrightarrow> removable sv"
  shows "I (snd (reload_services os new s))"
  unfolding reload_services_def
proof (intro I_reload_loop I_stop_removed al s st dk)
  fix p sv
  assume "p \<in> set (removed_pids new s)" "(p, sv) \<in> set (services s)"
  from removed_pids_names [OF dk [OF s] this] show "removable sv" by (rule gone)
qed (auto intro: changed)

lemma I_sweep_names: "I s \<Longrightarrow> I (sweep_names os names s)"
  by (induction names arbitrary: s) (simp_all add: I_forget I_kill_and_remove)

lemma I_kill_stragglers:
  "(\<And>p sig. allowed (Kill p sig)) \<Longrightarrow> I s \<Longrightarrow> I (kill_stragglers os ps s)"
  by (induction ps arbitrary: s) (simp_all add: I_kill I_log)

lemma I_spawn_all:
  "I s \<Longrightarrow> (\<And>d. d \<in> set (fst (topological_order (effective_after defs))) \<Longrightarrow> startable os d []) \<Longrightarrow>
   (\<And>c r. allowed (Spawn c r)) \<Longrightarrow> I (spawn_all os defs s)"
  unfolding spawn_all_def topological_order_logged_def Let_def
  by (cases "topological_order (effective_after defs)") (auto intro!: I_spawn_loop I_log)

end

subsection \<open>Instances\<close>

text \<open>What happened since a state; the table may have changed in any way.\<close>

interpretation st: table_closed "steps P s" "\<lambda>e. housekeeping e \<or> P e" "\<lambda>n p sv. True" "\<lambda>sv. True" 0 for P s
  by unfold_locales (auto simp: remove_service_def insert_service_def emit_def log_at_def
      intro: steps_fields steps_emit [unfolded emit_def])

text \<open>Every entry of the table satisfies \<open>G\<close>, and no pid occurs twice.\<close>

definition table_all :: "(supervised \<Rightarrow> bool) \<Rightarrow> 'a supervisor_scheme \<Rightarrow> bool" where
  "table_all G s \<longleftrightarrow> distinct (keys (services s)) \<and> (\<forall>e \<in> set (services s). G (snd e))"

interpretation tab: table_closed "table_all G" "\<lambda>e. True" "\<lambda>n p sv. G sv" "\<lambda>sv. True" 0 for G
  by unfold_locales
    (auto simp: table_all_def remove_service_def insert_service_def emit_def log_at_def in_set_delete
      in_set_update_distinct distinct_keys_delete distinct_keys_update)

text \<open>The entries \<open>K\<close> are still there and nothing was sent to their processes.\<close>

fun targets_pid :: "pid set \<Rightarrow> event \<Rightarrow> bool" where
  "targets_pid ps (Kill p sig) = (p \<in> ps)"
| "targets_pid ps (Wait p b r) = (p \<in> ps)"
| "targets_pid ps e = False"

definition kept ::
  "(pid \<times> supervised) set \<Rightarrow> 'a supervisor_scheme \<Rightarrow> 'a supervisor_scheme \<Rightarrow> bool" where
  "kept K s s' \<longleftrightarrow>
     distinct (keys (services s')) \<and> K \<subseteq> set (services s') \<and>
     steps (\<lambda>e. \<not> targets_pid (fst ` K) e) s s'"

lemma housekeeping_no_target: "housekeeping e \<Longrightarrow> \<not> targets_pid ps e"
  by (cases e) simp_all

lemma steps_ev: "steps P s s' \<Longrightarrow> ev s \<le> ev s'"
  by (simp add: steps_def)

interpretation kp: table_closed "kept K s" "\<lambda>e. \<not> targets_pid (fst ` K) e"
  "\<lambda>n p sv. p \<notin> fst ` K" "\<lambda>sv. sv \<notin> snd ` K" "ev s" for K s
proof (unfold_locales, goal_cases)
  case (7 u p sv)
  then have "fst e \<noteq> p" if "e \<in> K" for e
    using that by (cases e) (force simp: kept_def dest: map_of_SomeD eq_key_imp_eq_value)
  with 7 show ?case
    by (auto simp: kept_def remove_service_def in_set_delete distinct_keys_delete intro: steps_fields)
next
  case (8 u n p sv)
  have "K \<subseteq> set (AList.update p sv (services u))"
  proof
    fix x
    assume x: "x \<in> K"
    with 8 have "fst x \<noteq> p" "x \<in> set (services u)" by (auto simp: kept_def)
    with 8 show "x \<in> set (AList.update p sv (services u))"
      by (simp add: kept_def in_set_update_distinct)
  qed
  with 8 show ?case
    by (auto simp: kept_def insert_service_def distinct_keys_update intro: steps_fields)
next
  case (9 u)
  then show ?case by (auto simp: kept_def dest: steps_ev)
qed (auto simp: kept_def emit_def log_at_def intro: steps_fields steps_emit [unfolded emit_def])

lemma kp_stoppable: "kp.stoppable TYPE('a) K (s :: 'a supervisor_scheme)"
proof -
  have "p \<notin> fst ` K" if "kept K s u" "map_of (services u) p = Some sv" "sv \<notin> snd ` K"
    for p sv and u :: "'a supervisor_scheme"
  proof
    assume "p \<in> fst ` K"
    then obtain sv' where k: "(p, sv') \<in> K" by force
    with that have "sv' = sv" by (auto simp: kept_def dest: map_of_SomeD eq_key_imp_eq_value)
    with k that(3) show False by force
  qed
  then show ?thesis by (auto simp: kp.stoppable_def)
qed

lemma kept_refl: "distinct (keys (services s)) \<Longrightarrow> K \<subseteq> set (services s) \<Longrightarrow> kept K s s"
  by (simp add: kept_def)

end
