(* ===== verification/Sup_Facts.thy ===== *)
theory Sup_Facts
  imports Sup_Frames
begin

text \<open>
  The properties of the supervisor: the restart policy and its crash-loop bound, what starting a
  service can do to the table, what a reload keeps and what it reports, the order in which
  \<open>stop_one\<close> and \<open>shutdown_all\<close> act, and the watchdog.
\<close>

subsection \<open>The outcome of \<open>spawn_with_history\<close>\<close>

text \<open>
  Everything before the \<open>match cmd.spawn()\<close> leaves the table alone; after it the table is
  unchanged or has one entry more, for the service itself or for the rescue shell.
\<close>

lemma emit_quiet: "P e \<Longrightarrow> quiet P s (emit e s)"
  by (rule q.I_emit) simp_all

lemma started_table:
  "\<exists>t. services (started os d hist p s) =
     AList.update p \<lparr>sv_def = d, restart_times = hist, started_at = t\<rparr> (services s)"
proof -
  let ?P = "\<lambda>e. True"
  obtain u t where eq: "started os d hist p s = insert_service p \<lparr>sv_def = d, restart_times = hist, started_at = t\<rparr> u"
    and q: "quiet ?P s u"
  proof -
    let ?s1 = "log_at os Info (''started '' @ quote (sd_name d) @ '' ('' @ sd_path d @ '') as pid ''
      @ show_int p) s"
    let ?s2 = "attach os (sd_name d) p (snd (create_for os (sd_name d) (sd_memory_limit d) ?s1))"
    let ?s3 = "case sd_oom_score_adjust d of None \<Rightarrow> ?s2 | Some score \<Rightarrow> set_score_adjust os p score ?s2"
    have "quiet ?P s ?s3"
      by (intro q.I_flow q.I_attach q.I_create_for q.I_log q.I_score_adjust quiet_refl)
    then have "quiet ?P s (snd (now os ?s3))" by (rule q.I_now)
    moreover have "started os d hist p s =
      insert_service p \<lparr>sv_def = d, restart_times = hist, started_at = fst (now os ?s3)\<rparr> (snd (now os ?s3))"
      unfolding started_def Let_def split_def by (rule refl)
    ultimately show ?thesis by (rule that [rotated])
  qed
  then show ?thesis by (auto simp: insert_service_def quiet_def)
qed

lemma spawn_fallback_table:
  "services (spawn_fallback os s) = services s \<or>
   (\<exists>p t. os_spawn os (ev s) (command_new ''/bin/sh'') = Inr p \<and> ev s < ev (spawn_fallback os s) \<and>
      services (spawn_fallback os s) =
        AList.update p \<lparr>sv_def = fallback_shell, restart_times = [], started_at = t\<rparr> (services s))"
proof -
  let ?P = "\<lambda>e. True"
  let ?c = "command_new ''/bin/sh''"
  show ?thesis
  proof (cases "os_spawn os (ev s) ?c")
    case (Inl e)
    then show ?thesis by (simp add: spawn_fallback_def spawn_def Let_def emit_def)
  next
    case (Inr p)
    let ?s0 = "emit (Spawn ?c (Inr p)) s"
    let ?s1 = "log_at os Warn ''fell back to /bin/sh'' ?s0"
    let ?s2 = "attach os (sd_name fallback_shell) p (snd (create_for os (sd_name fallback_shell) None ?s1))"
    have "quiet ?P ?s0 ?s2"
      by (intro q.I_attach q.I_create_for q.I_log quiet_refl)
    then have "quiet ?P ?s0 (snd (now os ?s2))" by (rule q.I_now)
    then have "services (snd (now os ?s2)) = services s" "ev s < ev (snd (now os ?s2))"
      by (auto simp: quiet_def steps_def emit_def)
    moreover have "spawn_fallback os s =
      insert_service p \<lparr>sv_def = fallback_shell, restart_times = [], started_at = fst (now os ?s2)\<rparr> (snd (now os ?s2))"
      unfolding spawn_fallback_def spawn_def Let_def split_def Inr prod.sel sum.case by (rule refl)
    ultimately show ?thesis using Inr by (auto simp: insert_service_def)
  qed
qed

text \<open>The entry that a start of \<open>d\<close> with history \<open>hist\<close> can put in the table.\<close>

definition entry_for :: "service_def \<Rightarrow> instant list \<Rightarrow> supervised \<Rightarrow> bool" where
  "entry_for d hist sv \<longleftrightarrow>
     sv_def sv = d \<and> restart_times sv = hist \<or>
     sd_critical d \<and> sv_def sv = fallback_shell \<and> restart_times sv = []"

definition added :: "os \<Rightarrow> (supervised \<Rightarrow> bool) \<Rightarrow> 'a supervisor_scheme \<Rightarrow> 'a supervisor_scheme \<Rightarrow> bool" where
  "added os G s s' \<longleftrightarrow>
     (\<exists>n c p sv. ev s \<le> n \<and> n < ev s' \<and> os_spawn os n c = Inr p \<and> G sv \<and>
        services s' = AList.update p sv (services s))"

lemma added_mono: "added os G s s' \<Longrightarrow> (\<And>sv. G sv \<Longrightarrow> H sv) \<Longrightarrow> added os H s s'"
  unfolding added_def by blast

lemma started_steps: "steps (\<lambda>e. True) s (started os d hist p s)"
  by (rule st.I_started) (auto simp: insert_service_def intro: steps_fields)

lemma emit_ev: "ev (emit e s) = Suc (ev s)"
  by (simp add: emit_def)

lemma spawn_fallback_steps: "steps (\<lambda>e. True) s (spawn_fallback os s)"
  by (rule st.I_spawn_fallback [where d = fallback_shell and hist = "[]"]) (simp_all add: st.startable_def)

lemma spawn_with_history_split:
  fixes s :: "'a supervisor_scheme"
  obtains sock uid gid s2 where
    "quiet P s s2"
    "spawn_with_history os d hist s =
       (case os_spawn os (ev s2) (service_command d sock uid gid) of
          Inr p \<Rightarrow> started os d hist p (emit (Spawn (service_command d sock uid gid) (Inr p)) s2)
        | Inl e \<Rightarrow>
            (let s3 = log_at os Error (''failed to start '' @ quote (sd_name d) @ '' ('' @ sd_path d @ ''): '' @ e)
               (emit (Spawn (service_command d sock uid gid) (Inl e)) s2)
             in if sd_critical d then spawn_fallback os s3 else s3))"
proof -
  obtain uid gid s1 where r: "resolve_identity os d s = ((uid, gid), s1)" by (metis prod.exhaust)
  obtain sock s2 where l: "listen_for os (sd_name d) uid gid (forget_name (sd_name d) s1) = (sock, s2)"
    by fastforce
  have "quiet P s s1" using q.I_resolve_identity [of P s s os d] r by simp
  then have q2: "quiet P s s2"
    using q.I_listen_for [of P s "forget_name (sd_name d) s1" os "sd_name d" uid gid] l
    by (simp add: q.I_forget)
  show ?thesis
    by (rule that [OF q2, of sock uid gid])
      (simp add: spawn_with_history_def r l spawn_def Let_def split: sum.split)
qed

lemma started_added:
  assumes "ev s \<le> ev s2" "services s2 = services s" "os_spawn os (ev s2) c = Inr p"
    and G: "\<And>t. G \<lparr>sv_def = d, restart_times = hist, started_at = t\<rparr>"
  shows "added os G s (started os d hist p (emit (Spawn c (Inr p)) s2))"
proof -
  let ?s' = "started os d hist p (emit (Spawn c (Inr p)) s2)"
  obtain t where "services ?s' = AList.update p \<lparr>sv_def = d, restart_times = hist, started_at = t\<rparr> (services s)"
    using started_table [of os d hist p "emit (Spawn c (Inr p)) s2"] assms(2) by (auto simp: emit_def)
  moreover have "ev s2 < ev ?s'"
    using steps_ev [OF started_steps, of "emit (Spawn c (Inr p)) s2" os d hist p] by (simp add: emit_ev)
  ultimately show ?thesis using assms unfolding added_def by blast
qed

lemma spawn_with_history_table:
  fixes os d hist and s :: "'a supervisor_scheme"
  defines "s' \<equiv> spawn_with_history os d hist s"
  shows "services s' = services s \<or> added os (entry_for d hist) s s'"
proof -
  obtain sock uid gid s2 where q: "quiet (\<lambda>e. True) s s2" and eq: "s' =
     (case os_spawn os (ev s2) (service_command d sock uid gid) of
        Inr p \<Rightarrow> started os d hist p (emit (Spawn (service_command d sock uid gid) (Inr p)) s2)
      | Inl e \<Rightarrow>
          (let s3 = log_at os Error (''failed to start '' @ quote (sd_name d) @ '' ('' @ sd_path d @ ''): '' @ e)
             (emit (Spawn (service_command d sock uid gid) (Inl e)) s2)
           in if sd_critical d then spawn_fallback os s3 else s3))"
    unfolding s'_def by (rule spawn_with_history_split)
  let ?c = "service_command d sock uid gid"
  have e2: "ev s \<le> ev s2" and t2: "services s2 = services s"
    using q by (simp_all add: quiet_def steps_def)
  show ?thesis
  proof (cases "os_spawn os (ev s2) ?c")
    case (Inr p)
    have "added os (entry_for d hist) s s'"
      unfolding eq Inr sum.case by (rule started_added [OF e2 t2 Inr]) (simp add: entry_for_def)
    then show ?thesis ..
  next
    case (Inl e)
    obtain s3 where eq: "s' = (if sd_critical d then spawn_fallback os s3 else s3)"
      and t3: "services s3 = services s" "ev s3 = Suc (ev s2)"
    proof (rule that)
      let ?m = "''failed to start '' @ quote (sd_name d) @ '' ('' @ sd_path d @ ''): '' @ e"
      show "s' = (if sd_critical d then spawn_fallback os (log_at os Error ?m (emit (Spawn ?c (Inl e)) s2))
          else log_at os Error ?m (emit (Spawn ?c (Inl e)) s2))"
        using Inl by (simp add: eq Let_def)
    qed (use t2 in \<open>simp_all add: frame emit_def\<close>)
    show ?thesis
    proof (cases "sd_critical d \<and> services s' \<noteq> services s")
      case False
      then show ?thesis using eq t3 by auto
    next
      case True
      with eq have s': "s' = spawn_fallback os s3" by simp
      from True spawn_fallback_table [of os s3] obtain p t where
        p: "os_spawn os (ev s3) (command_new ''/bin/sh'') = Inr p" "ev s3 < ev s'"
        and tab: "services s' = AList.update p \<lparr>sv_def = fallback_shell, restart_times = [], started_at = t\<rparr> (services s)"
        by (auto simp: s' t3)
      have "added os (entry_for d hist) s s'"
        unfolding added_def using True p tab e2 t3(2)
        by (intro exI [of _ "ev s3"] exI [of _ "command_new ''/bin/sh''"] exI [of _ p]
          exI [of _ "\<lparr>sv_def = fallback_shell, restart_times = [], started_at = t\<rparr>"])
          (simp add: entry_for_def)
      then show ?thesis ..
    qed
  qed
qed

lemma spawn_with_history_succeeds:
  assumes "spawns_succeed os"
  shows "added os (\<lambda>sv. sv_def sv = d \<and> restart_times sv = hist) s (spawn_with_history os d hist s)"
proof -
  obtain sock uid gid s2 where q: "quiet (\<lambda>e. True) s s2" and eq: "spawn_with_history os d hist s =
     (case os_spawn os (ev s2) (service_command d sock uid gid) of
        Inr p \<Rightarrow> started os d hist p (emit (Spawn (service_command d sock uid gid) (Inr p)) s2)
      | Inl e \<Rightarrow>
          (let s3 = log_at os Error (''failed to start '' @ quote (sd_name d) @ '' ('' @ sd_path d @ ''): '' @ e)
             (emit (Spawn (service_command d sock uid gid) (Inl e)) s2)
           in if sd_critical d then spawn_fallback os s3 else s3))"
    by (rule spawn_with_history_split)
  obtain p where p: "os_spawn os (ev s2) (service_command d sock uid gid) = Inr p"
    using assms by (cases "os_spawn os (ev s2) (service_command d sock uid gid)")
      (auto simp: spawns_succeed_def)
  show ?thesis
    unfolding eq p sum.case using q
    by (intro started_added [OF _ _ p]) (simp_all add: quiet_def steps_def)
qed

lemma spawn_with_history_steps: "steps (\<lambda>e. True) s (spawn_with_history os d hist s)"
  by (rule st.I_spawn_with_history) (simp_all add: st.startable_def)

lemma spawn_with_history_keys:
  "distinct (keys (services s)) \<Longrightarrow> distinct (keys (services (spawn_with_history os d hist s)))"
  using spawn_with_history_table [of os d hist s] by (auto simp: added_def distinct_keys_update)

text \<open>What is running, by name.\<close>

lemma running_names_set: "set (running_names s) = (\<lambda>e. sd_name (sv_def (snd e))) ` set (services s)"
  by (force simp: running_names_def)

lemma name_fallback_shell: "sd_name fallback_shell = ''shell''"
  by (simp add: fallback_shell_def)

lemma spawn_with_history_names:
  "set (running_names (spawn_with_history os d hist s)) \<subseteq>
     insert (sd_name d) (insert ''shell'' (set (running_names s)))"
  using spawn_with_history_table [of os d hist s] set_update_subset
  by (fastforce simp: added_def running_names_set entry_for_def name_fallback_shell)

subsection \<open>Exits and the restart policy\<close>

text \<open>The state after the unconditional part of \<open>handle_exit\<close>: entry removed, cgroup swept.\<close>

definition exited :: "os \<Rightarrow> pid \<Rightarrow> string \<Rightarrow> supervised \<Rightarrow> 'a supervisor_scheme \<Rightarrow> 'a supervisor_scheme" where
  "exited os p summary sv s =
     forget_name (sd_name (sv_def sv))
       (kill_and_remove os (sd_name (sv_def sv))
         (log_at os Warn (''service '' @ quote (sd_name (sv_def sv)) @ '' '' @ summary)
           (remove_service p s)))"

lemma exited_steps: "steps P s (exited os p summary sv s)"
  unfolding exited_def
  by (intro st.I_forget st.I_kill_and_remove st.I_log st.I_remove_any steps_refl) simp

lemma services_exited: "services (exited os p summary sv s) = AList.delete p (services s)"
  by (simp add: exited_def frame remove_service_def)

lemma handle_exit_tracked:
  assumes "exit_summary status = Some (p, summary)" "map_of (services s) p = Some sv"
  shows "handle_exit os status s =
    (let d = sv_def sv; s1 = exited os p summary sv s in
     if sd_critical d then (Halt (sd_name d), s1)
     else if should_restart (sd_restart d) status
     then (let (t, s2) = now os s1; hist = prune_restarts t (restart_times sv)
           in if length hist > MAX_RESTARTS_IN_WINDOW
              then (GaveUp (sd_name d),
                    log_at os Error (''service '' @ quote (sd_name d) @ '' restarted ''
                      @ show_nat (length hist) @ '' times within 10s, giving up'') s2)
              else (Continue, spawn_with_history os d hist s2))
     else (Continue, s1))"
  using assms unfolding handle_exit_def exited_def Let_def by simp

lemma handle_exit_untracked_id:
  "exit_summary status = None \<or> fst (the (exit_summary status)) \<notin> set (keys (services s)) \<Longrightarrow>
   handle_exit os status s = (Continue, s)"
  by (auto simp: handle_exit_def split: option.splits dest: map_of_SomeD intro: image_eqI)
    (force dest!: map_of_SomeD)+

lemma prune_Suc: "length (prune_restarts t hist) = Suc (length (filter (\<lambda>r. t - r < BACKOFF_WINDOW) hist))"
  by (simp add: prune_restarts_def duration_since_def)

text \<open>The instant at which \<open>handle_exit\<close> takes its decision.\<close>

definition decision_time :: "os \<Rightarrow> pid \<Rightarrow> string \<Rightarrow> supervised \<Rightarrow> 'a supervisor_scheme \<Rightarrow> instant" where
  "decision_time os p summary sv s = fst (now os (exited os p summary sv s))"

lemma decision_time_ge: "clock s \<le> decision_time os p summary sv s"
proof -
  have "clock s \<le> clock (exited os p summary sv s)"
    using exited_steps [of "\<lambda>e. True" s os p summary sv] by (simp add: steps_def)
  then show ?thesis by (simp add: decision_time_def now_def Let_def)
qed

lemma handle_exit_outcome:
  fixes os and s :: "'a supervisor_scheme"
  assumes "exit_summary status = Some (p, summary)" "map_of (services s) p = Some sv"
  defines "d \<equiv> sv_def sv"
    and "recent_restarts \<equiv> filter (\<lambda>r. decision_time os p summary sv s - r < BACKOFF_WINDOW) (restart_times sv)"
  shows "fst (handle_exit os status s) =
    (if sd_critical d then Halt (sd_name d)
     else if should_restart (sd_restart d) status \<and> MAX_RESTARTS_IN_WINDOW \<le> length recent_restarts
     then GaveUp (sd_name d) else Continue)"
  unfolding handle_exit_tracked [OF assms(1,2)] Let_def d_def recent_restarts_def decision_time_def
  by (simp add: split_def prune_Suc less_Suc_eq_le)

lemma handle_exit_no_respawn:
  assumes t: "exit_summary status = Some (p, summary)" "map_of (services s) p = Some sv"
    and none: "fst (handle_exit os status s) \<noteq> Continue \<or> \<not> should_restart (sd_restart (sv_def sv)) status"
  shows "steps (\<lambda>e. False) s (snd (handle_exit os status s))"
    "services (snd (handle_exit os status s)) = AList.delete p (services s)"
  using none unfolding handle_exit_tracked [OF t] Let_def
  by (auto simp: split_def frame services_exited st.I_now st.I_log exited_steps split: if_splits)

lemma handle_exit_respawn:
  assumes t: "exit_summary status = Some (p, summary)" "map_of (services s) p = Some sv"
    and c: "fst (handle_exit os status s) = Continue" and r: "should_restart (sd_restart (sv_def sv)) status"
  shows "\<not> sd_critical (sv_def sv)"
    "\<exists>s1. services s1 = AList.delete p (services s) \<and> steps (\<lambda>e. False) s s1 \<and>
      snd (handle_exit os status s) = spawn_with_history os (sv_def sv)
        (prune_restarts (decision_time os p summary sv s) (restart_times sv)) s1"
  using c r unfolding handle_exit_tracked [OF t] Let_def decision_time_def
   apply (auto simp: split_def split: if_splits)
  apply (rule exI [of _ "snd (now os (exited os p summary sv s))"])
  by (simp add: frame services_exited st.I_now exited_steps)

subsection \<open>The crash-loop bound\<close>

text \<open>
  The restarts of one service at the instants \<open>ts\<close>, each with the history the one before it
  left in the table: \<open>None\<close> when one of them is refused.
\<close>

fun grant :: "instant list \<Rightarrow> instant list \<Rightarrow> instant list option" where
  "grant hist [] = Some hist"
| "grant hist (t # ts) =
     (let h = prune_restarts t hist in if length h > MAX_RESTARTS_IN_WINDOW then None else grant h ts)"

definition window :: "instant list \<Rightarrow> instant \<Rightarrow> instant list" where
  "window hist t = filter (\<lambda>r. t - r < BACKOFF_WINDOW) hist"

lemma BACKOFF_WINDOW_pos: "0 < BACKOFF_WINDOW"
  by (simp add: BACKOFF_WINDOW_def from_secs_def)

lemma prune_window: "u \<le> t \<Longrightarrow> prune_restarts t (window hist u) = window (hist @ [t]) t"
  using BACKOFF_WINDOW_pos
  by (auto simp: prune_restarts_def window_def duration_since_def intro: filter_cong)

lemma grant_window:
  "\<forall>t \<in> set ts. u \<le> t \<Longrightarrow> sorted ts \<Longrightarrow>
   grant (window hist u) ts =
     (if \<forall>i < length ts. length (window (hist @ take (Suc i) ts) (ts ! i)) \<le> MAX_RESTARTS_IN_WINDOW
      then Some (window (hist @ ts) (last (u # ts))) else None)"
proof (induction ts arbitrary: hist u)
  case Nil
  then show ?case by simp
next
  case (Cons t ts)
  have IH: "grant (window (hist @ [t]) t) ts =
     (if \<forall>i < length ts. length (window ((hist @ [t]) @ take (Suc i) ts) (ts ! i)) \<le> MAX_RESTARTS_IN_WINDOW
      then Some (window ((hist @ [t]) @ ts) (last (t # ts))) else None)"
    using Cons.prems by (intro Cons.IH) auto
  show ?case
    using Cons.prems
    by (simp add: prune_window Let_def IH All_less_Suc2)
qed

lemma sorted_filter_length:
  assumes mono: "\<And>a b. P a \<Longrightarrow> a \<le> b \<Longrightarrow> P b"
  shows "sorted xs \<Longrightarrow> m < length (filter P xs) \<longleftrightarrow> m < length xs \<and> P (xs ! (length xs - Suc m))"
proof (induction xs arbitrary: m rule: rev_induct)
  case Nil
  then show ?case by simp
next
  case (snoc x xs)
  show ?case
  proof (cases "P x")
    case True
    with snoc show ?thesis by (cases m) (auto simp: nth_append sorted_append)
  next
    case False
    with snoc.prems mono have "\<forall>y \<in> set (xs @ [x]). \<not> P y" by (auto simp: sorted_append)
    then show ?thesis using nth_mem [of "length (xs @ [x]) - Suc m" "xs @ [x]"]
      by (auto simp: filter_empty_conv)
  qed
qed

text \<open>All restarts are granted exactly when no six of them fall into one window.\<close>

lemma grant_iff:
  assumes "sorted ts"
  shows "grant [] ts \<noteq> None \<longleftrightarrow>
    (\<forall>i. i + MAX_RESTARTS_IN_WINDOW < length ts \<longrightarrow>
       BACKOFF_WINDOW \<le> ts ! (i + MAX_RESTARTS_IN_WINDOW) - ts ! i)"
proof -
  let ?m = MAX_RESTARTS_IN_WINDOW
  have one: "length (window (take (Suc i) ts) (ts ! i)) \<le> ?m \<longleftrightarrow>
      (?m \<le> i \<longrightarrow> BACKOFF_WINDOW \<le> ts ! i - ts ! (i - ?m))" if "i < length ts" for i
  proof -
    have "?m < length (window (take (Suc i) ts) (ts ! i)) \<longleftrightarrow>
        ?m < Suc i \<and> ts ! i - take (Suc i) ts ! (Suc i - Suc ?m) < BACKOFF_WINDOW"
      unfolding window_def using that assms
      by (subst sorted_filter_length) (auto simp: sorted_wrt_take)
    also have "\<dots> \<longleftrightarrow> ?m \<le> i \<and> ts ! i - ts ! (i - ?m) < BACKOFF_WINDOW" by auto
    finally show ?thesis by auto
  qed
  have "grant [] ts = (if \<forall>i < length ts. length (window (take (Suc i) ts) (ts ! i)) \<le> ?m
      then Some (window ts (last (0 # ts))) else None)"
    using grant_window [of ts 0 "[]"] assms by (simp add: window_def)
  then have "grant [] ts \<noteq> None \<longleftrightarrow>
      (\<forall>i < length ts. ?m \<le> i \<longrightarrow> BACKOFF_WINDOW \<le> ts ! i - ts ! (i - ?m))"
    using one by auto
  also have "\<dots> \<longleftrightarrow> (\<forall>i. i + ?m < length ts \<longrightarrow> BACKOFF_WINDOW \<le> ts ! (i + ?m) - ts ! i)"
    by (metis add_diff_cancel_right' le_add2 le_add_diff_inverse2)
  finally show ?thesis .
qed

subsection \<open>Reloading\<close>

text \<open>The entries whose definition is in the new configuration, unchanged.\<close>

definition unchanged :: "service_def list \<Rightarrow> (pid \<times> supervised) list \<Rightarrow> (pid \<times> supervised) set" where
  "unchanged new table =
     {e \<in> set table. \<exists>d \<in> set new. sd_name d = sd_name (sv_def (snd e)) \<and> defs_equal (sv_def (snd e)) d}"

lemma reload_keeps:
  fixes s :: "'a supervisor_scheme"
  assumes "distinct (keys (services s))" "distinct (map sd_name new)"
    and fresh: "fresh_from os (ev s) (fst ` unchanged new (services s))"
  shows "kept (unchanged new (services s)) s (snd (reload_services os new s))"
proof -
  let ?K = "unchanged new (services s)"
  have K: "\<exists>d \<in> set new. sd_name d = sd_name (sv_def sv) \<and> defs_equal (sv_def sv) d" if "sv \<in> snd ` ?K" for sv
    using that by (auto simp: unchanged_def)
  show ?thesis
  proof (rule kp.I_reload_services)
    show "kp.stoppable TYPE('a) ?K s" by (rule kp_stoppable)
    show "kept ?K s s" using assms(1) by (intro kept_refl) (auto simp: unchanged_def)
    show "kp.startable TYPE('a) ?K s os d []" for d using fresh by (auto simp: kp.startable_def fresh_from_def)
    show "distinct (keys (services u))" if "kept ?K s u" for u :: "'a supervisor_scheme"
      using that by (simp add: kept_def)
    show "sv \<notin> snd ` ?K" if "sd_name (sv_def sv) \<notin> sd_name ` set new" for sv
      using that K [of sv] by (metis image_eqI)
    show "sv \<notin> snd ` ?K"
      if d: "d \<in> set new" "sd_name (sv_def sv) = sd_name d" "\<not> defs_equal (sv_def sv) d" for d sv
    proof
      assume "sv \<in> snd ` ?K"
      then obtain d' where "d' \<in> set new" "sd_name d' = sd_name d" "defs_equal (sv_def sv) d'"
        using K d(2) by metis
      moreover then have "d' = d" using assms(2) d(1) by (auto simp: distinct_map dest: inj_onD)
      ultimately show False using d(3) by simp
    qed
  qed simp
qed

lemma stop_removed_services:
  "services (stop_removed os ps s) = fold AList.delete ps (services s)"
proof (induction ps arbitrary: s)
  case Nil
  then show ?case by simp
next
  case (Cons p ps)
  show ?case
  proof (cases "map_of (services s) p")
    case None
    then have "AList.delete p (services s) = services s" by (simp add: map_of_eq_None_iff)
    with Cons None show ?thesis by simp
  next
    case (Some sv)
    with Cons show ?thesis by (simp add: Let_def frame remove_service_def)
  qed
qed

lemma set_fold_delete: "set (fold AList.delete ps m) = {e \<in> set m. fst e \<notin> set ps}"
  by (induction ps arbitrary: m) (auto simp: in_set_delete)

lemma keys_fold_delete: "distinct (keys m) \<Longrightarrow> distinct (keys (fold AList.delete ps m))"
  by (induction ps arbitrary: m) (simp_all add: distinct_keys_delete)

lemma after_stop_removed:
  "set (running_names (stop_removed os (removed_pids new s) s)) \<subseteq> sd_name ` set new"
  unfolding running_names_set stop_removed_services set_fold_delete
  by (auto simp: removed_pids_def)


text \<open>One round of the loop: the definition is skipped, or it is (re)started in a state \<open>u\<close>.\<close>

definition up_to_date :: "(pid \<times> supervised) list \<Rightarrow> service_def \<Rightarrow> bool" where
  "up_to_date table d =
     (case List.find (\<lambda>(p, sv). sd_name (sv_def sv) = sd_name d) table of
        None \<Rightarrow> False
      | Some (p, sv) \<Rightarrow> defs_equal (sv_def sv) d)"

lemma find_filter: "\<forall>x \<in> set m. P x \<longrightarrow> Q x \<Longrightarrow> List.find P (filter Q m) = List.find P m"
  by (induction m) auto

lemma find_delete:
  "\<forall>v. (k, v) \<in> set m \<longrightarrow> \<not> P (k, v) \<Longrightarrow> List.find P (AList.delete k m) = List.find P m"
  unfolding AList.delete_eq by (rule find_filter) auto

lemma find_update:
  "\<forall>v. (k, v) \<in> set m \<longrightarrow> \<not> P (k, v) \<Longrightarrow> \<not> P (k, w) \<Longrightarrow>
   List.find P (AList.update k w m) = List.find P m"
  by (induction m) auto

lemma up_to_date_find:
  "up_to_date (services s) d \<longleftrightarrow>
     (\<exists>p sv. find_running (sd_name d) s = Some (p, sv) \<and> defs_equal (sv_def sv) d)"
  by (auto simp: up_to_date_def find_running_def split: option.split)

text \<open>No two entries for one service.\<close>

definition once_each :: "(pid \<times> supervised) list \<Rightarrow> bool" where
  "once_each table \<longleftrightarrow>
     (\<forall>e \<in> set table. \<forall>e' \<in> set table. sd_name (sv_def (snd e)) = sd_name (sv_def (snd e')) \<longrightarrow> e = e')"

lemma once_each_subset: "once_each table \<Longrightarrow> set table' \<subseteq> set table \<Longrightarrow> once_each table'"
  unfolding once_each_def by blast

lemma reload_loop_Cons:
  fixes s :: "'a supervisor_scheme"
  obtains (skip) "up_to_date (services s) d" "reload_loop os (d # ds) s = reload_loop os ds s"
  | (start) u :: "'a supervisor_scheme" where "\<not> up_to_date (services s) d"
      "set (services u) \<subseteq> set (services s)"
      "\<And>e. e \<in> set (services s) \<Longrightarrow> sd_name (sv_def (snd e)) \<noteq> sd_name d \<Longrightarrow>
         distinct (keys (services s)) \<Longrightarrow> e \<in> set (services u)"
      "\<And>n. n \<noteq> sd_name d \<Longrightarrow> distinct (keys (services s)) \<Longrightarrow> find_running n u = find_running n s"
      "distinct (keys (services s)) \<Longrightarrow> distinct (keys (services u))" "ev s \<le> ev u"
      "reload_loop os (d # ds) s = apfst ((#) (sd_name d)) (reload_loop os ds (spawn_with_history os d [] u))"
      "once_each (services s) \<Longrightarrow> sd_name d \<notin> set (running_names u)"
proof (cases "find_running (sd_name d) s")
  case None
  let ?u = "log_at os Info (''reload: starting new service '' @ quote (sd_name d)) s"
  have eq: "reload_loop os (d # ds) s =
      apfst ((#) (sd_name d)) (reload_loop os ds (spawn_with_history os d [] ?u))"
    unfolding reload_loop.simps None option.case Let_def by (simp add: split_def apfst_def map_prod_def)
  have none: "sd_name d \<notin> set (running_names ?u)"
    using None by (force simp: find_running_def find_None_iff running_names_set frame)
  show ?thesis
    by (rule start [OF _ _ _ _ _ _ eq none]) (use None in \<open>simp_all add: up_to_date_find frame find_running_def\<close>)
next
  case (Some psv)
  obtain p sv where psv: "psv = (p, sv)" by fastforce
  with Some have m: "(p, sv) \<in> set (services s)" "sd_name (sv_def sv) = sd_name d"
    by (auto simp: find_running_def dest!: find_Some_mem)
  show ?thesis
  proof (cases "defs_equal (sv_def sv) d")
    case True
    with Some psv show ?thesis by (intro skip) (auto simp: up_to_date_find)
  next
    case False
    let ?u = "stop_one os p (sd_name d)
      (remove_service p (log_at os Info (''reload: restarting changed service '' @ quote (sd_name d)) s))"
    have eq: "reload_loop os (d # ds) s =
        apfst ((#) (sd_name d)) (reload_loop os ds (spawn_with_history os d [] ?u))"
      unfolding reload_loop.simps Some psv option.case prod.case if_not_P [OF False] Let_def
      by (simp add: split_def apfst_def map_prod_def)
    have serv: "services ?u = AList.delete p (services s)" by (simp add: frame remove_service_def)
    have only: "sv' = sv" if "(p, sv') \<in> set (services s)" "distinct (keys (services s))" for sv'
      using eq_key_imp_eq_value [OF that(2,1) m(1)] .
    have "ev s \<le> ev ?u"
      using steps_ev [OF conjunct1 [OF stop_one_quiet [unfolded quiet_def]]]
      by (rule order_trans [rotated]) (simp add: frame remove_service_def)
    have fr: "find_running n ?u = find_running n s" if "n \<noteq> sd_name d" "distinct (keys (services s))" for n
      unfolding find_running_def serv using that(1) m(2) only [OF _ that(2)] by (intro find_delete) fastforce
    have stay: "e \<in> set (services ?u)"
      if "e \<in> set (services s)" "sd_name (sv_def (snd e)) \<noteq> sd_name d" "distinct (keys (services s))" for e
    proof -
      have "fst e \<noteq> p" using that(1,2) m(2) only [OF _ that(3), of "snd e"] by auto
      with that(1) show ?thesis unfolding serv by (simp add: in_set_delete)
    qed
    show ?thesis
    proof (rule start [OF _ _ stay fr _ \<open>ev s \<le> ev ?u\<close> eq])
      show "\<not> up_to_date (services s) d" using Some psv False by (simp add: up_to_date_find)
      show "set (services ?u) \<subseteq> set (services s)" unfolding serv by (auto simp: in_set_delete)
      show "distinct (keys (services s)) \<Longrightarrow> distinct (keys (services ?u))"
        unfolding serv by (rule distinct_keys_delete)
      show "sd_name d \<notin> set (running_names ?u)" if "once_each (services s)"
        unfolding running_names_set serv
      proof
        assume "sd_name d \<in> (\<lambda>e. sd_name (sv_def (snd e))) ` set (AList.delete p (services s))"
        then obtain e where e: "e \<in> set (services s)" "fst e \<noteq> p" "sd_name (sv_def (snd e)) = sd_name d"
          by (auto simp: in_set_delete)
        then have "e = (p, sv)" using that m unfolding once_each_def by (metis snd_conv)
        with e(2) show False by simp
      qed
    qed
  qed
qed

lemma reload_loop_names:
  "set (running_names (snd (reload_loop os ds s))) \<subseteq>
     set (running_names s) \<union> sd_name ` set ds \<union> {''shell''}"
proof (induction ds arbitrary: s)
  case Nil
  then show ?case by auto
next
  case (Cons d ds)
  show ?case
  proof (cases rule: reload_loop_Cons [of s d os ds])
    case skip
    with Cons.IH [of s] show ?thesis by auto
  next
    case (start u)
    let ?t = "spawn_with_history os d [] u"
    have "set (running_names u) \<subseteq> set (running_names s)"
      using start(2) by (auto simp: running_names_set)
    then have "set (running_names ?t) \<subseteq> insert (sd_name d) (insert ''shell'' (set (running_names s)))"
      using spawn_with_history_names [of os d "[]" u] by blast
    with Cons.IH [of ?t] have "set (running_names (snd (reload_loop os ds ?t))) \<subseteq>
        set (running_names s) \<union> insert (sd_name d) (sd_name ` set ds) \<union> {''shell''}"
      by blast
    then show ?thesis unfolding start(7) by (simp add: apfst_def)
  qed
qed

text \<open>An entry not concerned by the rest of the loop survives it.\<close>

lemma spawn_keeps_entry:
  assumes "distinct (keys (services u))" "e \<in> set (services u)" "fresh_from os (ev u) {fst e}"
  shows "e \<in> set (services (spawn_with_history os d hist u))"
proof (cases "services (spawn_with_history os d hist u) = services u")
  case True
  then show ?thesis using assms by simp
next
  case False
  then obtain n c p sv where p: "ev u \<le> n" "os_spawn os n c = Inr p"
    "services (spawn_with_history os d hist u) = AList.update p sv (services u)"
    using spawn_with_history_table [of os d hist u] by (auto simp: added_def)
  from p(1,2) assms(3) have "p \<noteq> fst e" by (auto simp: fresh_from_def)
  then show ?thesis unfolding p(3) using assms by (simp add: in_set_update_distinct)
qed

lemma spawn_ev: "ev u \<le> ev (spawn_with_history os d hist u)"
  by (rule steps_ev [OF spawn_with_history_steps])

lemma reload_loop_retains:
  "distinct (keys (services s)) \<Longrightarrow> e \<in> set (services s) \<Longrightarrow>
   sd_name (sv_def (snd e)) \<notin> sd_name ` set ds \<Longrightarrow> fresh_from os (ev s) {fst e} \<Longrightarrow>
   e \<in> set (services (snd (reload_loop os ds s)))"
proof (induction ds arbitrary: s)
  case Nil
  then show ?case by simp
next
  case (Cons d ds)
  show ?case
  proof (cases rule: reload_loop_Cons [of s d os ds])
    case skip
    with Cons show ?thesis by auto
  next
    case (start u)
    then have u: "e \<in> set (services u)" "distinct (keys (services u))" "fresh_from os (ev u) {fst e}"
      using Cons.prems by (auto intro: fresh_from_mono)
    have "e \<in> set (services (snd (reload_loop os ds (spawn_with_history os d [] u))))"
      using Cons.prems(3) u
      by (intro Cons.IH spawn_keeps_entry spawn_with_history_keys fresh_from_mono [OF u(3) spawn_ev]) auto
    with start show ?thesis by simp
  qed
qed

text \<open>What a reload reports: the definitions that were not running unchanged, in order.\<close>

lemma reload_loop_touched:
  "distinct (keys (services s)) \<Longrightarrow> distinct (map sd_name ds) \<Longrightarrow>
   ''shell'' \<notin> sd_name ` set ds \<or> spawns_succeed os \<Longrightarrow>
   (\<forall>e \<in> set (services s). sd_name (sv_def (snd e)) \<in> sd_name ` set ds \<longrightarrow> fst e \<in> K) \<Longrightarrow>
   fresh_from os (ev s) K \<Longrightarrow>
   fst (reload_loop os ds s) = map sd_name (filter (\<lambda>d. \<not> up_to_date (services s) d) ds)"
proof (induction ds arbitrary: s)
  case Nil
  then show ?case by simp
next
  case (Cons d ds)
  show ?case
  proof (cases rule: reload_loop_Cons [of s d os ds])
    case skip
    with Cons.IH [of s] Cons.prems show ?thesis by auto
  next
    case (start u)
    let ?v = "spawn_with_history os d [] u"
    let ?ok = "\<lambda>sv. sd_name (sv_def sv) \<notin> sd_name ` set ds"
    have fr: "fresh_from os (ev u) K" "fresh_from os (ev ?v) K"
      using fresh_from_mono [OF Cons.prems(5)] start(6) spawn_ev [of u os d "[]"] order_trans by blast+
    have name: "?ok sv" if "entry_for d [] sv" "''shell'' \<notin> sd_name ` set ds" for sv
      using that Cons.prems(2) by (auto simp: entry_for_def name_fallback_shell)
    have "services ?v = services u \<or> added os ?ok u ?v"
    proof (cases "spawns_succeed os")
      case True
      from added_mono [OF spawn_with_history_succeeds [OF this, of d "[]" u], of ?ok] Cons.prems(2)
      show ?thesis by auto
    next
      case False
      with Cons.prems(3) have "''shell'' \<notin> sd_name ` set ds" by simp
      with spawn_with_history_table [of os d "[]" u] name show ?thesis by (blast intro: added_mono)
    qed
    then have tab: "services ?v = services u \<or> (\<exists>p sv. p \<notin> K \<and> ?ok sv \<and> services ?v = AList.update p sv (services u))"
      using fr(1) unfolding added_def fresh_from_def by blast
    have u: "fst e \<in> K" if "e \<in> set (services u)" "sd_name (sv_def (snd e)) \<in> sd_name ` set ds" for e
      using that start(2) Cons.prems(4) by auto
    have K: "\<forall>e \<in> set (services ?v). sd_name (sv_def (snd e)) \<in> sd_name ` set ds \<longrightarrow> fst e \<in> K"
      using tab u set_update_subset by fastforce
    have same: "up_to_date (services ?v) x = up_to_date (services s) x" if x: "x \<in> set ds" for x
    proof -
      have "sd_name x \<noteq> sd_name d" using Cons.prems(2) x by (force simp: image_iff)
      then have "find_running (sd_name x) u = find_running (sd_name x) s" by (rule start(4)) (rule Cons.prems(1))
      moreover have "find_running (sd_name x) ?v = find_running (sd_name x) u"
        using tab x u by (fastforce simp: find_running_def intro!: find_update)
      ultimately show ?thesis by (simp add: up_to_date_find)
    qed
    have "fst (reload_loop os ds ?v) = map sd_name (filter (\<lambda>x. \<not> up_to_date (services ?v) x) ds)"
      using Cons.prems(1-3) start(5) K fr(2) by (intro Cons.IH spawn_with_history_keys) auto
    also have "\<dots> = map sd_name (filter (\<lambda>x. \<not> up_to_date (services s) x) ds)"
      using same by (intro arg_cong [of _ _ "map sd_name"] filter_cong) auto
    finally show ?thesis using start by simp
  qed
qed

text \<open>After a reload nothing outside the new configuration runs, rescue shells apart.\<close>

lemma reload_names:
  "set (running_names (snd (reload_services os new s))) \<subseteq> sd_name ` set new \<union> {''shell''}"
  unfolding reload_services_def
  using reload_loop_names [of os new "stop_removed os (removed_pids new s) s"]
    after_stop_removed [of os new s] by blast

text \<open>When every spawn succeeds and pids are not reused, the new configuration is what runs.\<close>

lemma defs_equal_refl [simp]: "defs_equal d d"
  by (simp add: defs_equal_def)

lemma reload_loop_converges:
  assumes ok: "spawns_succeed os" and uniq: "pids_unique os"
  shows "distinct (keys (services s)) \<Longrightarrow> distinct (map sd_name ds) \<Longrightarrow>
    (\<forall>e \<in> set (services s). sd_name (sv_def (snd e)) \<in> sd_name ` set ds \<longrightarrow> fresh_from os (ev s) {fst e}) \<Longrightarrow>
    set (running_names (snd (reload_loop os ds s))) \<subseteq> set (running_names s) \<union> sd_name ` set ds \<and>
    (\<forall>d \<in> set ds. \<exists>e \<in> set (services (snd (reload_loop os ds s))).
       sd_name (sv_def (snd e)) = sd_name d \<and> defs_equal (sv_def (snd e)) d)"
proof (induction ds arbitrary: s)
  case Nil
  then show ?case by simp
next
  case (Cons d ds)
  show ?case
  proof (cases rule: reload_loop_Cons [of s d os ds])
    case skip
    then obtain p sv where "find_running (sd_name d) s = Some (p, sv)" and eqd: "defs_equal (sv_def sv) d"
      by (auto simp: up_to_date_find)
    then have m: "(p, sv) \<in> set (services s)" "sd_name (sv_def sv) = sd_name d"
      by (auto simp: find_running_def dest!: find_Some_mem)
    then have "fresh_from os (ev s) {p}" using Cons.prems(3) by fastforce
    then have "(p, sv) \<in> set (services (snd (reload_loop os ds s)))"
      using Cons.prems(1,2) m by (intro reload_loop_retains) auto
    moreover have "set (running_names (snd (reload_loop os ds s))) \<subseteq> set (running_names s) \<union> sd_name ` set ds \<and>
        (\<forall>d \<in> set ds. \<exists>e \<in> set (services (snd (reload_loop os ds s))).
           sd_name (sv_def (snd e)) = sd_name d \<and> defs_equal (sv_def (snd e)) d)"
      using Cons.prems by (intro Cons.IH) auto
    ultimately show ?thesis using skip(2) m(2) eqd by force
  next
    case (start u)
    let ?v = "spawn_with_history os d [] u"
    obtain n c p sv where v: "ev u \<le> n" "n < ev ?v" "os_spawn os n c = Inr p" "sv_def sv = d"
      "services ?v = AList.update p sv (services u)"
      using spawn_with_history_succeeds [OF ok, of d "[]" u] by (auto simp: added_def)
    have du: "distinct (keys (services u))" and dv: "distinct (keys (services ?v))"
      using start(5) Cons.prems(1) spawn_with_history_keys by auto
    have fp: "fresh_from os (ev ?v) {p}"
      using uniq v(2,3) unfolding fresh_from_def pids_unique_def by (metis less_le_trans singletonD)
    have mem: "(p, sv) \<in> set (services ?v)" using du by (simp add: v(5) in_set_update_distinct)
    have fr: "\<forall>e \<in> set (services ?v). sd_name (sv_def (snd e)) \<in> sd_name ` set ds \<longrightarrow> fresh_from os (ev ?v) {fst e}"
    proof (intro ballI impI)
      fix e
      assume e: "e \<in> set (services ?v)" and nm: "sd_name (sv_def (snd e)) \<in> sd_name ` set ds"
      show "fresh_from os (ev ?v) {fst e}"
      proof (cases "e = (p, sv)")
        case True
        then show ?thesis using fp by simp
      next
        case False
        with e du start(2) have "e \<in> set (services s)" by (auto simp: v(5) in_set_update_distinct)
        then have "fresh_from os (ev s) {fst e}" using Cons.prems(3) nm by auto
        then show ?thesis by (rule fresh_from_mono) (use start(6) spawn_ev [of u os d "[]"] in simp)
      qed
    qed
    have IH: "set (running_names (snd (reload_loop os ds ?v))) \<subseteq> set (running_names ?v) \<union> sd_name ` set ds \<and>
        (\<forall>d \<in> set ds. \<exists>e \<in> set (services (snd (reload_loop os ds ?v))).
           sd_name (sv_def (snd e)) = sd_name d \<and> defs_equal (sv_def (snd e)) d)"
      using Cons.prems(2) by (intro Cons.IH dv fr) simp
    have "(p, sv) \<in> set (services (snd (reload_loop os ds ?v)))"
      using Cons.prems(2) v(4) fp by (intro reload_loop_retains dv mem) auto
    moreover have "set (running_names ?v) \<subseteq> insert (sd_name d) (set (running_names s))"
      using start(2) v(4) du by (auto simp: running_names_set v(5) in_set_update_distinct)
    ultimately show ?thesis using IH unfolding start(7) snd_apfst list.set(2) ball_simps
      by (intro conjI bexI [of _ "(p, sv)"]) (auto simp: v(4))
  qed
qed

lemma stop_removed_ev:
  fixes s :: "'a supervisor_scheme"
  shows "ev s \<le> ev (stop_removed os ps s)"
proof -
  have "steps (\<lambda>e. True) s (stop_removed os ps s)"
  proof (rule st.I_stop_removed)
    show "st.stoppable TYPE('a) (\<lambda>e. True) s" unfolding st.stoppable_def by simp
  qed simp_all
  then show ?thesis by (rule steps_ev)
qed

lemma reload_converges:
  assumes ok: "spawns_succeed os" and uniq: "pids_unique os"
    and d: "distinct (keys (services s))" "distinct (map sd_name new)"
    and fr: "fresh_from os (ev s) (set (keys (services s)))"
  defines "s' \<equiv> snd (reload_services os new s)"
  shows "set (running_names s') = sd_name ` set new"
    "\<forall>d \<in> set new. \<exists>e \<in> set (services s'). sd_name (sv_def (snd e)) = sd_name d \<and> defs_equal (sv_def (snd e)) d"
proof -
  let ?t = "stop_removed os (removed_pids new s) s"
  have sub: "set (services ?t) \<subseteq> set (services s)"
    by (auto simp: stop_removed_services set_fold_delete)
  have dt: "distinct (keys (services ?t))" using d(1) by (simp add: stop_removed_services keys_fold_delete)
  have "fresh_from os (ev ?t) {fst e}" if "e \<in> set (services ?t)" for e
  proof -
    have "fst e \<in> set (keys (services s))" using that sub by auto
    with fr have "fresh_from os (ev s) {fst e}" by (auto simp: fresh_from_def)
    then show ?thesis by (rule fresh_from_mono) (rule stop_removed_ev)
  qed
  then have c: "set (running_names s') \<subseteq> set (running_names ?t) \<union> sd_name ` set new \<and>
    (\<forall>d \<in> set new. \<exists>e \<in> set (services s'). sd_name (sv_def (snd e)) = sd_name d \<and> defs_equal (sv_def (snd e)) d)"
    unfolding s'_def reload_services_def using d(2) by (intro reload_loop_converges [OF ok uniq dt]) auto
  then show "\<forall>d \<in> set new. \<exists>e \<in> set (services s').
      sd_name (sv_def (snd e)) = sd_name d \<and> defs_equal (sv_def (snd e)) d" ..
  have "sd_name ` set new \<subseteq> set (running_names s')" using c unfolding running_names_set by force
  with c after_stop_removed [of os new s] show "set (running_names s') = sd_name ` set new" by blast
qed

lemma find_fold_delete:
  "distinct (keys m) \<Longrightarrow> \<forall>e \<in> set m. fst e \<in> set ps \<longrightarrow> \<not> P e \<Longrightarrow>
   List.find P (fold AList.delete ps m) = List.find P m"
proof (induction ps arbitrary: m)
  case Nil
  then show ?case by simp
next
  case (Cons p ps)
  have "List.find P (fold AList.delete ps (AList.delete p m)) = List.find P (AList.delete p m)"
    using Cons.prems by (intro Cons.IH distinct_keys_delete) (auto simp: in_set_delete)
  also have "\<dots> = List.find P m" using Cons.prems(2) by (intro find_delete) auto
  finally show ?case by simp
qed

lemma reload_touched:
  assumes d: "distinct (keys (services s))" "distinct (map sd_name new)"
    and ns: "''shell'' \<notin> sd_name ` set new \<or> spawns_succeed os"
    and fr: "fresh_from os (ev s) (set (keys (services s)))"
  shows "fst (reload_services os new s) = map sd_name (filter (\<lambda>d. \<not> up_to_date (services s) d) new)"
proof -
  let ?t = "stop_removed os (removed_pids new s) s"
  have sub: "set (services ?t) \<subseteq> set (services s)"
    by (auto simp: stop_removed_services set_fold_delete)
  have dt: "distinct (keys (services ?t))" using d(1) by (simp add: stop_removed_services keys_fold_delete)
  have same: "up_to_date (services ?t) x = up_to_date (services s) x" if "x \<in> set new" for x
  proof -
    have "List.find (\<lambda>(p, sv). sd_name (sv_def sv) = sd_name x) (services ?t) =
        List.find (\<lambda>(p, sv). sd_name (sv_def sv) = sd_name x) (services s)"
      unfolding stop_removed_services
      using removed_pids_names [OF d(1)] that by (intro find_fold_delete d(1)) fastforce
    then show ?thesis by (simp add: up_to_date_def)
  qed
  have "fst (reload_services os new s) = map sd_name (filter (\<lambda>d. \<not> up_to_date (services ?t) d) new)"
    unfolding reload_services_def
    using sub by (intro reload_loop_touched [OF dt d(2) ns _ fresh_from_mono [OF fr stop_removed_ev]]) auto
  also have "\<dots> = map sd_name (filter (\<lambda>d. \<not> up_to_date (services s) d) new)"
    using same by (intro arg_cong [of _ _ "map sd_name"] filter_cong) auto
  finally show ?thesis .
qed

subsection \<open>A second reload\<close>

lemma spawn_adds_new:
  assumes ok: "spawns_succeed os" and uniq: "pids_unique os"
    and u: "distinct (keys (services u))" "fresh_from os (ev u) (set (keys (services u)))"
  obtains p sv where "sv_def sv = d" "services (spawn_with_history os d hist u) = services u @ [(p, sv)]"
    "distinct (keys (services (spawn_with_history os d hist u)))"
    "fresh_from os (ev (spawn_with_history os d hist u)) (set (keys (services (spawn_with_history os d hist u))))"
proof -
  let ?v = "spawn_with_history os d hist u"
  obtain n c p sv where v: "ev u \<le> n" "n < ev ?v" "os_spawn os n c = Inr p" "sv_def sv = d"
    "services ?v = AList.update p sv (services u)"
    using spawn_with_history_succeeds [OF ok, of d hist u] by (auto simp: added_def)
  from v(1,3) u(2) have p: "p \<notin> set (keys (services u))" by (auto simp: fresh_from_def)
  then have tab: "services ?v = services u @ [(p, sv)]" unfolding v(5) by (rule update_new)
  have "fresh_from os (ev ?v) {p}"
    using uniq v(2,3) unfolding fresh_from_def pids_unique_def by (metis less_le_trans singletonD)
  then have "fresh_from os (ev ?v) (set (keys (services u)) \<union> {p})"
    unfolding fresh_from_Un using fresh_from_mono [OF u(2) spawn_ev] by blast
  with v(4) tab u(1) p show thesis by (intro that [of sv p]) simp_all
qed

lemma reload_loop_once:
  assumes ok: "spawns_succeed os" and uniq: "pids_unique os"
  shows "distinct (keys (services s)) \<Longrightarrow> fresh_from os (ev s) (set (keys (services s))) \<Longrightarrow>
    once_each (services s) \<Longrightarrow> once_each (services (snd (reload_loop os ds s)))"
proof (induction ds arbitrary: s)
  case (Cons d ds)
  show ?case
  proof (cases rule: reload_loop_Cons [of s d os ds])
    case skip
    with Cons show ?thesis by simp
  next
    case (start u)
    have u: "distinct (keys (services u))" "fresh_from os (ev u) (set (keys (services u)))"
      "once_each (services u)" "sd_name d \<notin> set (running_names u)"
      using start(2,5,6,8) Cons.prems
      by (auto intro: once_each_subset fresh_from_mono [OF fresh_from_subset])
    obtain p sv where v: "sv_def sv = d" "services (spawn_with_history os d [] u) = services u @ [(p, sv)]"
      "distinct (keys (services (spawn_with_history os d [] u)))"
      "fresh_from os (ev (spawn_with_history os d [] u)) (set (keys (services (spawn_with_history os d [] u))))"
      by (rule spawn_adds_new [OF ok uniq u(1,2), of d "[]"])
    have "once_each (services (spawn_with_history os d [] u))"
      using u(3,4) unfolding v(2) by (force simp: once_each_def running_names_set v(1))
    from Cons.IH [OF v(3,4) this] start(7) show ?thesis by simp
  qed
qed simp

lemma up_to_date_once:
  assumes "once_each table" "e \<in> set table" "sd_name (sv_def (snd e)) = sd_name d" "defs_equal (sv_def (snd e)) d"
  shows "up_to_date table d"
proof -
  have "List.find (\<lambda>(p, sv). sd_name (sv_def sv) = sd_name d) table \<noteq> None"
    using assms(2,3) unfolding find_None_iff by (metis (mono_tags, lifting) case_prod_beta)
  then obtain x where x: "List.find (\<lambda>(p, sv). sd_name (sv_def sv) = sd_name d) table = Some x" by blast
  then have "x \<in> set table" "sd_name (sv_def (snd x)) = sd_name d" by (auto dest!: find_Some_mem)
  with assms have "x = e" unfolding once_each_def by metis
  with x assms(4) show ?thesis by (auto simp: up_to_date_def)
qed

lemma reload_noop:
  assumes "set (running_names s) \<subseteq> sd_name ` set new" "\<forall>d \<in> set new. up_to_date (services s) d"
  shows "reload_services os new s = ([], s)"
proof -
  have skip: "\<forall>d \<in> set ds. up_to_date (services s) d \<Longrightarrow> reload_loop os ds s = ([], s)" for ds
  proof (induction ds)
    case (Cons d ds)
    then show ?case by (cases rule: reload_loop_Cons [of s d os ds]) simp_all
  qed simp
  have "removed_pids new s = []"
    using assms(1) by (auto simp: removed_pids_def filter_empty_conv running_names_set)
  with skip [OF assms(2)] show ?thesis by (simp add: reload_services_def)
qed

lemma reload_idempotent:
  assumes ok: "spawns_succeed os" and uniq: "pids_unique os"
    and d: "distinct (keys (services s))" "distinct (map sd_name new)"
    and fr: "fresh_from os (ev s) (set (keys (services s)))" and one: "once_each (services s)"
  defines "s' \<equiv> snd (reload_services os new s)"
  shows "once_each (services s')" "reload_services os new s' = ([], s')"
proof -
  let ?t = "stop_removed os (removed_pids new s) s"
  have sub: "set (services ?t) \<subseteq> set (services s)"
    by (auto simp: stop_removed_services set_fold_delete)
  have "fresh_from os (ev ?t) (set (keys (services ?t)))"
    by (rule fresh_from_mono [OF fresh_from_subset [OF fr] stop_removed_ev]) (use sub in auto)
  then show o: "once_each (services s')"
    unfolding s'_def reload_services_def
    by (intro reload_loop_once [OF ok uniq] once_each_subset [OF one sub])
      (simp_all add: stop_removed_services keys_fold_delete d(1))
  note conv = reload_converges [OF ok uniq d fr, folded s'_def]
  show "reload_services os new s' = ([], s')"
    by (rule reload_noop) (use conv up_to_date_once [OF o] in auto)
qed

end
