(* ===== verification/Sup_Lifecycle.thy ===== *)
theory Sup_Lifecycle
  imports Sup_Facts
begin

text \<open>
  Boot, stop and shutdown: which services \<open>spawn_all\<close> starts, the order of the signals
  \<open>stop_one\<close> and \<open>shutdown_all\<close> send, that the shutdown loop ends when the clock advances, and
  the watchdog together with the datagrams that feed it.
\<close>

subsection \<open>\<open>requires=\<close> at boot\<close>

text \<open>The invariant of the boot loop over the definitions \<open>D\<close> with the started names \<open>S\<close>.\<close>

definition boot_inv :: "os \<Rightarrow> service_def list \<Rightarrow> string set \<Rightarrow> 'a supervisor_scheme \<Rightarrow> bool" where
  "boot_inv os D S s \<longleftrightarrow>
     distinct (keys (services s)) \<and> fresh_from os (ev s) (set (keys (services s))) \<and>
     S \<subseteq> set (running_names s) \<and> set (running_names s) \<subseteq> S \<union> {''shell''} \<and>
     (\<forall>d \<in> set D. sd_name d \<in> S \<longrightarrow> set (sd_requires d) \<inter> sd_name ` set D \<subseteq> S)"

lemma boot_inv_quiet: "boot_inv os D S s \<Longrightarrow> quiet P s u \<Longrightarrow> boot_inv os D S u"
  by (auto simp: boot_inv_def quiet_def running_names_def dest: steps_ev intro: fresh_from_mono)

lemma wait_all_quiet: "quiet P s (fold (\<lambda>dep. wait_for_ready os dep timeout) deps s)"
proof -
  have "quiet P s u \<Longrightarrow> quiet P s (fold (\<lambda>dep. wait_for_ready os dep timeout) deps u)" for u
    by (induction deps arbitrary: u) (simp_all add: q.I_wait_for_ready)
  then show ?thesis by simp
qed

lemma boot_inv_spawn:
  assumes inv: "boot_inv os D S s" and uniq: "pids_unique os"
    and D: "distinct (map sd_name D)" "d \<in> set D" and ok: "hard_missing (sd_name ` set D) S d = []"
  defines "u \<equiv> spawn_with_history os d [] s"
  shows "boot_inv os D (if sd_name d \<in> set (running_names u) then insert (sd_name d) S else S) u"
proof -
  have req: "set (sd_requires d) \<inter> sd_name ` set D \<subseteq> S"
    using ok by (auto simp: hard_missing_def filter_empty_conv)
  have only: "d' = d" if "d' \<in> set D" "sd_name d' = sd_name d" for d'
    using that D by (auto simp: distinct_map dest: inj_onD)
  have ev: "ev s \<le> ev u" unfolding u_def by (rule spawn_ev)
  have names: "set (running_names s) \<subseteq> set (running_names u) \<and>
      set (running_names u) \<subseteq> set (running_names s) \<union> {sd_name d, ''shell''} \<and>
      distinct (keys (services u)) \<and> fresh_from os (ev u) (set (keys (services u)))"
  proof (cases "services u = services s")
    case True
    with inv ev show ?thesis by (auto simp: boot_inv_def running_names_def intro: fresh_from_mono)
  next
    case False
    then obtain n c p sv where a: "ev s \<le> n" "n < ev u" "os_spawn os n c = Inr p" "entry_for d [] sv"
      "services u = AList.update p sv (services s)"
      using spawn_with_history_table [of os d "[]" s] by (auto simp: added_def u_def)
    then have p: "p \<notin> set (keys (services s))"
      using inv unfolding boot_inv_def fresh_from_def by blast
    then have tab: "services u = services s @ [(p, sv)]" unfolding a(5) by (rule update_new)
    have "fresh_from os (ev u) {p}"
      using uniq a(2,3) unfolding fresh_from_def pids_unique_def by (metis less_le_trans singletonD)
    moreover have "fresh_from os (ev u) (set (keys (services s)))"
      using inv ev by (auto simp: boot_inv_def intro: fresh_from_mono)
    ultimately show ?thesis
      using inv p a(4)
      by (auto simp: running_names_def tab boot_inv_def fresh_from_def entry_for_def name_fallback_shell)
  qed
  moreover have "set (sd_requires d') \<inter> sd_name ` set D \<subseteq> insert (sd_name d) S"
    if "d' \<in> set D" "sd_name d' \<in> insert (sd_name d) S" for d'
  proof (cases "sd_name d' \<in> S")
    case True
    then show ?thesis using inv that(1) unfolding boot_inv_def by blast
  next
    case False
    then have "d' = d" using that only by simp
    then show ?thesis using req by blast
  qed
  ultimately show ?thesis
    using inv unfolding boot_inv_def by (simp split: if_split) blast
qed

lemma spawn_loop_inv:
  "boot_inv os D S s \<Longrightarrow> pids_unique os \<Longrightarrow> distinct (map sd_name D) \<Longrightarrow> set ds \<subseteq> set D \<Longrightarrow>
   boot_inv os D (fst (spawn_loop os (sd_name ` set D) ds S s)) (snd (spawn_loop os (sd_name ` set D) ds S s))"
proof (induction ds arbitrary: S s)
  case Nil
  then show ?case by simp
next
  case (Cons d ds)
  show ?case
  proof (cases "hard_missing (sd_name ` set D) S d = []")
    case False
    with Cons show ?thesis by (simp add: Let_def boot_inv_quiet [OF Cons.prems(1) q.I_log [OF quiet_refl]])
  next
    case True
    let ?w = "fold (\<lambda>dep. wait_for_ready os dep READY_WAIT_TIMEOUT) (sd_after_ready d) s"
    have "boot_inv os D S ?w" using Cons.prems(1) wait_all_quiet by (rule boot_inv_quiet)
    from boot_inv_spawn [OF this Cons.prems(2,3) _ True] Cons.prems(4)
    show ?thesis using Cons True by (simp add: Let_def)
  qed
qed

lemma spawn_all_inv:
  assumes s: "services s = []" and uniq: "pids_unique os" and D: "distinct (map sd_name defs)"
  shows "\<exists>S. boot_inv os (effective_after defs) S (spawn_all os defs s)"
proof -
  let ?ea = "effective_after defs"
  have names: "sd_name ` set ?ea = sd_name ` set defs"
    using arg_cong [OF effective_after_names [of defs], of set] by simp
  obtain ordered t where tl: "topological_order_logged os ?ea s = (ordered, t)" by fastforce
  have "quiet (\<lambda>e. True) s t"
    using q.I_topological_order_logged [of "\<lambda>e. True" s s os ?ea] tl by simp
  moreover have "boot_inv os ?ea {} s" using s by (simp add: boot_inv_def running_names_def fresh_from_def)
  ultimately have t: "boot_inv os ?ea {} t" by (rule boot_inv_quiet [rotated])
  have ord: "ordered = fst (topological_order ?ea)"
    using tl by (auto simp: topological_order_logged_def split: prod.splits)
  have "mset ordered = mset ?ea" unfolding ord by (rule topological_order_parts [of ?ea]) auto
  then have "set ordered \<subseteq> set ?ea" by (metis set_mset_mset subset_refl)
  with D have "boot_inv os ?ea (fst (spawn_loop os (sd_name ` set ?ea) ordered {} t))
      (snd (spawn_loop os (sd_name ` set ?ea) ordered {} t))"
    by (intro spawn_loop_inv t uniq) (simp_all add: effective_after_names)
  then show ?thesis unfolding spawn_all_def tl Let_def prod.case names by blast
qed

lemma effective_after_requires:
  assumes "d \<in> set defs"
  shows "\<exists>d' \<in> set (effective_after defs). sd_name d' = sd_name d \<and> sd_requires d' = sd_requires d"
proof -
  have "no_after d \<in> set (map no_after (effective_after defs))"
    using assms by (simp add: effective_after_no_after)
  then obtain d' where "d' \<in> set (effective_after defs)" "no_after d' = no_after d" by auto
  then show ?thesis by (intro bexI [of _ d']) (cases d, cases d', simp add: no_after_def)
qed

lemma spawn_all_requires_running:
  assumes "services s = []" "pids_unique os" "distinct (map sd_name defs)"
    and d: "d \<in> set defs" "sd_name d \<in> set (running_names (spawn_all os defs s))" "sd_name d \<noteq> ''shell''"
    and r: "r \<in> set (sd_requires d)" "r \<in> sd_name ` set defs"
  shows "r \<in> set (running_names (spawn_all os defs s))"
proof -
  obtain S where S: "boot_inv os (effective_after defs) S (spawn_all os defs s)"
    using spawn_all_inv [OF assms(1-3)] by blast
  obtain d' where d': "d' \<in> set (effective_after defs)" "sd_name d' = sd_name d" "sd_requires d' = sd_requires d"
    using effective_after_requires [OF d(1)] by blast
  have names: "sd_name ` set (effective_after defs) = sd_name ` set defs"
    using arg_cong [OF effective_after_names [of defs], of set] by simp
  from S have sub: "set (running_names (spawn_all os defs s)) \<subseteq> S \<union> {''shell''}"
    "S \<subseteq> set (running_names (spawn_all os defs s))"
    and closed: "\<And>d. d \<in> set (effective_after defs) \<Longrightarrow> sd_name d \<in> S \<Longrightarrow>
      set (sd_requires d) \<inter> sd_name ` set defs \<subseteq> S"
    unfolding boot_inv_def names by blast+
  have "sd_name d' \<in> S" using sub(1) d(2,3) d'(2) by auto
  from closed [OF d'(1) this] have "r \<in> S" using r d'(3) by auto
  with sub(2) show ?thesis by blast
qed

subsection \<open>Stopping one service\<close>

text \<open>The rounds of the wait loop: polls that saw no exit, then the end of the loop.\<close>

lemma stop_loop_events:
  "\<exists>ws k. trace (stop_loop os p deadline s) = trace s @ map (Wait p True) ws @ k \<and>
     (\<forall>w \<in> set (butlast ws). \<not> wait_ends_stop w) \<and>
     (if k = [] then ws \<noteq> [] \<and> wait_ends_stop (last ws)
      else k = [Kill p SIGKILL] \<and> (\<forall>w \<in> set ws. \<not> wait_ends_stop w) \<and>
        deadline \<le> clock (stop_loop os p deadline s))"
proof (induction os p deadline s rule: stop_loop.induct)
  case (1 os p deadline s)
  obtain t s' where n: "now os s = (t, s')" by fastforce
  then have s': "trace s' = trace s" "clock s' = t" by (auto simp: now_def Let_def)
  show ?case
  proof (cases "deadline \<le> t")
    case True
    then show ?thesis
      using n s' by (intro exI [of _ "[]"] exI [of _ "[Kill p SIGKILL]"])
        (simp add: stop_loop.simps [of os p deadline s] kill_def frame)
  next
    case False
    obtain r s'' where w: "waitpid os p True s' = (r, s'')" by fastforce
    then have s'': "trace s'' = trace s @ [Wait p True r]"
      using s' by (auto simp: waitpid_def Let_def emit_def)
    show ?thesis
    proof (cases "wait_ends_stop r")
      case True
      then show ?thesis
        using n False w s'' by (intro exI [of _ "[r]"] exI [of _ "[]"])
          (simp add: stop_loop.simps [of os p deadline s])
    next
      case go: False
      let ?u = "sleep_d os poll_interval s''"
      have tu: "trace ?u = trace s @ [Wait p True r]" using s'' by (simp add: sleep_d_def frame)
      have eq: "stop_loop os p deadline s = stop_loop os p deadline ?u"
        using n False w go by (simp add: stop_loop.simps [of os p deadline s])
      obtain ws k where IH: "trace (stop_loop os p deadline ?u) = trace ?u @ map (Wait p True) ws @ k"
        "\<forall>w \<in> set (butlast ws). \<not> wait_ends_stop w"
        "if k = [] then ws \<noteq> [] \<and> wait_ends_stop (last ws)
         else k = [Kill p SIGKILL] \<and> (\<forall>w \<in> set ws. \<not> wait_ends_stop w) \<and>
           deadline \<le> clock (stop_loop os p deadline ?u)"
        using "1.IH" [OF n [symmetric] refl False w [symmetric] refl go] by blast
      show ?thesis
        unfolding eq using IH tu go
        by (intro exI [of _ "r # ws"] exI [of _ k]) (auto split: if_splits)
    qed
  qed
qed

lemma kill_and_remove_events:
  "\<exists>fs. trace (kill_and_remove os who s) =
     trace s @ Fs (Write_file (path_join (dir_under CGROUP_ROOT who) ''cgroup.kill'') ''1'') # map Fs fs"
  by (auto simp: kill_and_remove_def kill_and_remove_under_def Let_def fs_def frame
      intro: exI [of _ "[]"] exI [of _ "[Remove_dir (dir_under CGROUP_ROOT who)]"])

lemma kill_and_remove_clock: "clock (kill_and_remove os who s) = clock s"
  by (simp add: kill_and_remove_def kill_and_remove_under_def Let_def fs_def frame)

text \<open>
  The whole of \<open>stop_one\<close>: SIGTERM first; then only polls of that process, the last of which
  saw the exit, or else at least the grace period passed and SIGKILL was sent; the cgroup is
  killed last.
\<close>

lemma stop_one_events:
  obtains ws k fs where
    "trace (stop_one os p who s) = trace s @ Kill p SIGTERM # map (Wait p True) ws @ k @
       Fs (Write_file (path_join (dir_under CGROUP_ROOT who) ''cgroup.kill'') ''1'') # map Fs fs"
    "k = [] \<and> ws \<noteq> [] \<and> wait_ends_stop (last ws) \<or>
     k = [Kill p SIGKILL] \<and> (\<forall>w \<in> set ws. \<not> wait_ends_stop w) \<and>
       clock s + stop_grace \<le> clock (stop_one os p who s)"
proof -
  obtain t s1 where n: "now os (kill p SIGTERM s) = (t, s1)" by fastforce
  then have s1: "trace s1 = trace s @ [Kill p SIGTERM]" "clock s \<le> t"
    by (auto simp: now_def kill_def emit_def Let_def)
  let ?l = "stop_loop os p (t + stop_grace) s1"
  obtain ws k where l: "trace ?l = trace s1 @ map (Wait p True) ws @ k"
    "if k = [] then ws \<noteq> [] \<and> wait_ends_stop (last ws)
     else k = [Kill p SIGKILL] \<and> (\<forall>w \<in> set ws. \<not> wait_ends_stop w) \<and> t + stop_grace \<le> clock ?l"
    using stop_loop_events [of os p "t + stop_grace" s1] by blast
  obtain fs where f: "trace (kill_and_remove os who ?l) = trace ?l @
      Fs (Write_file (path_join (dir_under CGROUP_ROOT who) ''cgroup.kill'') ''1'') # map Fs fs"
    using kill_and_remove_events [of os who ?l] by blast
  have eq: "stop_one os p who s = kill_and_remove os who ?l"
    unfolding stop_one_def Let_def n prod.case by (rule refl)
  show ?thesis
    by (rule that [of ws k fs])
      (use l f s1 in \<open>auto simp: eq kill_and_remove_clock split: if_splits\<close>)
qed

subsection \<open>Shutdown\<close>

lemma shutdown_loop_ends:
  "clock_advances os \<Longrightarrow> \<exists>u. shutdown_loop os deadline s = Some u"
proof (induction "deadline - clock s" arbitrary: s rule: less_induct)
  case less
  obtain t s1 where n: "now os s = (t, s1)" by fastforce
  then have s1: "clock s < t" "clock s1 = t"
    using less.prems by (auto simp: now_def Let_def clock_advances_def)
  show ?case
  proof (cases "t < deadline \<and> services s1 \<noteq> []")
    case False
    then show ?thesis using n by (subst shutdown_loop.simps) auto
  next
    case True
    obtain r s2 where w: "waitpid os (- 1) True s1 = (r, s2)" by fastforce
    then have s2: "t \<le> clock s2" using s1 by (auto simp: waitpid_def Let_def emit_def)
    have go: "\<exists>v. shutdown_loop os deadline u = Some v" if "t \<le> clock u" for u :: "'a supervisor_scheme"
      using less.hyps [of u] that s1 True less.prems by auto
    have u: "t \<le> clock (sleep_d os poll_interval s2)" "t \<le> clock (remove_service p s2)" for p
      using s2 clock_sleep_d [of s2 poll_interval os] by (simp_all add: remove_service_def)
    show ?thesis
      using n True w go [OF u(1)] go [OF u(2)] go [OF s2]
      by (subst shutdown_loop.simps)
        (simp split: wait_result.split option.split prod.split)
  qed
qed

text \<open>The processes whose exit a list of wait results reports.\<close>

fun reaped_pid :: "wait_result \<Rightarrow> pid option" where
  "reaped_pid (Wait_ok st) = map_option fst (exit_summary st)"
| "reaped_pid (Wait_err e) = None"

definition reaped_pids :: "wait_result list \<Rightarrow> pid list" where
  "reaped_pids ws = List.map_filter reaped_pid ws"

lemma reaped_pids_simps [simp]:
  "reaped_pids [] = []"
  "reaped_pids (w # ws) = (case reaped_pid w of None \<Rightarrow> reaped_pids ws | Some p \<Rightarrow> p # reaped_pids ws)"
  by (simp_all add: reaped_pids_def map_filter_def split: option.split)

lemma trace_sleep_d [frame]: "trace (sleep_d os d s) = trace s"
  by (simp add: sleep_d_def frame)

lemma shutdown_loop_events:
  "shutdown_loop os deadline s = Some u \<Longrightarrow>
   \<exists>ws. trace u = trace s @ map (Wait (- 1) True) ws \<and>
     services u = fold AList.delete (reaped_pids ws) (services s)"
proof (induction os deadline s u rule: shutdown_loop.raw_induct [rotated, consumes 1, case_names 1])
  case (1 rec os deadline s u)
  obtain t s1 where n: "now os s = (t, s1)" by fastforce
  then have s1: "trace s1 = trace s" "services s1 = services s" by (auto simp: now_def Let_def)
  show ?case
  proof (cases "t < deadline \<and> services s1 \<noteq> []")
    case False
    then show ?thesis using 1 n s1 by (intro exI [of _ "[]"]) auto
  next
    case True
    obtain r s2 where w: "waitpid os (- 1) True s1 = (r, s2)" by fastforce
    then have s2: "trace s2 = trace s @ [Wait (- 1) True r]" "services s2 = services s"
      using s1 by (auto simp: waitpid_def Let_def emit_def)
    have cont: "\<exists>ws. trace u = trace s @ map (Wait (- 1) True) ws \<and>
        services u = fold AList.delete (reaped_pids ws) (services s)"
      if v: "rec os deadline v = Some u" "trace v = trace s2"
        "services v = fold AList.delete (reaped_pids [r]) (services s)" for v
    proof -
      obtain ws where "trace u = trace v @ map (Wait (- 1) True) ws"
        "services u = fold AList.delete (reaped_pids ws) (services v)"
        using 1(1) [OF v(1)] by blast
      then show ?thesis
        using v(2,3) s2(1) by (intro exI [of _ "r # ws"]) (simp split: option.splits)
    qed
    have step: "(case r of
        Wait_err e \<Rightarrow> if e = ECHILD then Some s2 else rec os deadline (sleep_d os poll_interval s2)
      | Wait_ok st \<Rightarrow>
          (case exit_summary st of
             Some (p, summary) \<Rightarrow> rec os deadline (remove_service p s2)
           | None \<Rightarrow>
               if st = StillAlive then rec os deadline (sleep_d os poll_interval s2) else rec os deadline s2)) = Some u"
      using 1(2) n True w by (simp add: Let_def)
    show ?thesis
    proof (cases r)
      case (Wait_err e)
      show ?thesis
      proof (cases "e = ECHILD")
        case True
        then show ?thesis using step Wait_err s2 by (intro exI [of _ "[r]"]) simp
      next
        case False
        then show ?thesis using step Wait_err s2
          by (intro cont [of "sleep_d os poll_interval s2"]) (simp_all add: frame)
      qed
    next
      case (Wait_ok st)
      show ?thesis
      proof (cases "exit_summary st")
        case (Some ps)
        obtain p summary where "ps = (p, summary)" by fastforce
        with Some step Wait_ok s2 show ?thesis
          by (intro cont [of "remove_service p s2"]) (simp_all add: remove_service_def)
      next
        case None
        then show ?thesis using step Wait_ok s2 cont [of "sleep_d os poll_interval s2"] cont [of s2]
          by (simp add: frame split: if_splits)
      qed
    qed
  qed
qed

lemma kill_stragglers_trace:
  "trace (kill_stragglers os ps s) = trace s @ map (\<lambda>p. Kill p SIGKILL) ps"
  "services (kill_stragglers os ps s) = services s"
  for s :: "'a supervisor_scheme"
  by (induction ps arbitrary: s) (simp_all add: kill_def frame emit_def)

definition sweep_event :: "string \<Rightarrow> event" where
  "sweep_event who = Fs (Write_file (path_join (dir_under CGROUP_ROOT who) ''cgroup.kill'') ''1'')"

lemma sweep_names_trace:
  "\<exists>es. trace (sweep_names os names s) = trace s @ es \<and> sweep_event ` set names \<subseteq> set es \<and>
     (\<forall>e \<in> set es. housekeeping e)"
proof (induction names arbitrary: s)
  case Nil
  then show ?case by simp
next
  case (Cons who names)
  let ?t = "forget_name who (kill_and_remove os who s)"
  obtain fs where "trace ?t = trace s @ sweep_event who # map Fs fs"
    using kill_and_remove_events [of os who s] by (auto simp: forget_name_def sweep_event_def)
  moreover obtain es where "trace (sweep_names os names ?t) = trace ?t @ es"
    "sweep_event ` set names \<subseteq> set es" "\<forall>e \<in> set es. housekeeping e"
    using Cons.IH [of ?t] by blast
  ultimately show ?case
    by (intro exI [of _ "sweep_event who # map Fs fs @ es"]) (auto simp: sweep_event_def)
qed

lemma fold_kill_trace:
  "trace (fold (\<lambda>p. kill p sig) ps s) = trace s @ map (\<lambda>p. Kill p sig) ps"
  "services (fold (\<lambda>p. kill p sig) ps s) = services s"
  "clock (fold (\<lambda>p. kill p sig) ps s) = clock s"
  "log_st (fold (\<lambda>p. kill p sig) ps s) = log_st s"
  for s :: "'a supervisor_scheme"
  by (induction ps arbitrary: s) (simp_all add: kill_def emit_def)

lemma sweep_names_services: "services (sweep_names os names s) = services s"
  by (induction names arbitrary: s) (simp_all add: frame)

text \<open>
  A finished shutdown: every process got SIGTERM, then only polls follow, SIGKILL goes to
  exactly the processes no poll reported, and every service's cgroup is swept.
\<close>

lemma shutdown_all_events:
  assumes "shutdown_all os grace s = Some (Ret u)"
  obtains ws es where
    "trace u = trace s @ map (\<lambda>p. Kill p SIGTERM) (keys (services s)) @ map (Wait (- 1) True) ws @
       map (\<lambda>p. Kill p SIGKILL) (filter (\<lambda>p. p \<notin> set (reaped_pids ws)) (keys (services s))) @ es"
    "sweep_event ` set (running_names s) \<subseteq> set es" "\<forall>e \<in> set es. housekeeping e"
proof -
  let ?s0 = "fold (\<lambda>p. kill p SIGTERM) (keys (services s)) s"
  obtain t s1 where n: "now os ?s0 = (t, s1)" by fastforce
  then have s1: "trace s1 = trace s @ map (\<lambda>p. Kill p SIGTERM) (keys (services s))" "services s1 = services s"
    by (auto simp: now_def Let_def fold_kill_trace)
  from assms n obtain deadline v where v: "shutdown_loop os deadline s1 = Some v"
    and u: "u = sweep_names os (running_names s) (kill_stragglers os (keys (services v)) v)"
    by (auto simp: shutdown_all_def Let_def split: option.splits)
  obtain ws where ws: "trace v = trace s1 @ map (Wait (- 1) True) ws"
    "services v = fold AList.delete (reaped_pids ws) (services s1)"
    using shutdown_loop_events [OF v] by blast
  obtain es where es: "trace u = trace (kill_stragglers os (keys (services v)) v) @ es"
    "sweep_event ` set (running_names s) \<subseteq> set es" "\<forall>e \<in> set es. housekeeping e"
    using sweep_names_trace [of os "running_names s"] unfolding u by blast
  have del: "keys (fold AList.delete ps m) = filter (\<lambda>p. p \<notin> set ps) (keys m)" for ps and m :: "(pid \<times> supervised) list"
    by (induction ps arbitrary: m)
      (auto simp: AList.delete_keys removeAll_filter_not_eq intro!: filter_cong)
  show ?thesis
    by (rule that [of ws es]) (use es ws s1 in \<open>simp_all add: kill_stragglers_trace del\<close>)
qed

text \<open>It finishes, unless the deadline overflows the clock; then nothing is killed or swept.\<close>

lemma shutdown_all_returns:
  assumes "clock_advances os" "clock s + os_tick os (ev s + length (services s)) + grace < 2 ^ 63 * nanos_per_sec"
  shows "\<exists>u. shutdown_all os grace s = Some (Ret u)"
proof -
  let ?s0 = "fold (\<lambda>p. kill p SIGTERM) (keys (services s)) s"
  have "ev (fold (\<lambda>p. kill p sig) ps v) = ev v + length ps" for sig ps and v :: "'a supervisor_scheme"
    by (induction ps arbitrary: v) (simp_all add: kill_def emit_def)
  then have "fst (now os ?s0) = clock s + os_tick os (ev s + length (services s))"
    by (simp add: frame fold_kill_trace)
  with assms(2) have "instant_add (fst (now os ?s0)) grace = Some (fst (now os ?s0) + grace)"
    by (simp add: instant_add_def)
  moreover obtain v where "shutdown_loop os (fst (now os ?s0) + grace) (snd (now os ?s0)) = Some v"
    using shutdown_loop_ends [OF assms(1)] by blast
  ultimately show ?thesis by (simp add: shutdown_all_def Let_def split_def)
qed

lemma shutdown_all_panics:
  assumes "2 ^ 63 \<le> unat secs"
  obtains u where "shutdown_all os (from_secs secs) s = Some (Panic u)"
    "trace u = trace s @ map (\<lambda>p. Kill p SIGTERM) (keys (services s))" "services u = services s"
    "log_st u = log_st s"
proof -
  let ?s0 = "fold (\<lambda>p. kill p SIGTERM) (keys (services s)) s"
  have "instant_add t (from_secs secs) = None" for t
    using assms by (simp add: instant_add_def from_secs_def)
  then have "shutdown_all os (from_secs secs) s = Some (Panic (snd (now os ?s0)))"
    by (simp add: shutdown_all_def Let_def split_def)
  then show ?thesis
    by (rule that) (simp_all add: frame now_def Let_def fold_kill_trace)
qed

subsection \<open>Watchdogs\<close>

text \<open>The last time \<open>who\<close> pinged in a sequence of datagrams, each with its sender and time.\<close>

fun last_heard :: "string \<Rightarrow> instant option \<Rightarrow> (string \<times> instant \<times> string) list \<Rightarrow> instant option" where
  "last_heard who acc [] = acc"
| "last_heard who acc ((src, t, text) # ds) =
     last_heard who (if src = who \<and> ''WATCHDOG=1'' \<in> set (lines text) then Some t else acc) ds"

definition receive_all :: "(string \<times> instant \<times> string) list \<Rightarrow> ready_state \<Rightarrow> ready_state" where
  "receive_all ds rs = fold (\<lambda>(src, t, text). notify_datagram src t text) ds rs"

lemma last_ping_receive_all:
  "last_ping who (receive_all ds rs) = last_heard who (last_ping who rs) ds"
  unfolding receive_all_def
proof (induction ds arbitrary: rs)
  case Nil
  then show ?case by simp
next
  case (Cons d ds)
  obtain src t x where "d = (src, t, x)" by (cases d)
  with Cons show ?case by (simp add: last_ping_datagram)
qed

lemma watchdog_expired_history:
  assumes "sd_watchdog_timeout (sv_def sv) = Some timeout"
  shows "watchdog_expired t (receive_all ds (forget (sd_name (sv_def sv)) rs)) sv \<longleftrightarrow>
    timeout < t - (case last_heard (sd_name (sv_def sv)) None ds of None \<Rightarrow> started_at sv | Some p \<Rightarrow> p)"
  using assms by (simp add: watchdog_expired_def last_ping_receive_all duration_since_def)

lemma expired_watchdogs_sound:
  assumes "expired_watchdogs os s = (ps, u)" "p \<in> set ps"
  shows "\<exists>sv. (p, sv) \<in> set (services s) \<and> watchdog_expired (clock u) (ready_st u) sv"
  using assms unfolding expired_watchdogs_def now_def Let_def by force

subsection \<open>Identity of a sandboxed service\<close>

definition identity_calls :: "u32 option \<Rightarrow> u32 option \<Rightarrow> syscall list" where
  "identity_calls gid uid =
     (case gid of None \<Rightarrow> [] | Some g \<Rightarrow> [Setgroups_none, Setgid g]) @
     (case uid of None \<Rightarrow> [] | Some u \<Rightarrow> [Setuid u])"

lemma service_pre_exec_calls:
  assumes "service_pre_exec sb gid uid r [] = (None, cs)"
  shows "\<exists>setup. cs = setup @ identity_calls gid uid \<and> (\<forall>c \<in> set setup. \<not> is_identity_call c)"
  using assms
  by (auto simp: service_pre_exec_def child_simps identity_calls_def split: option.splits
      dest!: service_sandbox_apply_calls)

end
