(* ===== verification/Rollback.thy ===== *)
theory Rollback
  imports Sup_Facts
begin

text \<open>
  \<open>src/rollback.rs\<close>: the watch that follows a reload. A service the reload touched that dies
  for good before the deadline makes \<open>check\<close> reconcile back to the previous configuration.
\<close>

definition WATCH_WINDOW :: duration where
  "WATCH_WINDOW = from_secs 10"

record watch =
  w_deadline :: instant
  w_touched :: "string list"
  w_previous :: config
  w_target :: string

definition watch_active :: "os \<Rightarrow> watch \<Rightarrow> 'a kernel_scheme \<Rightarrow> bool \<times> 'a kernel_scheme" where
  "watch_active os w s = (let (t, s) = now os s in (t < w_deadline w, s))"

definition watch_touched :: "watch \<Rightarrow> string \<Rightarrow> bool" where
  "watch_touched w who = (who \<in> set (w_touched w))"

definition set_log_level :: "level \<Rightarrow> 'a kernel_scheme \<Rightarrow> 'a kernel_scheme" where
  "set_log_level lvl s = s\<lparr>log_st := set_level lvl (log_st s)\<rparr>"

definition rollback_begin ::
  "os \<Rightarrow> config \<Rightarrow> config \<Rightarrow> string \<Rightarrow> 'a supervisor_scheme \<Rightarrow> watch \<times> 'a supervisor_scheme" where
  "rollback_begin os new_cfg previous target s =
     (let subset = services_in (cfg_services new_cfg) target;
          (touched, s) = reload_services os subset s;
          s = (if touched = []
               then log_at os Info ''reload: no service changes to apply'' s
               else log_at os Info (''reload: watching '' @ show_nat (length touched)
                      @ '' changed service(s) for 10s before confirming'') s);
          (t, s) = now os s
      in (\<lparr>w_deadline = t + WATCH_WINDOW, w_touched = touched, w_previous = previous,
           w_target = target\<rparr>, s))"

text \<open>The rollback branch of \<open>check\<close>.\<close>

definition roll_back :: "os \<Rightarrow> watch \<Rightarrow> string \<Rightarrow> 'a supervisor_scheme \<Rightarrow> 'a supervisor_scheme" where
  "roll_back os w who s =
     (let s = log_at os Error (''reload: '' @ quote who @ '' failed within the watch window, rolling back'') s;
          s = snd (reload_services os (services_in (cfg_services (w_previous w)) (w_target w)) s);
          s = set_log_level (cfg_loglevel (w_previous w)) s;
          s = (case cfg_hostname (w_previous w) of None \<Rightarrow> s | Some h \<Rightarrow> snd (sethostname os h s))
      in log_at os Info ''reload: rolled back to the previous config'' s)"

definition rollback_check ::
  "os \<Rightarrow> config \<Rightarrow> watch \<Rightarrow> string option \<Rightarrow> 'a supervisor_scheme \<Rightarrow>
   watch option \<times> config \<times> 'a supervisor_scheme" where
  "rollback_check os cfg w failed s =
     (if failed \<noteq> None \<and> watch_touched w (the failed)
      then (None, w_previous w, roll_back os w (the failed) s)
      else
        let (active, s) = watch_active os w s
        in if \<not> active
           then (None, cfg,
                 log_at os Info ''reload: no failures in the watch window, keeping the new config'' s)
           else (Some w, cfg, s))"

subsection \<open>What a rollback restores\<close>

lemma services_sethostname [frame]: "services (snd (sethostname os h s)) = services s"
  by (simp add: sethostname_def emit_def)

lemma services_set_log_level [frame]: "services (set_log_level l s) = services s"
  by (simp add: set_log_level_def)

lemma roll_back_services:
  fixes s :: "'a supervisor_scheme"
  obtains u :: "'a supervisor_scheme" where "services u = services s" "ev u = ev s"
    "services (roll_back os w who s) =
       services (snd (reload_services os (services_in (cfg_services (w_previous w)) (w_target w)) u))"
proof (rule that)
  let ?u = "log_at os Error (''reload: '' @ quote who @ '' failed within the watch window, rolling back'') s"
  show "services ?u = services s" "ev ?u = ev s" by (simp_all add: frame)
  show "services (roll_back os w who s) =
      services (snd (reload_services os (services_in (cfg_services (w_previous w)) (w_target w)) ?u))"
    unfolding roll_back_def Let_def by (simp split: option.split add: frame)
qed

lemma roll_back_level: "current_level (log_st (roll_back os w who s)) = level_u8 (cfg_loglevel (w_previous w))"
  by (simp add: roll_back_def Let_def log_at_def set_log_level_def set_level_def sethostname_def emit_def
      split: option.split)

lemma rollback_check_cases:
  obtains (rolled_back) who where "failed = Some who" "watch_touched w who"
      "rollback_check os cfg w failed s = (None, w_previous w, roll_back os w who s)"
  | (confirmed) t u where "now os s = (t, u)" "w_deadline w \<le> t" "\<And>who. failed = Some who \<Longrightarrow> \<not> watch_touched w who"
      "fst (rollback_check os cfg w failed s) = None" "fst (snd (rollback_check os cfg w failed s)) = cfg"
      "services (snd (snd (rollback_check os cfg w failed s))) = services s"
  | (waiting) t u where "now os s = (t, u)" "t < w_deadline w" "\<And>who. failed = Some who \<Longrightarrow> \<not> watch_touched w who"
      "rollback_check os cfg w failed s = (Some w, cfg, u)"
proof (cases "failed \<noteq> None \<and> watch_touched w (the failed)")
  case True
  then show ?thesis by (intro rolled_back [of "the failed"]) (simp_all add: rollback_check_def)
next
  case False
  obtain t u where n: "now os s = (t, u)" by fastforce
  then have su: "services u = services s" by (auto simp: now_def Let_def)
  show ?thesis
  proof (cases "t < w_deadline w")
    case True
    with False n show ?thesis by (intro waiting [of t u]) (auto simp: rollback_check_def watch_active_def)
  next
    case late: False
    with False n su show ?thesis
      by (intro confirmed [of t u]) (auto simp: rollback_check_def watch_active_def frame)
  qed
qed

lemma rollback_begin_watch:
  assumes "rollback_begin os new_cfg previous target s = (w, u)"
  shows "w_previous w = previous" "w_target w = target"
    "w_touched w = fst (reload_services os (services_in (cfg_services new_cfg) target) s)"
    "services u = services (snd (reload_services os (services_in (cfg_services new_cfg) target) s))"
    "w_deadline w = clock u + WATCH_WINDOW"
  using assms
  by (auto simp: rollback_begin_def Let_def split_def frame now_def log_at_def)

end
