(* ===== verification/Units.thy ===== *)
theory Units
  imports Config
begin

text \<open>
  \<open>src/units.rs\<close>: \<open>[Section]\<close> / \<open>Key=Value\<close> unit files and the drop-in directory. The line
  loop is the same in \<open>src/timers.rs\<close>, so it is a definition of its own, with the section
  the caller acts on and the caller's \<open>match key\<close> as arguments.
\<close>

definition SERVICES_DIR :: string where
  "SERVICES_DIR = ''/etc/mitos/services.d''"

subsection \<open>File names\<close>

definition file_name :: "string \<Rightarrow> string" where
  "file_name path = last (split_on CHR ''/'' path)"

text \<open>The last dot of a file name, unless it is the first character or there is none.\<close>

definition rsplit_dot :: "string \<Rightarrow> (string \<times> string) option" where
  "rsplit_dot f =
     (case split_once CHR ''.'' (rev f) of
        None \<Rightarrow> None
      | Some (ext, stem) \<Rightarrow> if stem = [] then None else Some (rev stem, rev ext))"

definition file_stem :: "string \<Rightarrow> string option" where
  "file_stem path =
     (let f = file_name path
      in if f = [] \<or> f = ''..'' then None
         else Some (case rsplit_dot f of None \<Rightarrow> f | Some (stem, ext) \<Rightarrow> stem))"

definition extension :: "string \<Rightarrow> string option" where
  "extension path =
     (let f = file_name path
      in if f = [] \<or> f = ''..'' then None else map_option snd (rsplit_dot f))"

subsection \<open>Sectioned files\<close>

definition section_header :: "string \<Rightarrow> string option" where
  "section_header line =
     (case strip_prefix ''['' line of None \<Rightarrow> None | Some l \<Rightarrow> strip_suffix '']'' l)"

definition section_line ::
  "string \<Rightarrow> (string \<Rightarrow> string \<Rightarrow> 'a \<Rightarrow> 'a) \<Rightarrow> string \<Rightarrow> string \<times> 'a \<Rightarrow> string \<times> 'a" where
  "section_line wanted handler raw_line st =
     (let line = trim raw_line; (section, acc) = st
      in if line = [] \<or> starts_with ''#'' line \<or> starts_with '';'' line then st
         else
           case section_header line of
             Some s \<Rightarrow> (s, acc)
           | None \<Rightarrow>
               (case split_once CHR ''='' line of
                  None \<Rightarrow> st
                | Some (key, value) \<Rightarrow>
                    if section \<noteq> wanted then st
                    else (section, handler (trim key) (trim value) acc)))"

definition section_lines ::
  "string \<Rightarrow> (string \<Rightarrow> string \<Rightarrow> 'a \<Rightarrow> 'a) \<Rightarrow> string \<Rightarrow> 'a \<Rightarrow> 'a" where
  "section_lines wanted handler text acc =
     snd (fold (section_line wanted handler) (lines text) ([], acc))"

subsection \<open>Service units\<close>

definition parse_env_pairs :: "string \<Rightarrow> (string \<times> string) list" where
  "parse_env_pairs value = List.map_filter (split_once CHR ''='') (split_whitespace value)"

text \<open>The \<open>match key\<close> of \<open>parse_unit\<close>; the list collects the warnings it logs.\<close>

definition unit_key ::
  "string \<Rightarrow> string \<Rightarrow> string \<Rightarrow> fields \<times> string list \<Rightarrow> fields \<times> string list" where
  "unit_key path key value fw =
     (case fw of (f, warns) \<Rightarrow>
        if key = ''ExecStart'' then (f\<lparr>f_path := Some value\<rparr>, warns)
        else if key = ''Restart'' then
          (if value = ''always'' then (f\<lparr>f_restart := Always\<rparr>, warns)
           else if value = ''no'' then (f\<lparr>f_restart := Never\<rparr>, warns)
           else if value = ''on-failure'' then (f\<lparr>f_restart := OnFailure\<rparr>, warns)
           else (f\<lparr>f_restart := OnFailure\<rparr>,
                 warns @ [path @ '': unrecognized Restart='' @ value @ '', treating as on-failure'']))
        else if key = ''X-Critical'' then
          (f\<lparr>f_critical := eq_ignore_ascii_case value ''true''\<rparr>, warns)
        else if key = ''MemoryMax'' then (f\<lparr>f_memory_limit := parse_size value\<rparr>, warns)
        else if key = ''After'' then (f\<lparr>f_after := parse_name_list value\<rparr>, warns)
        else if key = ''X-AfterReady'' then (f\<lparr>f_after_ready := parse_name_list value\<rparr>, warns)
        else if key = ''Before'' then (f\<lparr>f_before := parse_name_list value\<rparr>, warns)
        else if key = ''Requires'' then (f\<lparr>f_requires := parse_name_list value\<rparr>, warns)
        else if key = ''Wants'' then (f\<lparr>f_wants := parse_name_list value\<rparr>, warns)
        else if key = ''User'' then (f\<lparr>f_user := Some value\<rparr>, warns)
        else if key = ''Group'' then (f\<lparr>f_group := Some value\<rparr>, warns)
        else if key = ''WatchdogSec'' then (f\<lparr>f_watchdog_timeout := parse_secs value\<rparr>, warns)
        else if key = ''Environment'' then
          (f\<lparr>f_environment := f_environment f @ parse_env_pairs value\<rparr>, warns)
        else if key = ''WorkingDirectory'' then (f\<lparr>f_working_dir := Some value\<rparr>, warns)
        else if key = ''X-Target'' then (f\<lparr>f_target := Some value\<rparr>, warns)
        else if key = ''PrivateTmp'' then
          (f\<lparr>f_private_tmp := eq_ignore_ascii_case value ''true''\<rparr>, warns)
        else if key = ''NoNewPrivileges'' then
          (f\<lparr>f_no_new_privileges := eq_ignore_ascii_case value ''true''\<rparr>, warns)
        else if key = ''ProtectSystem'' then
          (f\<lparr>f_protect_system :=
               (\<not> eq_ignore_ascii_case value ''no'' \<and> \<not> eq_ignore_ascii_case value ''false'')\<rparr>, warns)
        else if key = ''OOMScoreAdjust'' then (f\<lparr>f_oom_score_adjust := parse_i32 value\<rparr>, warns)
        else fw)"

definition parse_unit :: "string \<Rightarrow> string \<Rightarrow> (string + service_def) \<times> string list" where
  "parse_unit path text =
     (case file_stem path of
        None \<Rightarrow> (Inl ''unreadable filename'', [])
      | Some who \<Rightarrow>
          (let (f, warns) = section_lines ''Service'' (unit_key path) text (fields_init Never, [])
           in case f_path f of
                None \<Rightarrow> (Inl ''missing ExecStart= in [Service]'', warns)
              | Some exec_start \<Rightarrow>
                  (case split_whitespace exec_start of
                     [] \<Rightarrow> (Inl ''empty ExecStart='', warns)
                   | bin # args \<Rightarrow> (Inr (service_of_fields who bin args f), warns))))"

subsection \<open>The directory\<close>

text \<open>\<open>entries.flatten().map(path).filter(extension).sort()\<close>.\<close>

definition unit_paths :: "string \<Rightarrow> string list \<Rightarrow> string list" where
  "unit_paths ext names =
     sort (filter (\<lambda>p. extension p = Some ext) (map (path_join SERVICES_DIR) names))"

fun log_warns :: "os \<Rightarrow> string list \<Rightarrow> 'a kernel_scheme \<Rightarrow> 'a kernel_scheme" where
  "log_warns os [] s = s"
| "log_warns os (m # ms) s = log_warns os ms (log_at os Warn m s)"

fun load_units :: "os \<Rightarrow> string list \<Rightarrow> 'a kernel_scheme \<Rightarrow> service_def list \<times> 'a kernel_scheme" where
  "load_units os [] s = ([], s)"
| "load_units os (path # paths) s =
     (let (r, s) = read_to_string os path s
      in case r of
           Inl e \<Rightarrow>
             load_units os paths
               (log_at os Warn (''couldn'' @ [squote] @ ''t read '' @ path @ '': '' @ e) s)
         | Inr text \<Rightarrow>
             (let (res, warns) = parse_unit path text; s = log_warns os warns s
              in case res of
                   Inr svc \<Rightarrow> (let (svcs, s) = load_units os paths s in (svc # svcs, s))
                 | Inl e \<Rightarrow>
                     load_units os paths (log_at os Warn (''skipping '' @ path @ '': '' @ e) s)))"

definition units_load_all :: "os \<Rightarrow> 'a kernel_scheme \<Rightarrow> service_def list \<times> 'a kernel_scheme" where
  "units_load_all os s =
     (let (entries, s) = read_dir os SERVICES_DIR s
      in case entries of
           None \<Rightarrow> ([], s)
         | Some names \<Rightarrow> load_units os (unit_paths ''service'' names) s)"

end
