(* ===== verification/Timers.thy ===== *)
theory Timers
  imports Units Users
begin

text \<open>
  \<open>src/timers.rs\<close>: timer files, the schedule, and the one-shot runs. The state is
  \<open>struct State\<close> behind the lazily initialised \<open>STATE\<close>: \<open>tm_boot\<close> is \<open>None\<close> until the
  first call that touches it, which reads the clock then.
\<close>

subsection \<open>Timer files\<close>

record timer_def =
  td_name :: string
  td_on_boot :: "duration option"
  td_on_active :: "duration option"

definition timer_key ::
  "string \<Rightarrow> string \<Rightarrow> duration option \<times> duration option \<Rightarrow> duration option \<times> duration option" where
  "timer_key key value acc =
     (case acc of (on_boot, on_active) \<Rightarrow>
        if key = ''OnBootSec'' then (parse_secs value, on_active)
        else if key = ''OnUnitActiveSec'' then (on_boot, parse_secs value)
        else acc)"

definition parse_timer :: "string \<Rightarrow> string \<Rightarrow> string + timer_def" where
  "parse_timer path text =
     (case file_stem path of
        None \<Rightarrow> Inl ''unreadable filename''
      | Some who \<Rightarrow>
          (let (on_boot, on_active) = section_lines ''Timer'' timer_key text (None, None)
           in if on_boot = None \<and> on_active = None
              then Inl ''neither OnBootSec= nor OnUnitActiveSec= set''
              else Inr \<lparr>td_name = who, td_on_boot = on_boot, td_on_active = on_active\<rparr>))"

fun load_timers :: "os \<Rightarrow> string list \<Rightarrow> 'a kernel_scheme \<Rightarrow> timer_def list \<times> 'a kernel_scheme" where
  "load_timers os [] s = ([], s)"
| "load_timers os (path # paths) s =
     (let (r, s) = read_to_string os path s
      in case r of
           Inl e \<Rightarrow>
             load_timers os paths
               (log_at os Warn (''couldn'' @ [squote] @ ''t read '' @ path @ '': '' @ e) s)
         | Inr text \<Rightarrow>
             (case parse_timer path text of
                Inr t \<Rightarrow> (let (ts, s) = load_timers os paths s in (t # ts, s))
              | Inl e \<Rightarrow> load_timers os paths (log_at os Warn (''skipping '' @ path @ '': '' @ e) s)))"

definition timers_load_all :: "os \<Rightarrow> 'a kernel_scheme \<Rightarrow> timer_def list \<times> 'a kernel_scheme" where
  "timers_load_all os s =
     (let (entries, s) = read_dir os SERVICES_DIR s
      in case entries of
           None \<Rightarrow> ([], s)
         | Some names \<Rightarrow> load_timers os (unit_paths ''timer'' names) s)"

subsection \<open>State\<close>

record timer_state =
  tm_boot :: "instant option"
  tm_last_finished :: "string \<rightharpoonup> instant"
  tm_running :: "string set"
  tm_pending :: "(pid \<times> string) list"

definition timer_state_init :: timer_state where
  "timer_state_init = \<lparr>tm_boot = None, tm_last_finished = Map.empty, tm_running = {}, tm_pending = []\<rparr>"

text \<open>\<open>state()\<close>: the first caller sets the boot instant.\<close>

definition timers_state :: "os \<Rightarrow> timer_state \<Rightarrow> 'a kernel_scheme \<Rightarrow> timer_state \<times> 'a kernel_scheme" where
  "timers_state os ts s =
     (case tm_boot ts of
        Some b \<Rightarrow> (ts, s)
      | None \<Rightarrow> (let (t, s) = now os s in (ts\<lparr>tm_boot := Some t\<rparr>, s)))"

definition tm_boot_time :: "timer_state \<Rightarrow> instant" where
  "tm_boot_time ts = (case tm_boot ts of None \<Rightarrow> 0 | Some b \<Rightarrow> b)"

text \<open>\<open>is_due\<close>; \<open>None\<close> is the panic of \<open>Instant + Duration\<close> on overflow.\<close>

definition due_at :: "instant \<Rightarrow> instant \<Rightarrow> duration \<Rightarrow> bool option" where
  "due_at t from_t d = map_option (\<lambda>deadline. deadline \<le> t) (instant_add from_t d)"

definition is_due :: "instant \<Rightarrow> timer_def \<Rightarrow> timer_state \<Rightarrow> bool option" where
  "is_due t td ts =
     (case tm_last_finished ts (td_name td) of
        None \<Rightarrow>
          (case td_on_boot td of
             Some d \<Rightarrow> due_at t (tm_boot_time ts) d
           | None \<Rightarrow>
               (case td_on_active td of
                  Some d \<Rightarrow> due_at t (tm_boot_time ts) d
                | None \<Rightarrow> Some False))
      | Some finished \<Rightarrow>
          (case td_on_active td of
             Some d \<Rightarrow> due_at t finished d
           | None \<Rightarrow> Some False))"

subsection \<open>Firing and reaping\<close>

definition spawn_oneshot :: "os \<Rightarrow> service_def \<Rightarrow> 'a kernel_scheme \<Rightarrow> (io_error + pid) \<times> 'a kernel_scheme" where
  "spawn_oneshot os d s =
     (let (uid, s) = resolve_opt (resolve_uid os) (sd_user d) s;
          (gid, s) = resolve_opt (resolve_gid os) (sd_group d) s
      in spawn os
           ((command_new (sd_path d))
              \<lparr>cmd_args := sd_args d, cmd_env := sd_environment d, cmd_dir := sd_working_dir d,
               cmd_uid := uid, cmd_gid := gid\<rparr>) s)"

text \<open>The \<open>filter\<close> of \<open>tick\<close>: \<open>is_due\<close> reads the clock for each timer that is not running.\<close>

fun due_names ::
  "os \<Rightarrow> timer_def list \<Rightarrow> timer_state \<Rightarrow> 'a kernel_scheme \<Rightarrow> string list option \<times> 'a kernel_scheme" where
  "due_names os [] ts s = (Some [], s)"
| "due_names os (td # tds) ts s =
     (if td_name td \<in> tm_running ts then due_names os tds ts s
      else
        let (t, s) = now os s
        in case is_due t td ts of
             None \<Rightarrow> (None, s)
           | Some due \<Rightarrow>
               (let (rest, s) = due_names os tds ts s
                in (map_option (\<lambda>ns. if due then td_name td # ns else ns) rest, s)))"

fun fire_all ::
  "os \<Rightarrow> service_def list \<Rightarrow> string list \<Rightarrow> timer_state \<Rightarrow> 'a kernel_scheme \<Rightarrow> timer_state \<times> 'a kernel_scheme" where
  "fire_all os defs [] ts s = (ts, s)"
| "fire_all os defs (who # names) ts s =
     (case List.find (\<lambda>d. sd_name d = who) defs of
        None \<Rightarrow>
          fire_all os defs names ts
            (log_at os Warn (''timer '' @ quote who @ '': no matching service definition, skipping'') s)
      | Some d \<Rightarrow>
          (let (r, s) = spawn_oneshot os d s
           in case r of
                Inr p \<Rightarrow>
                  fire_all os defs names
                    (ts\<lparr>tm_running := insert who (tm_running ts),
                        tm_pending := AList.update p who (tm_pending ts)\<rparr>)
                    (log_at os Info (''timer '' @ quote who @ '': started pid '' @ show_int p) s)
              | Inl e \<Rightarrow>
                  fire_all os defs names ts
                    (log_at os Error (''timer '' @ quote who @ '': failed to start: '' @ e) s)))"

definition timers_tick ::
  "os \<Rightarrow> timer_def list \<Rightarrow> service_def list \<Rightarrow> timer_state \<Rightarrow> 'a kernel_scheme \<Rightarrow>
   (timer_state \<times> 'a kernel_scheme) run" where
  "timers_tick os timers defs ts s =
     (if timers = [] then Ret (ts, s)
      else
        let (ts, s) = timers_state os ts s;
            (names, s) = due_names os timers ts s
        in case names of None \<Rightarrow> Panic (ts, s) | Some ns \<Rightarrow> Ret (fire_all os defs ns ts s))"

definition has_any :: "timer_def list \<Rightarrow> bool" where
  "has_any timers = (timers \<noteq> [])"

definition timers_reap ::
  "os \<Rightarrow> pid \<Rightarrow> timer_state \<Rightarrow> 'a kernel_scheme \<Rightarrow> bool \<times> timer_state \<times> 'a kernel_scheme" where
  "timers_reap os p ts s =
     (let (ts, s) = timers_state os ts s
      in case map_of (tm_pending ts) p of
           None \<Rightarrow> (False, ts, s)
         | Some who \<Rightarrow>
             (let ts = ts\<lparr>tm_pending := AList.delete p (tm_pending ts)\<rparr>;
                  s = log_at os Info (''timer '' @ quote who @ '': run finished (pid '' @ show_int p @ '')'') s;
                  ts = ts\<lparr>tm_running := tm_running ts - {who}\<rparr>;
                  (t, s) = now os s
              in (True, ts\<lparr>tm_last_finished := (tm_last_finished ts)(who \<mapsto> t)\<rparr>, s)))"

end
