(* ===== verification/Owners.thy ===== *)
theory Owners
  imports Prelude
begin

text \<open>
  The contract between the main loop and whoever may have started a child: the main loop offers
  an exited pid to the owners in turn (\<open>timers::reap\<close>, then \<open>apps::reap\<close>, then the
  supervisor), and each one claims exactly the pids it owns and gives a claimed pid up.
\<close>

locale pid_owner =
  fixes owned :: "'s \<Rightarrow> pid set" and reap :: "pid \<Rightarrow> 's \<Rightarrow> bool \<times> 's"
  assumes claims: "fst (reap p s) \<longleftrightarrow> p \<in> owned s"
    and gives_up: "owned (snd (reap p s)) = owned s - {p}"
begin

fun reap_list :: "pid list \<Rightarrow> 's \<Rightarrow> bool list \<times> 's" where
  "reap_list [] s = ([], s)"
| "reap_list (p # ps) s =
     (let (b, s) = reap p s; (bs, s) = reap_list ps s in (b # bs, s))"

lemma owned_reap_list: "owned (snd (reap_list ps s)) = owned s - set ps"
proof (induction ps arbitrary: s)
  case Nil
  then show ?case by simp
next
  case (Cons p ps)
  from Cons.IH [of "snd (reap p s)"] show ?case
    by (simp add: split_def Let_def gives_up) blast
qed

lemma length_reap_list [simp]: "length (fst (reap_list ps s)) = length ps"
  by (induction ps arbitrary: s) (simp_all add: split_def Let_def)

text \<open>A pid is claimed at its first exit if it is owned, and never again.\<close>

lemma claimed_once:
  "i < length ps \<Longrightarrow> fst (reap_list ps s) ! i \<longleftrightarrow> ps ! i \<in> owned s \<and> ps ! i \<notin> set (take i ps)"
proof (induction ps arbitrary: s i)
  case Nil
  then show ?case by simp
next
  case (Cons p ps)
  show ?case
  proof (cases i)
    case 0
    then show ?thesis by (simp add: split_def Let_def claims)
  next
    case (Suc k)
    with Cons.prems have "k < length ps" by simp
    from Cons.IH [OF this, of "snd (reap p s)"] show ?thesis
      using Suc by (auto simp: split_def Let_def gives_up)
  qed
qed

end

end
