(* ===== verification/Timer_Facts.thy ===== *)
theory Timer_Facts
  imports Timers Owners
begin

text \<open>
  The schedule of \<open>src/timers.rs\<close>: a run never overlaps another run of its timer, a timer
  with \<open>OnBootSec=\<close> only is not started again once it ran, a repeating timer keeps its
  interval, and \<open>reap\<close> claims exactly the pids of pending runs.
\<close>

definition timers_ok :: "timer_state \<Rightarrow> bool" where
  "timers_ok ts \<longleftrightarrow>
     distinct (keys (tm_pending ts)) \<and> distinct (vals (tm_pending ts)) \<and>
     tm_running ts = set (vals (tm_pending ts))"

definition timer_pids :: "timer_state \<Rightarrow> pid set" where
  "timer_pids ts = set (keys (tm_pending ts))"

lemma timers_ok_init [simp]: "timers_ok timer_state_init"
  by (simp add: timers_ok_def timer_state_init_def)

lemma timers_state_same:
  "tm_pending (fst (timers_state os ts s)) = tm_pending ts"
  "tm_running (fst (timers_state os ts s)) = tm_running ts"
  "tm_last_finished (fst (timers_state os ts s)) = tm_last_finished ts"
  by (simp_all add: timers_state_def now_def Let_def split: option.split)

lemma timers_state_ev: "ev s \<le> ev (snd (timers_state os ts s))"
  by (simp add: timers_state_def now_def Let_def split: option.split)

lemma timers_state_clock: "clock s \<le> clock (snd (timers_state os ts s))"
  by (simp add: timers_state_def now_def Let_def split: option.split)

subsection \<open>Reaping\<close>

lemma timers_reap_eq:
  "timers_reap os p ts s =
    (let (ts1, s1) = timers_state os ts s in
     case map_of (tm_pending ts) p of
       None \<Rightarrow> (False, ts1, s1)
     | Some who \<Rightarrow>
         (let (t, s2) = now os (log_at os Info (''timer '' @ quote who @ '': run finished (pid '' @ show_int p @ '')'') s1)
          in (True, ts1\<lparr>tm_pending := AList.delete p (tm_pending ts), tm_running := tm_running ts - {who},
                        tm_last_finished := (tm_last_finished ts)(who \<mapsto> t)\<rparr>, s2)))"
  using timers_state_same [of os ts s]
  by (cases "timers_state os ts s") (simp add: timers_reap_def Let_def split: option.split prod.split)

lemma timers_reap_owner:
  "fst (timers_reap os p ts s) \<longleftrightarrow> p \<in> timer_pids ts"
  "timer_pids (fst (snd (timers_reap os p ts s))) = timer_pids ts - {p}"
proof -
  obtain ts1 s1 where st: "timers_state os ts s = (ts1, s1)" by fastforce
  have same: "tm_pending ts1 = tm_pending ts" using timers_state_same(1) [of os ts s] st by simp
  have "(fst (timers_reap os p ts s) \<longleftrightarrow> p \<in> timer_pids ts) \<and>
      timer_pids (fst (snd (timers_reap os p ts s))) = timer_pids ts - {p}"
  proof (cases "map_of (tm_pending ts) p")
    case None
    then have "p \<notin> timer_pids ts" by (simp add: timer_pids_def map_of_eq_None_iff)
    with None same show ?thesis unfolding timers_reap_eq st by (simp add: timer_pids_def)
  next
    case (Some who)
    then have "p \<in> timer_pids ts" by (force simp: timer_pids_def dest: map_of_SomeD)
    with Some same show ?thesis
      unfolding timers_reap_eq st by (auto simp: timer_pids_def Let_def split_def AList.delete_keys)
  qed
  then show "fst (timers_reap os p ts s) \<longleftrightarrow> p \<in> timer_pids ts"
    "timer_pids (fst (snd (timers_reap os p ts s))) = timer_pids ts - {p}" by simp_all
qed

interpretation tmr: pid_owner "\<lambda>(ts, s). timer_pids ts" "\<lambda>p (ts, s). timers_reap os p ts s" for os
  by unfold_locales (auto simp: timers_reap_owner split_def)

lemma vals_delete:
  "distinct (keys m) \<Longrightarrow> distinct (vals m) \<Longrightarrow> map_of m k = Some v \<Longrightarrow>
   distinct (vals (AList.delete k m)) \<and> set (vals (AList.delete k m)) = set (vals m) - {v}"
proof -
  assume d: "distinct (keys m)" "distinct (vals m)" "map_of m k = Some v"
  from d(3) have kv: "(k, v) \<in> set m" by (rule map_of_SomeD)
  have only_k: "e = (k, v)" if "e \<in> set m" "fst e = k" for e
  proof -
    have "(k, snd e) \<in> set m" using that by (metis prod.collapse)
    then have "snd e = v" by (rule eq_key_imp_eq_value [OF d(1) _ kv])
    with that(2) show ?thesis by (cases e) simp
  qed
  have only_v: "e = (k, v)" if "e \<in> set m" "snd e = v" for e
    using d(2) that kv unfolding distinct_map by (metis inj_onD snd_conv)
  have "distinct (vals (AList.delete k m))"
    unfolding AList.delete_eq using d(2) by (rule distinct_map_filter)
  moreover have "set (vals (AList.delete k m)) = set (vals m) - {v}"
  proof (intro set_eqI iffI)
    fix x
    assume "x \<in> set (vals (AList.delete k m))"
    then obtain e where e: "x = snd e" "e \<in> set m" "fst e \<noteq> k" by (auto simp: in_set_delete)
    moreover have "x \<noteq> v" using only_v [OF e(2)] e(1,3) by (metis fst_conv)
    ultimately show "x \<in> set (vals m) - {v}" by simp
  next
    fix x
    assume "x \<in> set (vals m) - {v}"
    then obtain e where e: "x = snd e" "e \<in> set m" "x \<noteq> v" by auto
    moreover have "fst e \<noteq> k" using only_k [OF e(2)] e(1,3) by (metis snd_conv)
    ultimately show "x \<in> set (vals (AList.delete k m))" by (simp add: in_set_delete)
  qed
  ultimately show ?thesis ..
qed

lemma timers_reap_ok: "timers_ok ts \<Longrightarrow> timers_ok (fst (snd (timers_reap os p ts s)))"
  using vals_delete [of "tm_pending ts" p]
  by (cases "map_of (tm_pending ts) p")
    (auto simp: timers_ok_def timers_reap_eq Let_def split_def timers_state_same distinct_keys_delete)

subsection \<open>Which timers fire\<close>

lemma due_names_spec:
  "due_names os tds ts s = (Some ns, u) \<Longrightarrow> distinct (map td_name tds) \<Longrightarrow>
   distinct ns \<and> set ns \<subseteq> td_name ` set tds - tm_running ts \<and> ev s \<le> ev u \<and> clock s \<le> clock u \<and>
   (\<forall>n \<in> set ns. \<exists>td \<in> set tds. \<exists>t. td_name td = n \<and> clock s \<le> t \<and> t \<le> clock u \<and> is_due t td ts = Some True)"
proof (induction tds arbitrary: s ns u)
  case Nil
  then show ?case by simp
next
  case (Cons td tds)
  show ?case
  proof (cases "td_name td \<in> tm_running ts")
    case True
    with Cons.prems have "due_names os tds ts s = (Some ns, u)" by simp
    from Cons.IH [OF this] Cons.prems(2) show ?thesis by auto
  next
    case False
    obtain t s1 where n: "now os s = (t, s1)" by fastforce
    then have s1: "clock s \<le> t" "clock s1 = t" "ev s \<le> ev s1" by (auto simp: now_def Let_def)
    with Cons.prems(1) False n obtain due rest where due: "is_due t td ts = Some due"
      and rest: "due_names os tds ts s1 = (Some rest, u)"
      and ns: "ns = (if due then td_name td # rest else rest)"
      by (auto simp: Let_def split: option.splits prod.splits)
    have IH: "distinct rest \<and> set rest \<subseteq> td_name ` set tds - tm_running ts \<and> ev s1 \<le> ev u \<and> clock s1 \<le> clock u \<and>
      (\<forall>n \<in> set rest. \<exists>td \<in> set tds. \<exists>t. td_name td = n \<and> clock s1 \<le> t \<and> t \<le> clock u \<and> is_due t td ts = Some True)"
      using Cons.IH [OF rest] Cons.prems(2) by simp
    moreover have "td_name td \<notin> set rest" using IH Cons.prems(2) by auto
    moreover have "\<exists>td \<in> set (td # tds). \<exists>t. td_name td = n \<and> clock s \<le> t \<and> t \<le> clock u \<and> is_due t td ts = Some True"
      if "n \<in> set ns" for n
    proof (cases "n \<in> set rest")
      case True
      with IH s1 show ?thesis by (meson le_trans list.set_intros(2))
    next
      case False
      with that ns have "n = td_name td" "due" by (auto split: if_splits)
      with due IH s1 show ?thesis by auto
    qed
    ultimately show ?thesis using s1 ns False by auto
  qed
qed

lemma resolve_ev: "ev s \<le> ev (snd (resolve_opt (resolve_uid os) x s))" "ev s \<le> ev (snd (resolve_opt (resolve_gid os) x s))"
  and resolve_clock: "clock (snd (resolve_opt (resolve_uid os) x s)) = clock s"
    "clock (snd (resolve_opt (resolve_gid os) x s)) = clock s"
  by (auto simp: resolve_opt_def resolve_uid_def resolve_gid_def read_to_string_def Let_def
      split: option.splits sum.splits)

lemma spawn_oneshot_spec:
  assumes "spawn_oneshot os d s = (r, u)"
  obtains n c where "ev s \<le> n" "n < ev u" "r = os_spawn os n c" "clock u = clock s"
proof -
  obtain uid s1 where 1: "resolve_opt (resolve_uid os) (sd_user d) s = (uid, s1)" by fastforce
  obtain gid s2 where 2: "resolve_opt (resolve_gid os) (sd_group d) s1 = (gid, s2)" by fastforce
  have "ev s \<le> ev s2" "clock s2 = clock s"
    using resolve_ev [of s os] resolve_ev [of s1 os] resolve_clock [of os _ s] resolve_clock [of os _ s1] 1 2
    by (metis le_trans snd_conv)+
  with assms 1 2 show ?thesis
    by (auto simp: spawn_oneshot_def spawn_def emit_def Let_def intro!: that [of "ev s2"])
qed

text \<open>Firing a list of names that are neither running nor repeated.\<close>

lemma fire_all_spec:
  assumes uniq: "pids_unique os"
  shows "timers_ok ts \<Longrightarrow> fresh_from os (ev s) (timer_pids ts) \<Longrightarrow> distinct ns \<Longrightarrow>
    set ns \<inter> tm_running ts = {} \<Longrightarrow> fire_all os defs ns ts s = (ts', s') \<Longrightarrow>
    timers_ok ts' \<and> fresh_from os (ev s') (timer_pids ts') \<and> set (tm_pending ts) \<subseteq> set (tm_pending ts') \<and>
    set (vals (tm_pending ts')) \<subseteq> set (vals (tm_pending ts)) \<union> set ns \<and>
    tm_last_finished ts' = tm_last_finished ts \<and> tm_boot ts' = tm_boot ts \<and> clock s' = clock s"
proof (induction ns arbitrary: ts s)
  case Nil
  then show ?case by simp
next
  case (Cons who names)
  show ?case
  proof (cases "List.find (\<lambda>d. sd_name d = who) defs")
    case None
    let ?t = "log_at os Warn (''timer '' @ quote who @ '': no matching service definition, skipping'') s"
    have "fire_all os defs names ts ?t = (ts', s')" using Cons.prems(5) None by simp
    from Cons.IH [OF Cons.prems(1) _ _ _ this] Cons.prems show ?thesis by (auto simp: frame)
  next
    case (Some d)
    obtain r s1 where sp: "spawn_oneshot os d s = (r, s1)" by fastforce
    obtain n c where n: "ev s \<le> n" "n < ev s1" "r = os_spawn os n c" "clock s1 = clock s"
      using spawn_oneshot_spec [OF sp] by blast
    have f1: "fresh_from os (ev s1) (timer_pids ts)" using Cons.prems(2) n by (auto intro: fresh_from_mono)
    show ?thesis
    proof (cases r)
      case (Inl e)
      let ?t = "log_at os Error (''timer '' @ quote who @ '': failed to start: '' @ e) s1"
      have "fire_all os defs names ts ?t = (ts', s')" using Cons.prems(5) Some sp Inl by simp
      from Cons.IH [OF Cons.prems(1) _ _ _ this] Cons.prems f1 n show ?thesis by (auto simp: frame)
    next
      case (Inr p)
      let ?ts = "ts\<lparr>tm_running := insert who (tm_running ts), tm_pending := AList.update p who (tm_pending ts)\<rparr>"
      let ?t = "log_at os Info (''timer '' @ quote who @ '': started pid '' @ show_int p) s1"
      have "p \<notin> timer_pids ts" using Cons.prems(2) n(1,3) Inr by (auto simp: fresh_from_def)
      then have tab: "tm_pending ?ts = tm_pending ts @ [(p, who)]" by (simp add: timer_pids_def update_new)
      have who: "who \<notin> tm_running ts" "who \<notin> set names" using Cons.prems(3,4) by auto
      have ok: "timers_ok ?ts"
        unfolding timers_ok_def tab
        using Cons.prems(1) who \<open>p \<notin> timer_pids ts\<close> by (auto simp: timers_ok_def timer_pids_def)
      have "timer_pids ?ts = timer_pids ts \<union> {p}" unfolding timer_pids_def tab by auto
      then have fr: "fresh_from os (ev ?t) (timer_pids ?ts)"
        using f1 pids_unique_fresh [OF uniq _ n(2), of c p] n(3) Inr
        unfolding \<open>timer_pids ?ts = _\<close> fresh_from_Un by (simp add: frame)
      have eq: "fire_all os defs names ?ts ?t = (ts', s')" using Cons.prems(5) Some sp Inr by simp
      have IH: "timers_ok ts' \<and> fresh_from os (ev s') (timer_pids ts') \<and> set (tm_pending ?ts) \<subseteq> set (tm_pending ts') \<and>
        set (vals (tm_pending ts')) \<subseteq> set (vals (tm_pending ?ts)) \<union> set names \<and>
        tm_last_finished ts' = tm_last_finished ?ts \<and> tm_boot ts' = tm_boot ?ts \<and> clock s' = clock ?t"
        using Cons.prems(3,4) who by (intro Cons.IH [OF ok fr _ _ eq]) auto
      then show ?thesis unfolding tab using n(4) by (auto simp: frame)
    qed
  qed
qed

lemma timers_tick_spec:
  assumes uniq: "pids_unique os" and ok: "timers_ok ts" and fr: "fresh_from os (ev s) (timer_pids ts)"
    and dist: "distinct (map td_name timers)" and r: "timers_tick os timers defs ts s = Ret (ts', s')"
  shows "timers_ok ts' \<and> fresh_from os (ev s') (timer_pids ts') \<and> set (tm_pending ts) \<subseteq> set (tm_pending ts') \<and>
    tm_last_finished ts' = tm_last_finished ts \<and>
    (\<forall>n \<in> set (vals (tm_pending ts')) - set (vals (tm_pending ts)).
       \<exists>td \<in> set timers. \<exists>t. td_name td = n \<and> clock s \<le> t \<and> t \<le> clock s' \<and>
         is_due t td (fst (timers_state os ts s)) = Some True)"
proof (cases "timers = []")
  case True
  then show ?thesis using r ok fr by (simp add: timers_tick_def)
next
  case False
  obtain ts1 s1 where st: "timers_state os ts s = (ts1, s1)" by fastforce
  have same: "tm_pending ts1 = tm_pending ts" "tm_running ts1 = tm_running ts" "tm_last_finished ts1 = tm_last_finished ts"
    using timers_state_same [of os ts s] st by simp_all
  have s1: "ev s \<le> ev s1" "clock s \<le> clock s1"
    using timers_state_ev [of s os ts] timers_state_clock [of s os ts] st by simp_all
  obtain ns s2 where dn: "due_names os timers ts1 s1 = (Some ns, s2)" and fa: "fire_all os defs ns ts1 s2 = (ts', s')"
    using r False st by (auto simp: timers_tick_def Let_def split: prod.splits option.splits)
  from due_names_spec [OF dn dist] have dns: "distinct ns" "set ns \<inter> tm_running ts1 = {}" "ev s1 \<le> ev s2"
    and due: "\<forall>n \<in> set ns. \<exists>td \<in> set timers. \<exists>t. td_name td = n \<and> clock s1 \<le> t \<and> t \<le> clock s2 \<and> is_due t td ts1 = Some True"
    by auto
  have ok1: "timers_ok ts1" using ok by (simp add: timers_ok_def same)
  have fr1: "fresh_from os (ev s2) (timer_pids ts1)"
    using fr s1 dns(3) by (auto simp: timer_pids_def same intro: fresh_from_mono)
  have fire: "timers_ok ts' \<and> fresh_from os (ev s') (timer_pids ts') \<and> set (tm_pending ts) \<subseteq> set (tm_pending ts') \<and>
      tm_last_finished ts' = tm_last_finished ts" and sub: "set (vals (tm_pending ts')) \<subseteq> set (vals (tm_pending ts)) \<union> set ns"
    and clk: "clock s' = clock s2"
    using fire_all_spec [OF uniq ok1 fr1 dns(1,2) fa] by (simp_all add: same)
  have "\<exists>td \<in> set timers. \<exists>t. td_name td = n \<and> clock s \<le> t \<and> t \<le> clock s' \<and> is_due t td ts1 = Some True"
    if "n \<in> set (vals (tm_pending ts')) - set (vals (tm_pending ts))" for n
  proof -
    have "n \<in> set ns" using that sub by blast
    with due obtain td t where "td \<in> set timers" "td_name td = n" "clock s1 \<le> t" "t \<le> clock s2" "is_due t td ts1 = Some True"
      by blast
    then show ?thesis using s1(2) clk by (intro bexI [of _ td] exI [of _ t]) auto
  qed
  with fire st show ?thesis by simp
qed

text \<open>What has been started once with \<open>OnBootSec=\<close> alone is never due again.\<close>

lemma boot_only_not_due:
  "tm_last_finished ts (td_name td) \<noteq> None \<Longrightarrow> td_on_active td = None \<Longrightarrow> is_due t td ts = Some False"
  by (auto simp: is_due_def)

lemma interval_respected:
  "tm_last_finished ts (td_name td) = Some f \<Longrightarrow> td_on_active td = Some d \<Longrightarrow> is_due t td ts = Some True \<Longrightarrow> f + d \<le> t"
  by (auto simp: is_due_def due_at_def dest!: instant_add_Some)

end
