(* ===== verification/Apps.thy ===== *)
theory Apps
  imports Cgroups Owners
begin

text \<open>
  \<open>src/apps.rs\<close>: launching an application on request. The permission daemon, the SHA-256 of the
  \<open>sha2\<close> crate, the wall clock and the environment are the record \<open>host\<close>, again answering the
  interaction with a given number. The state is the registry and the sequence counter.
  \<open>launch\<close> is the composition of \<open>launch_spawn\<close> (up to and including \<open>cmd.spawn()\<close>) and
  \<open>launch_register\<close>, because the main loop can reap a child between the two.
\<close>

text \<open>What came back on the daemon's socket.\<close>

datatype daemon_reply = No_socket | Write_failed | Read_failed | Reply string

record host =
  h_read :: "nat \<Rightarrow> string \<Rightarrow> io_error + u8 list"
  h_sha256 :: "u8 list \<Rightarrow> u8 list"
  h_daemon :: "nat \<Rightarrow> string \<Rightarrow> daemon_reply"
  h_wall :: "nat \<Rightarrow> u64 option"
  h_term :: "nat \<Rightarrow> string option"

definition APPS_CGROUP_ROOT :: string where
  "APPS_CGROUP_ROOT = ''/sys/fs/cgroup/mitos-init/apps''"

record app_info =
  ai_id :: string
  ai_path :: string
  ai_args :: "string list"
  ai_pid :: pid
  ai_sha256 :: string

record apps_state =
  by_pid :: "(pid \<times> app_info) list"
  next_seq :: u64

definition apps_init :: apps_state where
  "apps_init = \<lparr>by_pid = [], next_seq = 1\<rparr>"

subsection \<open>Authorisation and identity\<close>

text \<open>\<open>authorize\<close>: \<open>None\<close> is \<open>Ok(())\<close>.\<close>

definition authorize :: "os \<Rightarrow> string \<Rightarrow> daemon_reply \<Rightarrow> 'a kernel_scheme \<Rightarrow> string option \<times> 'a kernel_scheme" where
  "authorize os path reply s =
     (case reply of
        Reply text \<Rightarrow>
          (let response = trim text
           in if response = ''ALLOW'' then (None, s)
              else if response = ''DENY'' \<or> starts_with ''ASK'' response
              then (Some (''not permitted by mitos-service ('' @ response @ '')''),
                    log_at os Info (''app launch for '' @ quote path @ '' blocked by mitos-service: '' @ response) s)
              else (Some (''unrecognized response from mitos-service: '' @ response),
                    log_at os Warn (''mitos-service gave an unrecognized CHECK response '' @ quote response
                      @ '', denying'') s))
      | _ \<Rightarrow> (None, s))"

definition hex_byte :: "u8 \<Rightarrow> string" where
  "hex_byte b = [digit_char (unat b div 16), digit_char (unat b mod 16)]"

definition hash_file :: "host \<Rightarrow> string \<Rightarrow> 'a kernel_scheme \<Rightarrow> (string + string) \<times> 'a kernel_scheme" where
  "hash_file h path s =
     (case h_read h (ev s) path of
        Inl e \<Rightarrow> (Inl (''couldn'' @ [squote] @ ''t read '' @ quote path @ '': '' @ e), s\<lparr>ev := Suc (ev s)\<rparr>)
      | Inr bytes \<Rightarrow> (Inr (concat (map hex_byte (h_sha256 h bytes))), s\<lparr>ev := Suc (ev s)\<rparr>))"

definition app_id :: "u64 \<Rightarrow> u64 \<Rightarrow> string" where
  "app_id secs seq = ''app-'' @ show_hex (unat secs) @ ''-'' @ show_hex (unat seq)"

definition next_id :: "host \<Rightarrow> apps_state \<Rightarrow> 'a kernel_scheme \<Rightarrow> string \<times> apps_state \<times> 'a kernel_scheme" where
  "next_id h a s =
     (let seq = next_seq a;
          secs = (case h_wall h (ev s) of None \<Rightarrow> 0 | Some t \<Rightarrow> t)
      in (app_id secs seq, a\<lparr>next_seq := seq + 1\<rparr>, s\<lparr>ev := Suc (ev s)\<rparr>))"

subsection \<open>Launching\<close>

definition app_command :: "string \<Rightarrow> string list \<Rightarrow> string \<Rightarrow> string option \<Rightarrow> sandbox \<Rightarrow> command" where
  "app_command path args appid term sb =
     (command_new path)
       \<lparr>cmd_args := args, cmd_env_clear := True,
        cmd_env :=
          [(''MITOS_APP_ID'', appid),
           (''PATH'', ''/usr/local/sbin:/usr/local/bin:/usr/sbin:/usr/bin:/sbin:/bin'')]
          @ (case term of None \<Rightarrow> [] | Some t \<Rightarrow> [(''TERM'', t)]),
        cmd_pre_exec := Some (Pre_app sb)\<rparr>"

definition launch_spawn ::
  "os \<Rightarrow> host \<Rightarrow> string \<Rightarrow> string list \<Rightarrow> apps_state \<Rightarrow> 'a kernel_scheme \<Rightarrow>
   (string + app_info) \<times> apps_state \<times> 'a kernel_scheme" where
  "launch_spawn os h path args a s =
     (let (r, s) = hash_file h path s
      in case r of
           Inl e \<Rightarrow> (Inl e, a, s)
         | Inr sha \<Rightarrow>
             (let reply = h_daemon h (ev s) (''CHECK '' @ sha @ '' app_launch'' @ [nl]);
                  (denied, s) = authorize os path reply (s\<lparr>ev := Suc (ev s)\<rparr>)
              in case denied of
                   Some e \<Rightarrow> (Inl e, a, s)
                 | None \<Rightarrow>
                     (let (appid, a, s) = next_id h a s;
                          s = snd (prepare_intermediate os APPS_CGROUP_ROOT s);
                          (caps, s) = read_to_string os ''/proc/sys/kernel/cap_last_cap'' s;
                          sandbox = prepare (case caps of Inl e \<Rightarrow> None | Inr t \<Rightarrow> Some t);
                          term = h_term h (ev s);
                          (r, s) = spawn os (app_command path args appid term sandbox) (s\<lparr>ev := Suc (ev s)\<rparr>)
                      in case r of
                           Inl e \<Rightarrow> (Inl (''couldn'' @ [squote] @ ''t launch '' @ quote path @ '': '' @ e), a, s)
                         | Inr p \<Rightarrow>
                             (Inr \<lparr>ai_id = appid, ai_path = path, ai_args = args, ai_pid = p, ai_sha256 = sha\<rparr>,
                              a, s))))"

definition launch_register ::
  "os \<Rightarrow> app_info \<Rightarrow> apps_state \<Rightarrow> 'a kernel_scheme \<Rightarrow> string \<times> apps_state \<times> 'a kernel_scheme" where
  "launch_register os info a s =
     (let s = snd (create_under os APPS_CGROUP_ROOT (ai_id info) None s);
          s = attach_under os APPS_CGROUP_ROOT (ai_id info) (ai_pid info) s;
          s = log_at os Info (''launched app '' @ quote (ai_id info) @ '' ('' @ ai_path info @ '') as pid ''
                @ show_int (ai_pid info) @ '', sha256:'' @ ai_sha256 info) s
      in (ai_id info, a\<lparr>by_pid := AList.update (ai_pid info) info (by_pid a)\<rparr>, s))"

definition launch ::
  "os \<Rightarrow> host \<Rightarrow> string \<Rightarrow> string list \<Rightarrow> apps_state \<Rightarrow> 'a kernel_scheme \<Rightarrow>
   (string + string) \<times> apps_state \<times> 'a kernel_scheme" where
  "launch os h path args a s =
     (let (r, a, s) = launch_spawn os h path args a s
      in case r of
           Inl e \<Rightarrow> (Inl e, a, s)
         | Inr info \<Rightarrow> (let (i, a, s) = launch_register os info a s in (Inr i, a, s)))"

definition apps_reap :: "os \<Rightarrow> pid \<Rightarrow> apps_state \<Rightarrow> 'a kernel_scheme \<Rightarrow> bool \<times> apps_state \<times> 'a kernel_scheme" where
  "apps_reap os p a s =
     (case map_of (by_pid a) p of
        None \<Rightarrow> (False, a, s)
      | Some info \<Rightarrow>
          (let a = a\<lparr>by_pid := AList.delete p (by_pid a)\<rparr>;
               s = log_at os Info (''app '' @ quote (ai_id info) @ '' ('' @ ai_path info @ '') exited'') s
           in (True, a, kill_and_remove_under os APPS_CGROUP_ROOT (ai_id info) s)))"

definition apps_list :: "apps_state \<Rightarrow> string" where
  "apps_list a =
     (if by_pid a = [] then ''no running apps''
      else join [nl]
        ((show_nat (length (by_pid a)) @ '' running app(s):'')
         # map (\<lambda>(p, info). ''  '' @ ai_id info @ '' pid '' @ show_int (ai_pid info) @ '': '' @ ai_path info
                  @ '' '' @ join '' '' (ai_args info) @ '' (sha256:'' @ ai_sha256 info @ '')'') (by_pid a)))"

subsection \<open>The registry\<close>

definition app_pids :: "apps_state \<Rightarrow> pid set" where
  "app_pids a = set (keys (by_pid a))"

interpretation app: pid_owner "\<lambda>(a, s). app_pids a" "\<lambda>p (a, s). apps_reap os p a s" for os
proof
  fix p and st :: "apps_state \<times> 'a kernel_scheme"
  obtain a s where st: "st = (a, s)" by fastforce
  have "(fst (apps_reap os p a s) \<longleftrightarrow> p \<in> app_pids a) \<and> app_pids (fst (snd (apps_reap os p a s))) = app_pids a - {p}"
  proof (cases "map_of (by_pid a) p")
    case None
    then have "p \<notin> app_pids a" by (simp add: app_pids_def map_of_eq_None_iff)
    with None show ?thesis by (simp add: apps_reap_def)
  next
    case (Some info)
    then have "p \<in> app_pids a" by (force simp: app_pids_def dest: map_of_SomeD)
    with Some show ?thesis by (auto simp: apps_reap_def Let_def app_pids_def AList.delete_keys)
  qed
  then show "fst (case st of (a, s) \<Rightarrow> apps_reap os p a s) \<longleftrightarrow> p \<in> (case st of (a, s) \<Rightarrow> app_pids a)"
    "(case snd (case st of (a, s) \<Rightarrow> apps_reap os p a s) of (a, s) \<Rightarrow> app_pids a) =
      (case st of (a, s) \<Rightarrow> app_pids a) - {p}"
    by (simp_all add: st split_def)
qed

text \<open>Every entry is filed under its own pid.\<close>

definition apps_ok :: "apps_state \<Rightarrow> bool" where
  "apps_ok a \<longleftrightarrow> distinct (keys (by_pid a)) \<and> (\<forall>(p, info) \<in> set (by_pid a). ai_pid info = p)"

lemma apps_ok_init [simp]: "apps_ok apps_init"
  by (simp add: apps_ok_def apps_init_def)

lemma launch_register_ok: "apps_ok a \<Longrightarrow> apps_ok (fst (snd (launch_register os info a s)))"
  by (auto simp: apps_ok_def launch_register_def Let_def in_set_update_distinct distinct_keys_update)

lemma apps_reap_ok: "apps_ok a \<Longrightarrow> apps_ok (fst (snd (apps_reap os p a s)))"
  by (auto simp: apps_ok_def apps_reap_def Let_def in_set_delete distinct_keys_delete split: option.split)

lemma launch_spawn_by_pid: "by_pid (fst (snd (launch_spawn os h path args a s))) = by_pid a"
  by (simp add: launch_spawn_def next_id_def Let_def split_def split: sum.split option.split)

subsection \<open>Denials\<close>

lemma authorize_iff:
  "fst (authorize os path reply s) = None \<longleftrightarrow>
   (\<forall>text. reply = Reply text \<longrightarrow> trim text = ''ALLOW'')"
  by (cases reply) (simp_all add: authorize_def Let_def)

lemma authorize_frame: "trace (snd (authorize os path reply s)) = trace s" "ev (snd (authorize os path reply s)) = ev s"
  by (cases reply; simp add: authorize_def Let_def frame)+

text \<open>A launch the daemon answered with anything but ALLOW does not reach the spawn.\<close>

lemma denied_launch:
  assumes "h_read h (ev s) path = Inr bytes"
    and "h_daemon h (Suc (ev s)) (''CHECK '' @ concat (map hex_byte (h_sha256 h bytes)) @ '' app_launch'' @ [nl]) = Reply text"
    and "trim text \<noteq> ''ALLOW''"
  shows "\<exists>e. fst (launch os h path args a s) = Inl e" "fst (snd (launch os h path args a s)) = a"
    "trace (snd (snd (launch os h path args a s))) = trace s"
proof -
  let ?s1 = "s\<lparr>ev := Suc (ev s)\<rparr>"
  let ?au = "authorize os path (Reply text) (?s1\<lparr>ev := Suc (Suc (ev s))\<rparr>)"
  obtain e where e: "fst ?au = Some e"
    using authorize_iff [of os path "Reply text" "?s1\<lparr>ev := Suc (Suc (ev s))\<rparr>"] assms(3) by (cases "fst ?au") auto
  have "launch_spawn os h path args a s = (Inl e, a, snd ?au)"
    using assms(1,2) e by (simp add: launch_spawn_def hash_file_def Let_def split_def)
  then have "launch os h path args a s = (Inl e, a, snd ?au)" by (simp add: launch_def)
  then show "\<exists>e. fst (launch os h path args a s) = Inl e" "fst (snd (launch os h path args a s)) = a"
    "trace (snd (snd (launch os h path args a s))) = trace s"
    by (simp_all add: authorize_frame)
qed

subsection \<open>Identifiers\<close>

lemma show_hex_no_dash: "CHR ''-'' \<notin> set (show_hex n)"
  using show_base_chars [of 16 "CHR ''-''" n] by (auto simp: show_hex_def code_def)

lemma app_id_inj: "app_id t1 q1 = app_id t2 q2 \<longleftrightarrow> t1 = t2 \<and> q1 = q2"
proof
  assume "app_id t1 q1 = app_id t2 q2"
  then have "split_once CHR ''-'' (show_hex (unat t1) @ CHR ''-'' # show_hex (unat q1)) =
      split_once CHR ''-'' (show_hex (unat t2) @ CHR ''-'' # show_hex (unat q2))"
    by (simp add: app_id_def)
  then have "show_hex (unat t1) = show_hex (unat t2)" "show_hex (unat q1) = show_hex (unat q2)"
    by (simp_all add: split_once_append show_hex_no_dash)
  then have "unat t1 = unat t2" "unat q1 = unat q2" unfolding show_hex_def by (auto dest: show_base_inj [rotated 2])
  then show "t1 = t2 \<and> q1 = q2" by (simp add: word_unat_eq_iff)
qed simp

end
