(* ===== verification/Ipc.thy ===== *)
theory Ipc
  imports Kernel
begin

text \<open>
  \<open>src/signals.rs\<close> (the request flags and the handler that sets them), the shared cells and the
  dispatch of \<open>src/ipc.rs\<close>, and the line \<open>src/bin/mitosctl.rs\<close> sends. \<open>handle\<close> is split at the
  points where it leaves the listener's own state: \<open>ipc_request\<close> does everything up to the
  answer and says how the answer is obtained.
\<close>

subsection \<open>Signals\<close>

record flags =
  reboot_requested :: bool
  poweroff_requested :: bool
  halt_requested :: bool
  reload_requested :: bool
  status_dump_requested :: bool

definition flags_init :: flags where
  "flags_init = \<lparr>reboot_requested = False, poweroff_requested = False, halt_requested = False,
     reload_requested = False, status_dump_requested = False\<rparr>"

text \<open>\<open>Signal as i32\<close>, the Linux numbers.\<close>

fun signal_number :: "signal \<Rightarrow> int" where
  "signal_number SIGINT = 2"
| "signal_number SIGQUIT = 3"
| "signal_number SIGKILL = 9"
| "signal_number SIGUSR1 = 10"
| "signal_number SIGUSR2 = 12"
| "signal_number SIGTERM = 15"
| "signal_number (SIG_other n name) = int n"

definition on_signal :: "int \<Rightarrow> flags \<Rightarrow> flags" where
  "on_signal raw f =
     (if raw = signal_number SIGINT then f\<lparr>reboot_requested := True\<rparr>
      else if raw = signal_number SIGTERM then f\<lparr>poweroff_requested := True\<rparr>
      else if raw = signal_number SIGQUIT then f\<lparr>halt_requested := True\<rparr>
      else if raw = signal_number SIGUSR1 then f\<lparr>reload_requested := True\<rparr>
      else if raw = signal_number SIGUSR2 then f\<lparr>status_dump_requested := True\<rparr>
      else f)"

subsection \<open>The cells shared with the main loop\<close>

record ipc_state =
  last_status :: "u64 \<times> string"
  last_targets :: "string \<times> string list"
  pending_isolate :: "string option"
  sig_flags :: flags

definition ipc_init :: ipc_state where
  "ipc_init = \<lparr>last_status = (0, []), last_targets = ([], []), pending_isolate = None, sig_flags = flags_init\<rparr>"

definition publish_status :: "string \<Rightarrow> ipc_state \<Rightarrow> ipc_state" where
  "publish_status text i = i\<lparr>last_status := (fst (last_status i) + 1, text)\<rparr>"

definition snapshot :: "ipc_state \<Rightarrow> u64 \<times> string" where
  "snapshot i = last_status i"

definition publish_targets :: "string \<Rightarrow> string list \<Rightarrow> ipc_state \<Rightarrow> ipc_state" where
  "publish_targets current all i = i\<lparr>last_targets := (current, all)\<rparr>"

definition targets_response :: "ipc_state \<Rightarrow> string" where
  "targets_response i =
     (let (current, all) = last_targets i
      in if all = [] then ''no targets published yet'' @ [nl]
         else join [nl]
           ((''active: '' @ current)
            # map (\<lambda>name. (if name = current then ''*'' else '' '') @ '' '' @ name) all @ [[]]))"

definition request_isolate :: "string \<Rightarrow> ipc_state \<Rightarrow> ipc_state" where
  "request_isolate name i = i\<lparr>pending_isolate := Some name\<rparr>"

definition take_pending_isolate :: "ipc_state \<Rightarrow> string option \<times> ipc_state" where
  "take_pending_isolate i = (pending_isolate i, i\<lparr>pending_isolate := None\<rparr>)"

definition set_flag :: "(flags \<Rightarrow> flags) \<Rightarrow> ipc_state \<Rightarrow> ipc_state" where
  "set_flag f i = i\<lparr>sig_flags := f (sig_flags i)\<rparr>"

subsection \<open>The listener\<close>

definition SOCKET_PATH :: string where
  "SOCKET_PATH = ''/run/mitos-services/control.sock''"

text \<open>\<open>run\<close> up to its loop; an error is what \<open>?\<close> returns, and \<open>spawn_listener\<close> logs it.\<close>

definition ipc_bind :: "os \<Rightarrow> 'a kernel_scheme \<Rightarrow> (io_error + unit) \<times> 'a kernel_scheme" where
  "ipc_bind os s =
     (let (e, s) = fs os (Create_dir_all ''/run/mitos-services'') s
      in case e of
           Some err \<Rightarrow> (Inl err, s)
         | None \<Rightarrow>
             (let s = snd (fs os (Remove_file SOCKET_PATH) s);
                  (e, s) = fs os (Bind_stream SOCKET_PATH) s
              in case e of
                   Some err \<Rightarrow> (Inl err, s)
                 | None \<Rightarrow>
                     (let s = snd (fs os (Set_permissions SOCKET_PATH 384) s)
                      in (Inr (), log_at os Debug ''IPC listener up'' s))))"

text \<open>
  What \<open>incoming()\<close> yields, up to the line: the connection failed, it could not be cloned, no line
  could be read from it (an error, or not UTF-8), or it sent this line.
\<close>

datatype connection = Accept_failed io_error | Clone_failed | Line_failed | Line string

subsection \<open>One connection\<close>

text \<open>How the answer of a command is obtained.\<close>

datatype ipc_action =
    Answer string
  | Await_status
  | Launch_app string "string list"
  | List_apps
  | Show_logs string

definition split_command :: "string \<Rightarrow> string \<times> string" where
  "split_command line =
     (let trimmed = trim line;
          (cmd, rest) = (case split_once CHR '' '' trimmed of None \<Rightarrow> (trimmed, []) | Some p \<Rightarrow> p)
      in (cmd, trim rest))"

definition ipc_request :: "string \<Rightarrow> ipc_state \<Rightarrow> ipc_action \<times> ipc_state" where
  "ipc_request line i =
     (let (cmd, rest) = split_command line
      in if cmd = ''STATUS'' then (Await_status, set_flag (status_dump_requested_update (\<lambda>_. True)) i)
         else if cmd = ''RELOAD'' then
           (Answer (''reload requested - see the log for the outcome'' @ [nl]),
            set_flag (reload_requested_update (\<lambda>_. True)) i)
         else if cmd = ''PING'' then (Answer (''PONG'' @ [nl]), i)
         else if cmd = ''TARGETS'' then (Answer (targets_response i), i)
         else if cmd = ''ISOLATE'' then
           (if rest = [] then (Answer (''usage: ISOLATE <target-name>'' @ [nl]), i)
            else (Answer (''isolate to '' @ quote rest @ '' requested - see the log for the outcome'' @ [nl]),
                  request_isolate rest i))
         else if cmd = ''LAUNCH'' then
           (if rest = [] then (Answer (''usage: LAUNCH <path> [args...]'' @ [nl]), i)
            else
              (case split_whitespace rest of
                 [] \<Rightarrow> (Launch_app [] [], i)
               | path # args \<Rightarrow> (Launch_app path args, i)))
         else if cmd = ''APPS'' then (List_apps, i)
         else if cmd = ''LOGS'' then (Show_logs rest, i)
         else (Answer (''unknown command '' @ quote cmd @ [nl]), i))"

definition logs_response :: "string \<Rightarrow> journal \<Rightarrow> string" where
  "logs_response filt j =
     (let ls = recent filt j
      in if ls = [] then ''no matching log lines buffered'' @ [nl] else join [nl] ls @ [nl])"

definition launch_response :: "string + string \<Rightarrow> string" where
  "launch_response r =
     (case r of Inr i \<Rightarrow> ''launched: '' @ i @ [nl] | Inl e \<Rightarrow> ''launch failed: '' @ e @ [nl])"

text \<open>
  \<open>wait_for_fresh_status\<close>: what the cell holds changes under the polling loop, so the snapshot
  taken at the interaction with a given number is an argument.
\<close>

function status_loop ::
  "os \<Rightarrow> (nat \<Rightarrow> u64 \<times> string) \<Rightarrow> u64 \<Rightarrow> instant \<Rightarrow> 'a kernel_scheme \<Rightarrow> string \<times> 'a kernel_scheme" where
  "status_loop os cell before deadline s =
     (let (t, s') = now os s
      in if t < deadline
         then
           (let (version, text) = cell (ev s')
            in if version \<noteq> before then (text @ [nl], s')
               else status_loop os cell before deadline (sleep os (from_millis 20) s'))
         else (''status request timed out'' @ [nl], s'))"
  by pat_completeness auto
termination
  by (relation "measure (\<lambda>(os, cell, before, deadline, s). deadline - clock s)")
    (auto simp: now_def sleep_def from_millis_def Let_def)

declare status_loop.simps [simp del]

definition wait_for_fresh_status ::
  "os \<Rightarrow> (nat \<Rightarrow> u64 \<times> string) \<Rightarrow> duration \<Rightarrow> 'a kernel_scheme \<Rightarrow> string \<times> 'a kernel_scheme" where
  "wait_for_fresh_status os cell timeout s =
     (let before = fst (cell (ev s));
          (t, s) = now os (s\<lparr>ev := Suc (ev s)\<rparr>)
      in status_loop os cell before (t + timeout) s)"

subsection \<open>The client\<close>

text \<open>
  \<open>to_uppercase\<close>: the argument gives the upper-case form of a character outside ASCII.
\<close>

definition to_uppercase :: "(char \<Rightarrow> string) \<Rightarrow> string \<Rightarrow> string" where
  "to_uppercase up s = concat (map (\<lambda>c. if code c < 128 then [ascii_upper c] else up c) s)"

definition mitosctl_line :: "(char \<Rightarrow> string) \<Rightarrow> string list \<Rightarrow> string" where
  "mitosctl_line up args =
     (let (command, rest) = (case args of [] \<Rightarrow> (''status'', []) | c # r \<Rightarrow> (c, r))
      in if rest = [] then to_uppercase up command
         else to_uppercase up command @ '' '' @ join '' '' rest)"

text \<open>What became of the connection, given the text that was sent.\<close>

datatype client_io = Connect_failed io_error | Send_failed | Receive_failed | Received_text string

record client_exit =
  cx_code :: int
  cx_stdout :: string
  cx_stderr :: "string list"

definition mitosctl_main :: "(char \<Rightarrow> string) \<Rightarrow> string list \<Rightarrow> (string \<Rightarrow> client_io) \<Rightarrow> client_exit" where
  "mitosctl_main up args server =
     (case server (mitosctl_line up args @ [nl]) of
        Connect_failed e \<Rightarrow>
          \<lparr>cx_code = 1, cx_stdout = [],
           cx_stderr = [''mitosctl: couldn'' @ [squote] @ ''t connect to '' @ SOCKET_PATH @ '': '' @ e,
                        ''(is mitos-services running?)'']\<rparr>
      | Send_failed \<Rightarrow>
          \<lparr>cx_code = 1, cx_stdout = [], cx_stderr = [''mitosctl: couldn'' @ [squote] @ ''t send command'']\<rparr>
      | Receive_failed \<Rightarrow>
          \<lparr>cx_code = 1, cx_stdout = [], cx_stderr = [''mitosctl: couldn'' @ [squote] @ ''t read response'']\<rparr>
      | Received_text response \<Rightarrow> \<lparr>cx_code = 0, cx_stdout = response, cx_stderr = []\<rparr>)"

subsection \<open>Requests\<close>

definition is_token :: "string \<Rightarrow> bool" where
  "is_token s \<longleftrightarrow> s \<noteq> [] \<and> (\<forall>c \<in> set s. \<not> is_ws c)"

lemma nl_ws [simp]: "is_ws nl"
  by (simp add: is_ws_def nl_def code_def)

lemma trim_snoc_nl: "trim (s @ [nl]) = trim s"
proof (cases "\<forall>c \<in> set s. is_ws c")
  case True
  then have d: "dropWhile is_ws s = []" "dropWhile is_ws (s @ [nl]) = []" by (simp_all add: dropWhile_eq_Nil_conv)
  show ?thesis unfolding trim_def trim_by_def d by simp
next
  case False
  then obtain x where "x \<in> set s" "\<not> is_ws x" by blast
  then show ?thesis unfolding trim_def trim_by_def by (simp add: dropWhile_append_stop)
qed

lemma join_tokens_ends:
  "xs \<noteq> [] \<Longrightarrow> \<forall>x \<in> set xs. is_token x \<Longrightarrow>
   join '' '' xs \<noteq> [] \<and> hd (join '' '' xs) = hd (hd xs) \<and> last (join '' '' xs) = last (last xs)"
proof (induction xs rule: induct_list012)
  case (3 x y zs)
  then have "join '' '' (y # zs) \<noteq> []" "last (join '' '' (y # zs)) = last (last (y # zs))" by auto
  with 3 show ?case by (auto simp: is_token_def)
qed (auto simp: is_token_def)

lemma trim_join_tokens: "xs \<noteq> [] \<Longrightarrow> \<forall>x \<in> set xs. is_token x \<Longrightarrow> trim (join '' '' xs) = join '' '' xs"
proof -
  assume xs: "xs \<noteq> []" "\<forall>x \<in> set xs. is_token x"
  then have "is_token (hd xs)" "is_token (last xs)" by auto
  then have "\<not> is_ws (hd (hd xs))" "\<not> is_ws (last (last xs))" by (auto simp: is_token_def)
  with join_tokens_ends [OF xs] show ?thesis by (intro trim_id) simp
qed

lemma split_command_join:
  assumes "is_token cmd" "rest \<noteq> []" "\<not> is_ws (hd rest)" "\<not> is_ws (last rest)"
  shows "split_command (cmd @ '' '' @ rest @ [nl]) = (cmd, rest)"
proof -
  have "trim (cmd @ '' '' @ rest) = cmd @ '' '' @ rest"
    using assms by (intro trim_id) (auto simp: is_token_def)
  then have "trim (cmd @ '' '' @ rest @ [nl]) = cmd @ '' '' @ rest"
    using trim_snoc_nl [of "cmd @ '' '' @ rest"] by simp
  moreover have "split_once CHR '' '' (cmd @ CHR '' '' # rest) = Some (cmd, rest)"
    using assms(1) by (intro split_once_append) (auto simp: is_token_def)
  moreover have "trim rest = rest" using assms by (intro trim_id) simp
  ultimately show ?thesis by (simp add: split_command_def Let_def)
qed

lemma split_command_bare:
  assumes "is_token cmd" shows "split_command (cmd @ [nl]) = (cmd, [])"
proof -
  have "trim (cmd @ [nl]) = cmd" using assms by (simp add: trim_snoc_nl trim_no_ws is_token_def)
  moreover have "split_once CHR '' '' cmd = None"
    using assms by (auto simp: split_once_None_iff is_token_def)
  ultimately show ?thesis by (simp add: split_command_def Let_def)
qed

lemma to_uppercase_ascii: "\<forall>c \<in> set s. code c < 128 \<Longrightarrow> to_uppercase up s = map ascii_upper s"
  by (induction s) (simp_all add: to_uppercase_def)

lemma upper_words:
  "map ascii_upper ''launch'' = ''LAUNCH''" "map ascii_upper ''isolate'' = ''ISOLATE''"
  "map ascii_upper ''reload'' = ''RELOAD''" "map ascii_upper ''status'' = ''STATUS''"
  "map ascii_upper ''ping'' = ''PING''" "map ascii_upper ''targets'' = ''TARGETS''"
  by code_simp+

lemma ascii_words:
  "\<forall>c \<in> set ''launch''. code c < 128" "\<forall>c \<in> set ''isolate''. code c < 128"
  "\<forall>c \<in> set ''reload''. code c < 128" "\<forall>c \<in> set ''status''. code c < 128"
  "\<forall>c \<in> set ''ping''. code c < 128" "\<forall>c \<in> set ''targets''. code c < 128"
  by (simp_all add: code_def)

lemmas command_words = to_uppercase_ascii [OF ascii_words(1)] to_uppercase_ascii [OF ascii_words(2)]
  to_uppercase_ascii [OF ascii_words(3)] to_uppercase_ascii [OF ascii_words(4)]
  to_uppercase_ascii [OF ascii_words(5)] to_uppercase_ascii [OF ascii_words(6)]

lemma launch_request:
  assumes "is_token path" "\<forall>x \<in> set args. is_token x"
  shows "ipc_request (mitosctl_line up (''launch'' # path # args) @ [nl]) i = (Launch_app path args, i)"
proof -
  let ?r = "join '' '' (path # args)"
  have tok: "\<forall>x \<in> set (path # args). is_token x" using assms by simp
  have line: "mitosctl_line up (''launch'' # path # args) @ [nl] = ''LAUNCH'' @ '' '' @ ?r @ [nl]"
    unfolding mitosctl_line_def Let_def list.case prod.case command_words upper_words by simp
  have ends: "?r \<noteq> []" "\<not> is_ws (hd ?r)" "\<not> is_ws (last ?r)"
    using join_tokens_ends [OF _ tok] tok last_in_set [of "path # args"] by (auto simp: is_token_def)
  have "split_command (''LAUNCH'' @ '' '' @ ?r @ [nl]) = (''LAUNCH'', ?r)"
    by (rule split_command_join) (use ends in \<open>simp_all add: is_token_def is_ws_def code_def\<close>)
  moreover have "split_whitespace ?r = path # args"
    using tok by (intro split_whitespace_join) (simp add: is_token_def)
  ultimately show ?thesis using ends(1) unfolding line by (simp add: ipc_request_def)
qed

lemma isolate_request:
  assumes "t \<noteq> []" "\<not> is_ws (hd t)" "\<not> is_ws (last t)"
  shows "pending_isolate (snd (ipc_request (mitosctl_line up [''isolate'', t] @ [nl]) i)) = Some t"
proof -
  have line: "mitosctl_line up [''isolate'', t] @ [nl] = ''ISOLATE'' @ '' '' @ t @ [nl]"
    unfolding mitosctl_line_def Let_def list.case prod.case command_words upper_words by simp
  have "split_command (''ISOLATE'' @ '' '' @ t @ [nl]) = (''ISOLATE'', t)"
    by (rule split_command_join) (use assms in \<open>simp_all add: is_token_def is_ws_def code_def\<close>)
  then show ?thesis using assms(1) unfolding line by (simp add: ipc_request_def request_isolate_def)
qed

text \<open>The reload command and SIGUSR1 are the same request, and so are STATUS and SIGUSR2.\<close>

lemma bare_request:
  "ipc_request (mitosctl_line up [''reload''] @ [nl]) i =
     (Answer (''reload requested - see the log for the outcome'' @ [nl]),
      set_flag (on_signal (signal_number SIGUSR1)) i)"
  "ipc_request (mitosctl_line up [''status''] @ [nl]) i =
     (Await_status, set_flag (on_signal (signal_number SIGUSR2)) i)"
  "mitosctl_line up [] = mitosctl_line up [''status'']"
proof -
  have line: "mitosctl_line up [''reload''] @ [nl] = ''RELOAD'' @ [nl]"
    "mitosctl_line up [''status''] @ [nl] = ''STATUS'' @ [nl]"
    unfolding mitosctl_line_def Let_def list.case prod.case command_words upper_words by simp_all
  have split: "split_command (''RELOAD'' @ [nl]) = (''RELOAD'', [])" "split_command (''STATUS'' @ [nl]) = (''STATUS'', [])"
    by (rule split_command_bare, simp add: is_token_def is_ws_def code_def)+
  show "ipc_request (mitosctl_line up [''reload''] @ [nl]) i =
     (Answer (''reload requested - see the log for the outcome'' @ [nl]),
      set_flag (on_signal (signal_number SIGUSR1)) i)"
    unfolding line using split by (simp add: ipc_request_def set_flag_def on_signal_def)
  show "ipc_request (mitosctl_line up [''status''] @ [nl]) i =
     (Await_status, set_flag (on_signal (signal_number SIGUSR2)) i)"
    unfolding line using split by (simp add: ipc_request_def set_flag_def on_signal_def)
qed (simp add: mitosctl_line_def)

lemma query_request:
  "ipc_request (mitosctl_line up [''ping''] @ [nl]) i = (Answer (''PONG'' @ [nl]), i)"
  "ipc_request (mitosctl_line up [''targets''] @ [nl]) i = (Answer (targets_response i), i)"
proof -
  have line: "mitosctl_line up [''ping''] @ [nl] = ''PING'' @ [nl]"
    "mitosctl_line up [''targets''] @ [nl] = ''TARGETS'' @ [nl]"
    unfolding mitosctl_line_def Let_def list.case prod.case command_words upper_words by simp_all
  have split: "split_command (''PING'' @ [nl]) = (''PING'', [])" "split_command (''TARGETS'' @ [nl]) = (''TARGETS'', [])"
    by (rule split_command_bare, simp add: is_token_def is_ws_def code_def)+
  show "ipc_request (mitosctl_line up [''ping''] @ [nl]) i = (Answer (''PONG'' @ [nl]), i)"
    "ipc_request (mitosctl_line up [''targets''] @ [nl]) i = (Answer (targets_response i), i)"
    unfolding line using split by (simp_all add: ipc_request_def)
qed

subsection \<open>Waiting for a status\<close>

lemma status_loop_result:
  "(\<exists>n version text. ev s \<le> n \<and> cell n = (version, text) \<and> version \<noteq> before \<and>
      fst (status_loop os cell before deadline s) = text @ [nl]) \<or>
   fst (status_loop os cell before deadline s) = ''status request timed out'' @ [nl] \<and>
   deadline \<le> clock (snd (status_loop os cell before deadline s))"
proof (induction os cell before deadline s rule: status_loop.induct)
  case (1 os cell before deadline s)
  obtain t s' where n: "now os s = (t, s')" by fastforce
  then have s': "clock s' = t" "ev s' = Suc (ev s)" by (auto simp: now_def Let_def)
  obtain v body where c: "cell (ev s') = (v, body)" by fastforce
  show ?case
  proof (cases "t < deadline")
    case False
    then show ?thesis using n s' by (simp add: status_loop.simps [of os cell before deadline s])
  next
    case True
    show ?thesis
    proof (cases "v = before")
      case False
      then show ?thesis using True n c s'
        by (intro disjI1 exI [of _ "ev s'"] exI [of _ v] exI [of _ body])
          (simp add: status_loop.simps [of os cell before deadline s])
    next
      case same: True
      let ?u = "sleep os (from_millis 20) s'"
      have eq: "status_loop os cell before deadline s = status_loop os cell before deadline ?u"
        using True n c same by (simp add: status_loop.simps [of os cell before deadline s])
      have "ev s \<le> ev ?u" by (simp add: sleep_def s')
      with "1.IH" [OF n [symmetric] refl True c [symmetric] refl] same show ?thesis
        unfolding eq by (meson le_trans)
    qed
  qed
qed

end
