(* ===== verification/Oom.thy ===== *)
theory Oom
  imports Kernel
begin

text \<open>
  \<open>src/oom.rs\<close>: reading \<open>/proc/pressure/memory\<close> and the round of the monitor thread
  (\<open>set_score_adjust\<close> is with its only caller, in \<open>Supervisor\<close>). The thread shares nothing with
  the event loop but the log. The \<open>f32\<close> operations the module uses, \<open>str::parse\<close>, the
  comparison with \<open>WARN_THRESHOLD\<close> and \<open>{:.1}\<close>, are a parameter.
\<close>

record 'f f32_ops =
  f_parse :: "string \<Rightarrow> 'f option"
  f_high :: "'f \<Rightarrow> bool"
  f_fixed1 :: "'f \<Rightarrow> string"

record 'f pressure =
  some_avg10 :: 'f
  full_avg10 :: 'f

definition CHECK_INTERVAL :: duration where
  "CHECK_INTERVAL = from_secs 30"

text \<open>The first field with the prefix, parsed: \<open>find_map(..).and_then(..)\<close>.\<close>

definition avg10_field :: "'f f32_ops \<Rightarrow> string \<Rightarrow> 'f option" where
  "avg10_field F rest =
     (case List.map_filter (strip_prefix ''avg10='') (split_whitespace rest) of
        [] \<Rightarrow> None | v # vs \<Rightarrow> f_parse F v)"

text \<open>The loop over the lines; the outer \<open>None\<close> is the early return of \<open>?\<close>.\<close>

fun pressure_lines :: "'f f32_ops \<Rightarrow> string list \<Rightarrow> 'f option \<times> 'f option \<Rightarrow> ('f option \<times> 'f option) option" where
  "pressure_lines F [] acc = Some acc"
| "pressure_lines F (line # ls) acc =
     (case split_once CHR '' '' line of
        None \<Rightarrow> None
      | Some (label, rest) \<Rightarrow>
          (let avg10 = avg10_field F rest
           in pressure_lines F ls
                (if label = ''some'' then (avg10, snd acc)
                 else if label = ''full'' then (fst acc, avg10)
                 else acc)))"

definition parse_pressure :: "'f f32_ops \<Rightarrow> string \<Rightarrow> 'f pressure option" where
  "parse_pressure F text =
     (case pressure_lines F (lines text) (None, None) of
        None \<Rightarrow> None
      | Some (s, f) \<Rightarrow>
          (case s of None \<Rightarrow> None
           | Some s10 \<Rightarrow> (case f of None \<Rightarrow> None | Some f10 \<Rightarrow> Some \<lparr>some_avg10 = s10, full_avg10 = f10\<rparr>)))"

definition read_pressure :: "'f f32_ops \<Rightarrow> os \<Rightarrow> 'a kernel_scheme \<Rightarrow> 'f pressure option \<times> 'a kernel_scheme" where
  "read_pressure F os s =
     (let (r, s) = read_to_string os ''/proc/pressure/memory'' s
      in (case r of Inl e \<Rightarrow> None | Inr text \<Rightarrow> parse_pressure F text, s))"

text \<open>One round of the monitor's \<open>loop\<close>.\<close>

definition monitor_round :: "'f f32_ops \<Rightarrow> os \<Rightarrow> 'a kernel_scheme \<Rightarrow> 'a kernel_scheme" where
  "monitor_round F os s =
     (let s = sleep os CHECK_INTERVAL s;
          (p, s) = read_pressure F os s
      in case p of
           None \<Rightarrow> s
         | Some p \<Rightarrow>
             if f_high F (some_avg10 p)
             then log_at os Warn
                    (''memory pressure high: some avg10='' @ f_fixed1 F (some_avg10 p) @ ''% full avg10=''
                       @ f_fixed1 F (full_avg10 p)
                       @ ''% - consider setting OOMScoreAdjust= on non-critical services'') s
             else s)"

subsection \<open>A well-formed file\<close>

definition psi_line :: "string \<Rightarrow> string \<Rightarrow> string list \<Rightarrow> string" where
  "psi_line label value others = join '' '' (label # (''avg10='' @ value) # others)"

definition no_space :: "string \<Rightarrow> bool" where
  "no_space s \<longleftrightarrow> s \<noteq> [] \<and> (\<forall>c \<in> set s. \<not> is_ws c)"

lemma psi_line_split:
  assumes "no_space label" "no_space value" "\<forall>x \<in> set others. no_space x"
  shows "\<exists>rest. split_once CHR '' '' (psi_line label value others) = Some (label, rest) \<and>
    avg10_field F rest = f_parse F value"
proof (intro exI conjI)
  let ?rest = "join '' '' ((''avg10='' @ value) # others)"
  have eq: "psi_line label value others = label @ CHR '' '' # ?rest"
    by (simp add: psi_line_def)
  have "CHR '' '' \<notin> set label" using assms(1) by (auto simp: no_space_def is_ws_def code_def)
  then show "split_once CHR '' '' (psi_line label value others) = Some (label, ?rest)"
    unfolding eq by (rule split_once_append)
  have "split_whitespace ?rest = (''avg10='' @ value) # others"
    using assms(2,3) by (intro split_whitespace_join) (auto simp: no_space_def is_ws_def code_def)
  moreover have "strip_prefix ''avg10='' (''avg10='' @ value) = Some value"
    by (simp add: strip_prefix_def starts_with_def)
  ultimately show "avg10_field F ?rest = f_parse F value"
    by (simp only: avg10_field_def List.map_filter_simps option.case list.case)
qed

lemma parse_psi_file:
  assumes "no_space x" "no_space y" "\<forall>v \<in> set xs \<union> set ys. no_space v"
  shows "parse_pressure F (psi_line ''some'' x xs @ [nl] @ psi_line ''full'' y ys @ [nl]) =
    (case (f_parse F x, f_parse F y) of
       (Some a, Some b) \<Rightarrow> Some \<lparr>some_avg10 = a, full_avg10 = b\<rparr> | _ \<Rightarrow> None)"
proof -
  have lab: "no_space ''some''" "no_space ''full''" by (simp_all add: no_space_def is_ws_def code_def)
  have ws: "is_ws nl" "is_ws cr" by (simp_all add: is_ws_def nl_def cr_def code_def)
  have clean: "nl \<notin> set (join '' '' vs) \<and> cr \<notin> set (join '' '' vs)" if "\<forall>v \<in> set vs. no_space v" for vs
    using that
  proof (induction vs rule: induct_list012)
    case (3 a b cs)
    then show ?case using ws by (auto simp: no_space_def nl_def cr_def)
  qed (use ws in \<open>auto simp: no_space_def\<close>)
  have v: "\<forall>v \<in> set (''some'' # (''avg10='' @ x) # xs). no_space v" "\<forall>v \<in> set (''full'' # (''avg10='' @ y) # ys). no_space v"
    using assms lab by (auto simp: no_space_def is_ws_def code_def)
  from clean [OF v(1)] clean [OF v(2)]
  have "lines (concat (map (\<lambda>l. l @ [nl]) [psi_line ''some'' x xs, psi_line ''full'' y ys])) =
      [psi_line ''some'' x xs, psi_line ''full'' y ys]"
    unfolding psi_line_def by (intro lines_concat) auto
  then have l: "lines (psi_line ''some'' x xs @ [nl] @ psi_line ''full'' y ys @ [nl]) =
      [psi_line ''some'' x xs, psi_line ''full'' y ys]"
    by simp
  have xs: "\<forall>v \<in> set xs. no_space v" "\<forall>v \<in> set ys. no_space v" using assms(3) by auto
  obtain r1 r2 where r: "split_once CHR '' '' (psi_line ''some'' x xs) = Some (''some'', r1)" "avg10_field F r1 = f_parse F x"
    "split_once CHR '' '' (psi_line ''full'' y ys) = Some (''full'', r2)" "avg10_field F r2 = f_parse F y"
    using psi_line_split [OF lab(1) assms(1) xs(1), of F] psi_line_split [OF lab(2) assms(2) xs(2), of F] by blast
  show ?thesis
    unfolding parse_pressure_def l by (simp add: r split: option.split)
qed

end
