(* ===== verification/Main_Loop.thy ===== *)
theory Main_Loop
  imports Sup_Lifecycle Rollback Timer_Facts Apps Ipc Oom
begin

text \<open>
  \<open>src/main.rs\<close>: start-up, one iteration of the event loop, and the interleaving of the main
  loop with signal handlers and the listener thread of \<open>src/ipc.rs\<close> as a step relation. The
  machine extends the supervisor by the variables of \<open>run_event_loop\<close> and by the state the
  other modules keep in statics.
\<close>

definition CONFIG_PATH :: string where
  "CONFIG_PATH = ''/etc/mitos/init.conf''"

definition SHUTDOWN_ACK_FIFO :: string where
  "SHUTDOWN_ACK_FIFO = ''/run/mitos-init/shutdown-ack''"

text \<open>
  Where the listener thread is between two of its steps: not created yet, created, waiting for a
  connection, inside a STATUS or a LAUNCH request, or returned because its socket could not be set up.
\<close>

datatype ipc_thread =
    Not_created
  | Created
  | Idle
  | Status_flagged
  | Status_waiting u64
  | App_started app_info
  | Returned

record machine = supervisor +
  m_cfg :: config
  m_target :: string
  m_timer_defs :: "timer_def list"
  m_watch :: "watch option"
  m_timers :: timer_state
  m_apps :: apps_state
  m_ipc :: ipc_state
  m_thread :: ipc_thread
  m_replies :: "string list"
  m_booted :: bool

text \<open>The three ways out of a part of the loop: go on, return from \<open>run_event_loop\<close>, panic.\<close>

datatype 'm ctl = Loop 'm | Leave 'm | Crash 'm

text \<open>
  The hook that \<open>install_panic_hook\<close> registers. What it prints, the location and the message of the
  panic, comes from the standard library: \<open>Instant + Duration\<close> is what panics.
\<close>

definition panic_hook :: "os \<Rightarrow> 'a kernel_scheme \<Rightarrow> 'a kernel_scheme" where
  "panic_hook os s = log_at os Error (''PANIC: '' @ os_panic_info os) s"

subsection \<open>Pieces of an iteration\<close>

definition load_config :: "os \<Rightarrow> 'a kernel_scheme \<Rightarrow> config \<times> 'a kernel_scheme" where
  "load_config os s =
     (let (cfg, s) = load_or_default os CONFIG_PATH s;
          (us, s) = units_load_all os s
      in (cfg\<lparr>cfg_services := fst (merge_services (cfg_services cfg) us)\<rparr>, s))"

definition apply_hostname :: "os \<Rightarrow> (string \<Rightarrow> string) \<Rightarrow> string option \<Rightarrow> 'a kernel_scheme \<Rightarrow> 'a kernel_scheme" where
  "apply_hostname os complaint h s =
     (case h of
        None \<Rightarrow> s
      | Some h \<Rightarrow>
          (let (e, s) = sethostname os h s
           in case e of None \<Rightarrow> s | Some err \<Rightarrow> log_at os Warn (complaint h @ err) s))"

definition acknowledge_shutdown :: "os \<Rightarrow> 'a kernel_scheme \<Rightarrow> 'a kernel_scheme" where
  "acknowledge_shutdown os s =
     (case os_ack os (ev s) of
        None \<Rightarrow> emit Shutdown_ack s
      | Some e \<Rightarrow>
          log_at os Debug (''couldn'' @ [squote] @ ''t open '' @ SHUTDOWN_ACK_FIFO
            @ '' to acknowledge shutdown: '' @ e) (s\<lparr>ev := Suc (ev s)\<rparr>))"

definition stop_services :: "os \<Rightarrow> duration \<Rightarrow> machine \<Rightarrow> machine ctl option" where
  "stop_services os grace m =
     map_option (\<lambda>r. case r of Ret m \<Rightarrow> Leave (acknowledge_shutdown os m) | Panic m \<Rightarrow> Crash (panic_hook os m))
       (shutdown_all os grace m)"

definition shutdown_requested :: "flags \<Rightarrow> bool" where
  "shutdown_requested f = (reboot_requested f \<or> poweroff_requested f \<or> halt_requested f)"

definition clear_shutdown :: "flags \<Rightarrow> flags" where
  "clear_shutdown f = f\<lparr>reboot_requested := False, poweroff_requested := False, halt_requested := False\<rparr>"

definition set_ipc :: "(ipc_state \<Rightarrow> ipc_state) \<Rightarrow> machine \<Rightarrow> machine" where
  "set_ipc f m = m\<lparr>m_ipc := f (m_ipc m)\<rparr>"

definition phase_reload :: "os \<Rightarrow> machine \<Rightarrow> machine" where
  "phase_reload os m =
     (if \<not> reload_requested (sig_flags (m_ipc m)) then m
      else
        let m = set_ipc (set_flag (reload_requested_update (\<lambda>_. False))) m;
            m = log_at os Info ''reloading config'' m;
            (new_cfg, m) = load_config os m;
            m = set_log_level (cfg_loglevel new_cfg) m;
            m = apply_hostname os (\<lambda>h. ''failed to apply reloaded hostname: '') (cfg_hostname new_cfg) m;
            (tds, m) = timers_load_all os m;
            m = m\<lparr>m_timer_defs := tds\<rparr>;
            (w, m) = rollback_begin os new_cfg (m_cfg m) (m_target m) m;
            m = m\<lparr>m_watch := Some w, m_cfg := new_cfg\<rparr>
        in set_ipc (publish_targets (m_target m) (targets_list (cfg_services (m_cfg m)))) m)"

definition phase_isolate :: "os \<Rightarrow> machine \<Rightarrow> machine" where
  "phase_isolate os m =
     (let (req, i) = take_pending_isolate (m_ipc m);
          m = m\<lparr>m_ipc := i\<rparr>
      in case req of
           None \<Rightarrow> m
         | Some name \<Rightarrow>
             (let available = targets_list (cfg_services (m_cfg m))
              in if name \<notin> set available
                 then log_at os Warn (''isolate: no services configured for target '' @ quote name
                        @ '', ignoring'') m
                 else
                   let m = log_at os Info (''isolating to target '' @ quote name) m;
                       m = snd (reload_services os (services_in (cfg_services (m_cfg m)) name) m);
                       m = m\<lparr>m_target := name\<rparr>
                   in set_ipc (publish_targets name available) m))"

definition phase_status :: "os \<Rightarrow> machine \<Rightarrow> machine" where
  "phase_status os m =
     (if \<not> status_dump_requested (sig_flags (m_ipc m)) then m
      else
        let m = set_ipc (set_flag (status_dump_requested_update (\<lambda>_. False))) m;
            summary = ''active target: '' @ m_target m @ [nl] @ status_summary m;
            m = log_at os Info summary m
        in set_ipc (publish_status summary) m)"

fun kill_expired :: "os \<Rightarrow> pid list \<Rightarrow> 'a kernel_scheme \<Rightarrow> 'a kernel_scheme" where
  "kill_expired os [] s = s"
| "kill_expired os (p # ps) s =
     kill_expired os ps
       (kill p SIGKILL
         (log_at os Error (''pid '' @ show_int p @ '' missed its watchdog deadline, killing it'') s))"

text \<open>\<open>timers::reap(pid) || apps::reap(pid)\<close>.\<close>

definition first_refusal :: "os \<Rightarrow> pid \<Rightarrow> machine \<Rightarrow> bool \<times> machine" where
  "first_refusal os p m =
     (let (b, ts, m) = timers_reap os p (m_timers m) m;
          m = m\<lparr>m_timers := ts\<rparr>
      in if b then (True, m)
         else
           let (b, a, m) = apps_reap os p (m_apps m) m
           in (b, m\<lparr>m_apps := a\<rparr>))"

text \<open>\<open>if let Some(w) = watch.take()\<close> at the end of the \<open>Ok\<close> arm.\<close>

definition check_watch :: "os \<Rightarrow> string option \<Rightarrow> machine \<Rightarrow> machine" where
  "check_watch os failed m =
     (case m_watch m of
        None \<Rightarrow> m
      | Some w \<Rightarrow>
          (let (w', cfg, m) = rollback_check os (m_cfg m) w failed m
           in m\<lparr>m_watch := w', m_cfg := cfg\<rparr>))"

definition dispatch_exit :: "os \<Rightarrow> duration \<Rightarrow> wait_status \<Rightarrow> machine \<Rightarrow> machine ctl option" where
  "dispatch_exit os grace status m =
     (let (handled, m) = (case exit_summary status of
                            None \<Rightarrow> (False, m) | Some (p, summary) \<Rightarrow> first_refusal os p m)
      in if handled then Some (Loop (check_watch os None m))
         else
           let (out, m) = handle_exit os status m
           in case out of
                Continue \<Rightarrow> Some (Loop (check_watch os None m))
              | GaveUp who \<Rightarrow> Some (Loop (check_watch os (Some who) m))
              | Halt who \<Rightarrow>
                  if (case m_watch m of None \<Rightarrow> False | Some w \<Rightarrow> watch_touched w who)
                  then Some (Loop (check_watch os (Some who) m))
                  else stop_services os grace
                         (log_at os Info ''critical service exited, stopping mitos-services'' m))"

definition dispatch_wait :: "os \<Rightarrow> duration \<Rightarrow> bool \<Rightarrow> wait_result \<Rightarrow> machine \<Rightarrow> machine ctl option" where
  "dispatch_wait os grace polling r m =
     (case r of
        Wait_ok status \<Rightarrow>
          if status = StillAlive
          then Some (Loop (check_watch os None (if polling then sleep_d os (from_millis 100) m else m)))
          else dispatch_exit os grace status m
      | Wait_err e \<Rightarrow>
          if e = EINTR then Some (Loop m)
          else if e = ECHILD
          then Some (Loop (sleep_d os (from_secs 1) (log_at os Warn ''no children left to wait for'' m)))
          else Some (Loop (log_at os Error (''waitpid failed: '' @ os_errno_text os e) m)))"

definition needs_polling :: "machine \<Rightarrow> bool" where
  "needs_polling m = (m_watch m \<noteq> None \<or> has_watchdog_services m \<or> has_any (m_timer_defs m))"

subsection \<open>One iteration\<close>

text \<open>\<open>None\<close>: the iteration never ends (the shutdown loop). Datagrams that arrived during
  \<open>waitpid\<close> are delivered after it.\<close>

definition iterate :: "os \<Rightarrow> duration \<Rightarrow> machine \<Rightarrow> machine ctl option" where
  "iterate os grace m =
     (let req = shutdown_requested (sig_flags (m_ipc m));
          m = set_ipc (set_flag clear_shutdown) m
      in if req
         then stop_services os grace
                (log_at os Info ''shutdown relayed from mitos-init - stopping services'' m)
         else
           let m = phase_status os (phase_isolate os (phase_reload os m))
           in case timers_tick os (m_timer_defs m) (cfg_services (m_cfg m)) (m_timers m) m of
                Panic (ts, m) \<Rightarrow> Some (Crash (panic_hook os (m\<lparr>m_timers := ts\<rparr>)))
              | Ret (ts, m) \<Rightarrow>
                  (let m = m\<lparr>m_timers := ts\<rparr>;
                       polling = needs_polling m;
                       (r, m) = waitpid os (- 1) polling m;
                       m = deliver os m;
                       (expired, m) = expired_watchdogs os m;
                       m = kill_expired os expired m
                   in dispatch_wait os grace polling r m))"

subsection \<open>Start-up\<close>

text \<open>\<open>src/error.rs\<close>: the error type and its \<open>Display\<close>.\<close>

datatype init_error =
    Mount_error string errno
  | Io_error io_error
  | Signal_error errno
  | Boot_error string

fun init_error_display :: "os \<Rightarrow> init_error \<Rightarrow> string" where
  "init_error_display os (Mount_error target source) = ''failed to mount '' @ target @ '': '' @ os_errno_text os source"
| "init_error_display os (Io_error e) = ''I/O error: '' @ e"
| "init_error_display os (Signal_error e) = ''signal setup failed: '' @ os_errno_text os e"
| "init_error_display os (Boot_error msg) = msg"

text \<open>\<open>impl From<io::Error> for InitError\<close>.\<close>

definition init_error_from :: "io_error \<Rightarrow> init_error" where
  "init_error_from e = Io_error e"

text \<open>\<open>src/signals.rs\<close>: the set-up calls, \<open>map_err(InitError::Signal)?\<close> after each.\<close>

definition signal_call :: "os \<Rightarrow> setup_call \<Rightarrow> 'a kernel_scheme \<Rightarrow> (init_error + unit) \<times> 'a kernel_scheme" where
  "signal_call os c s =
     (let (e, s) = process_setup os c s
      in ((case e of None \<Rightarrow> Inr () | Some err \<Rightarrow> Inl (Signal_error err)), s))"

fun sigactions :: "os \<Rightarrow> signal list \<Rightarrow> 'a kernel_scheme \<Rightarrow> (init_error + unit) \<times> 'a kernel_scheme" where
  "sigactions os [] s = (Inr (), s)"
| "sigactions os (sig # sigs) s =
     (let (r, s) = signal_call os (Sigaction sig) s
      in case r of Inl e \<Rightarrow> (Inl e, s) | Inr u \<Rightarrow> sigactions os sigs s)"

definition handled_set :: "signal list" where
  "handled_set = [SIGTERM, SIGINT, SIGQUIT, SIGUSR1, SIGUSR2]"

definition install_handlers :: "os \<Rightarrow> 'a kernel_scheme \<Rightarrow> (init_error + unit) \<times> 'a kernel_scheme" where
  "install_handlers os s = sigactions os [SIGTERM, SIGINT, SIGQUIT, SIGUSR1, SIGUSR2] s"

definition block_handled :: "os \<Rightarrow> 'a kernel_scheme \<Rightarrow> (init_error + unit) \<times> 'a kernel_scheme" where
  "block_handled os s = signal_call os (Sigmask_block handled_set) s"

definition unblock_handled :: "os \<Rightarrow> 'a kernel_scheme \<Rightarrow> (init_error + unit) \<times> 'a kernel_scheme" where
  "unblock_handled os s = signal_call os (Sigmask_unblock handled_set) s"

text \<open>\<open>if let Err(e) = ...\<close>: \<open>main\<close> only logs such a failure.\<close>

definition or_log ::
  "os \<Rightarrow> level \<Rightarrow> string \<Rightarrow> (init_error + unit) \<times> 'a kernel_scheme \<Rightarrow> 'a kernel_scheme" where
  "or_log os lvl msg r =
     (case r of
        (Inr u, s) \<Rightarrow> s
      | (Inl err, s) \<Rightarrow> log_at os lvl (msg @ init_error_display os err) s)"

definition become_subreaper :: "os \<Rightarrow> 'a kernel_scheme \<Rightarrow> 'a kernel_scheme" where
  "become_subreaper os s =
     (let (e, s) = process_setup os Become_subreaper s
      in case e of
           None \<Rightarrow> s
         | Some err \<Rightarrow>
             log_at os Warn (''couldn'' @ [squote] @ ''t become a child subreaper: '' @ os_errno_text os err
               @ '' - orphaned grandchildren of services may reparent to mitos-init instead of here'') s)"

text \<open>The process before \<open>main\<close>: statics at their initial values, a fresh supervisor.\<close>

definition machine_init :: "instant \<Rightarrow> machine" where
  "machine_init t =
     \<lparr>clock = t, ev = 0, trace = [], log_st = log_init, services = [], ready_st = ready_state_default,
      m_cfg = config_default, m_target = [], m_timer_defs = [], m_watch = None,
      m_timers = timer_state_init, m_apps = apps_init, m_ipc = ipc_init, m_thread = Not_created, m_replies = [],
      m_booted = False\<rparr>"

text \<open>\<open>main\<close> up to the creation of the two background threads, and from there to the event loop.\<close>

definition startup_begin :: "os \<Rightarrow> machine \<Rightarrow> machine" where
  "startup_begin os m =
     (let m = logging_init os m;
          m = log_at os Info ''mitos-services starting'' m;
          m = become_subreaper os m;
          (avail, m) = cgroups_available os m;
          m = (if avail then m
               else log_at os Warn (''cgroup delegation from mitos-init unavailable - falling back ''
                      @ ''to plain pid-based supervision only'') m);
          (cfg, m) = load_config os m;
          m = set_log_level (cfg_loglevel cfg) m;
          m = apply_hostname os (\<lambda>h. ''failed to set hostname to '' @ quote h @ '': '') (cfg_hostname cfg) m;
          m = or_log os Error ''failed to install signal handlers: '' (install_handlers os m);
          m = or_log os Warn ''failed to block signals ahead of worker threads: '' (block_handled os m)
      in m\<lparr>m_cfg := cfg, m_target := cfg_default_target cfg, m_thread := Created\<rparr>)"

definition startup_services :: "os \<Rightarrow> machine \<Rightarrow> machine" where
  "startup_services os m =
     (let m = set_ipc (publish_targets (m_target m) (targets_list (cfg_services (m_cfg m)))) m;
          (tds, m) = timers_load_all os m;
          m = m\<lparr>m_timer_defs := tds\<rparr>;
          m = spawn_all os (services_in (cfg_services (m_cfg m)) (m_target m)) m;
          m = or_log os Error ''failed to unblock signals: '' (unblock_handled os m)
      in m\<lparr>m_booted := True\<rparr>)"

definition startup :: "os \<Rightarrow> machine \<Rightarrow> machine" where
  "startup os m = startup_services os (startup_begin os m)"

definition shutdown_grace :: "config \<Rightarrow> duration" where
  "shutdown_grace cfg = from_secs (cfg_shutdown_timeout_secs cfg)"

subsection \<open>The listener thread\<close>

definition reply :: "string \<Rightarrow> machine \<Rightarrow> machine" where
  "reply text m = m\<lparr>m_thread := Idle, m_replies := m_replies m @ [text]\<rparr>"

text \<open>The thread's function before its first connection.\<close>

definition ipc_run :: "os \<Rightarrow> machine \<Rightarrow> machine" where
  "ipc_run os m =
     (let (r, m) = ipc_bind os m
      in case r of
           Inl e \<Rightarrow> (log_at os Warn (''IPC listener stopped: '' @ e) m)\<lparr>m_thread := Returned\<rparr>
         | Inr u \<Rightarrow> m\<lparr>m_thread := Idle\<rparr>)"

text \<open>A new connection with the line \<open>line\<close>, up to the point where the thread has to wait.\<close>

definition ipc_accept :: "os \<Rightarrow> host \<Rightarrow> string \<Rightarrow> machine \<Rightarrow> machine" where
  "ipc_accept os h line m =
     (let (act, i) = ipc_request line (m_ipc m);
          m = m\<lparr>m_ipc := i\<rparr>
      in case act of
           Answer text \<Rightarrow> reply text m
         | Await_status \<Rightarrow> m\<lparr>m_thread := Status_flagged\<rparr>
         | List_apps \<Rightarrow> reply (apps_list (m_apps m) @ [nl]) m
         | Show_logs filt \<Rightarrow> reply (logs_response filt (journal (log_st m))) m
         | Launch_app path args \<Rightarrow>
             (let (r, a, m) = launch_spawn os h path args (m_apps m) m;
                  m = m\<lparr>m_apps := a\<rparr>
              in case r of
                   Inl e \<Rightarrow> reply (launch_response (Inl e)) m
                 | Inr info \<Rightarrow> m\<lparr>m_thread := App_started info\<rparr>))"

definition ipc_connection :: "os \<Rightarrow> host \<Rightarrow> connection \<Rightarrow> machine \<Rightarrow> machine" where
  "ipc_connection os h conn m =
     (case conn of
        Accept_failed e \<Rightarrow> log_at os Debug (''IPC accept error: '' @ e) m
      | Clone_failed \<Rightarrow> m
      | Line_failed \<Rightarrow> m
      | Line line \<Rightarrow> ipc_accept os h line m)"

text \<open>The second part of a launch.\<close>

definition ipc_register :: "os \<Rightarrow> app_info \<Rightarrow> machine \<Rightarrow> machine" where
  "ipc_register os info m =
     (let (i, a, m) = launch_register os info (m_apps m) m
      in reply (launch_response (Inr i)) (m\<lparr>m_apps := a\<rparr>))"

subsection \<open>Interleaving\<close>

text \<open>
  The threads of the process: the main thread (the rest of its start-up, then iterations of the event
  loop), signal handlers, the listener of the control socket, and the memory pressure monitor.
\<close>

inductive step ::
  "os \<Rightarrow> host \<Rightarrow> 'f f32_ops \<Rightarrow> duration \<Rightarrow> machine \<Rightarrow> machine \<Rightarrow> bool" for os h F grace where
  boot: "\<not> m_booted m \<Longrightarrow> step os h F grace m (startup_services os m)"
| main: "m_booted m \<Longrightarrow> iterate os grace m = Some (Loop m') \<Longrightarrow> step os h F grace m m'"
| signal: "step os h F grace m (set_ipc (set_flag (on_signal raw)) m)"
| listen: "m_thread m = Created \<Longrightarrow> step os h F grace m (ipc_run os m)"
| accept: "m_thread m = Idle \<Longrightarrow> step os h F grace m (ipc_connection os h conn m)"
| snapshot: "m_thread m = Status_flagged \<Longrightarrow>
    step os h F grace m (m\<lparr>m_thread := Status_waiting (fst (snapshot (m_ipc m)))\<rparr>)"
| fresh: "m_thread m = Status_waiting v \<Longrightarrow> fst (snapshot (m_ipc m)) \<noteq> v \<Longrightarrow>
    step os h F grace m (reply (snd (snapshot (m_ipc m)) @ [nl]) m)"
| timeout: "m_thread m = Status_waiting v \<Longrightarrow> fst (snapshot (m_ipc m)) = v \<Longrightarrow>
    step os h F grace m (reply (''status request timed out'' @ [nl]) m)"
| register: "m_thread m = App_started info \<Longrightarrow> step os h F grace m (ipc_register os info m)"
| monitor: "step os h F grace m (monitor_round F os m)"

inductive reachable ::
  "os \<Rightarrow> host \<Rightarrow> 'f f32_ops \<Rightarrow> duration \<Rightarrow> machine \<Rightarrow> bool" for os h F grace where
  initial: "grace = shutdown_grace (m_cfg (startup_begin os (machine_init t))) \<Longrightarrow>
    reachable os h F grace (startup_begin os (machine_init t))"
| later: "reachable os h F grace m \<Longrightarrow> step os h F grace m m' \<Longrightarrow> reachable os h F grace m'"

inductive_cases step_cases: "step os h F grace m m'"

end
