(* ===== verification/Config_Facts.thy ===== *)
theory Config_Facts
  imports Config
begin

text \<open>
  Laws of the configuration: targets, merging, and the round trip of \<open>init.conf\<close>: a
  configuration printed by \<open>show_config\<close> parses back to itself without a warning.
\<close>

subsection \<open>Targets\<close>

lemma fold_collect_target:
  "distinct names \<Longrightarrow>
   distinct (fold collect_target all names) \<and>
   set (fold collect_target all names) = set names \<union> sd_target ` set all"
  by (induction all arbitrary: names) (auto simp: collect_target_def)

lemma targets_list_facts:
  "sorted (targets_list all)" "distinct (targets_list all)"
  "set (targets_list all) = sd_target ` set all"
  using fold_collect_target [of "[]" all] by (simp_all add: targets_list_def)

lemma services_in_nonempty_iff: "services_in all t \<noteq> [] \<longleftrightarrow> t \<in> set (targets_list all)"
  by (force simp: services_in_def targets_list_facts filter_empty_conv)

subsection \<open>Merging\<close>

text \<open>The first definition of each name not in \<open>seen\<close>.\<close>

fun first_named :: "string set \<Rightarrow> service_def list \<Rightarrow> service_def list" where
  "first_named seen [] = []"
| "first_named seen (d # ds) =
     (if sd_name d \<in> seen then first_named seen ds
      else d # first_named (insert (sd_name d) seen) ds)"

lemma merge_services_spec:
  "fst (merge_services base extra) = base @ first_named (sd_name ` set base) extra"
proof (induction extra arbitrary: base)
  case Nil
  then show ?case by simp
next
  case (Cons d extra)
  have iff: "(\<exists>s \<in> set base. sd_name s = sd_name d) \<longleftrightarrow> sd_name d \<in> sd_name ` set base"
    unfolding image_iff by metis
  show ?case
  proof (cases "sd_name d \<in> sd_name ` set base")
    case True
    with Cons.IH [of base] show ?thesis by (simp add: iff split_def Let_def)
  next
    case False
    with Cons.IH [of "base @ [d]"] show ?thesis by (simp add: iff)
  qed
qed

lemma merge_services_warnings:
  "length (snd (merge_services base extra)) + length (fst (merge_services base extra)) = length base + length extra"
  by (induction base extra rule: merge_services.induct) (simp_all add: split_def Let_def)

lemma first_named_subset: "set (first_named seen ds) \<subseteq> set ds"
  by (induction ds arbitrary: seen) auto

lemma first_named_distinct:
  "distinct (map sd_name (first_named seen ds)) \<and> sd_name ` set (first_named seen ds) \<inter> seen = {} \<and>
   sd_name ` set (first_named seen ds) = sd_name ` set ds - seen"
proof (induction ds arbitrary: seen)
  case Nil
  then show ?case by simp
next
  case (Cons d ds)
  from Cons.IH [of seen] Cons.IH [of "insert (sd_name d) seen"] show ?case
    by (cases "sd_name d \<in> seen") auto
qed

subsection \<open>The parser always yields services\<close>

lemma config_parse_nonempty: "cfg_services (fst (config_parse text)) \<noteq> []"
  by (simp add: config_parse_def Let_def split_def config_default_def)

lemma parse_service_name: "parse_service rest = Inr d \<Longrightarrow> is_ws c \<Longrightarrow> c \<notin> set (sd_name d) \<and> sd_name d \<noteq> []"
proof -
  assume p: "parse_service rest = Inr d" and c: "is_ws c"
  then obtain who parts where w: "split_whitespace rest = who # parts" and n: "sd_name d = who"
    by (auto simp: parse_service_def service_of_fields_def split: list.splits sum.splits option.splits)
  then have "who \<in> set (split_whitespace rest)" by simp
  from split_whitespace_pieces [OF this] c n show ?thesis by auto
qed

subsection \<open>Printing\<close>

definition list_field :: "string \<Rightarrow> string list \<Rightarrow> (string \<times> string) list" where
  "list_field key xs = (if xs = [] then [] else [(key, join '','' xs)])"

definition opt_field :: "string \<Rightarrow> string option \<Rightarrow> (string \<times> string) list" where
  "opt_field key x = (case x of None \<Rightarrow> [] | Some v \<Rightarrow> [(key, v)])"

definition bool_field :: "string \<Rightarrow> bool \<Rightarrow> (string \<times> string) list" where
  "bool_field key b = (if b then [(key, ''true'')] else [])"

definition env_pair :: "string \<times> string \<Rightarrow> string" where
  "env_pair e = fst e @ ''='' @ snd e"

definition show_kv :: "string \<times> string \<Rightarrow> string" where
  "show_kv kv = fst kv @ ''='' @ snd kv"

fun restart_text :: "restart_policy \<Rightarrow> string" where
  "restart_text Always = ''always''"
| "restart_text Never = ''never''"
| "restart_text OnFailure = ''on-failure''"

definition secs_of :: "duration \<Rightarrow> string" where
  "secs_of d = show_nat (d div nanos_per_sec)"

definition service_fields :: "service_def \<Rightarrow> (string \<times> string) list" where
  "service_fields d =
     [(''path'', sd_path d)] @ list_field ''args'' (sd_args d) @ bool_field ''critical'' (sd_critical d)
     @ [(''restart'', restart_text (sd_restart d))]
     @ opt_field ''mem_max'' (map_option (\<lambda>w. show_nat (unat w)) (sd_memory_limit d))
     @ list_field ''after'' (sd_after d) @ list_field ''after_ready'' (sd_after_ready d)
     @ list_field ''before'' (sd_before d) @ list_field ''requires'' (sd_requires d)
     @ list_field ''wants'' (sd_wants d) @ opt_field ''user'' (sd_user d) @ opt_field ''group'' (sd_group d)
     @ opt_field ''watchdog_sec'' (map_option secs_of (sd_watchdog_timeout d))
     @ list_field ''environment'' (map env_pair (sd_environment d)) @ opt_field ''workdir'' (sd_working_dir d)
     @ [(''target'', sd_target d)] @ bool_field ''private_tmp'' (sd_private_tmp d)
     @ bool_field ''protect_system'' (sd_protect_system d)
     @ bool_field ''no_new_privileges'' (sd_no_new_privileges d)
     @ opt_field ''oom_score_adjust'' (map_option (\<lambda>w. show_int (sint w)) (sd_oom_score_adjust d))"

definition show_service :: "service_def \<Rightarrow> string" where
  "show_service d = join '' '' (sd_name d # map show_kv (service_fields d))"

text \<open>What can be written on one line: no white space and no quotes in values, no commas in names.\<close>

definition plain :: "string \<Rightarrow> bool" where
  "plain s \<longleftrightarrow> (\<forall>c \<in> set s. \<not> is_ws c \<and> c \<noteq> dquote)"

definition plain_item :: "string \<Rightarrow> bool" where
  "plain_item s \<longleftrightarrow> s \<noteq> [] \<and> plain s \<and> CHR '','' \<notin> set s"

definition whole_secs :: "duration option \<Rightarrow> bool" where
  "whole_secs x = (case x of None \<Rightarrow> True | Some d \<Rightarrow> d mod nanos_per_sec = 0 \<and> d div nanos_per_sec < 2 ^ 64)"

definition printable_env :: "(string \<times> string) list \<Rightarrow> bool" where
  "printable_env es \<longleftrightarrow>
     (\<forall>(k, v) \<in> set es. plain k \<and> plain v \<and> CHR '','' \<notin> set k \<and> CHR '','' \<notin> set v \<and> CHR ''='' \<notin> set k)"

definition printable :: "service_def \<Rightarrow> bool" where
  "printable d \<longleftrightarrow>
     sd_name d \<noteq> [] \<and> plain (sd_name d) \<and> plain (sd_path d) \<and> plain (sd_target d) \<and>
     (\<forall>x \<in> set (sd_args d) \<union> set (sd_after d) \<union> set (sd_after_ready d) \<union> set (sd_before d) \<union>
        set (sd_requires d) \<union> set (sd_wants d). plain_item x) \<and>
     (\<forall>x \<in> set_option (sd_user d) \<union> set_option (sd_group d) \<union> set_option (sd_working_dir d). plain x) \<and>
     whole_secs (sd_watchdog_timeout d) \<and> printable_env (sd_environment d)"

lemma parse_name_list_join:
  "xs \<noteq> [] \<Longrightarrow> \<forall>x \<in> set xs. plain_item x \<Longrightarrow> parse_name_list (join '','' xs) = xs"
  unfolding parse_name_list_def
  by (subst split_on_join) (auto simp: plain_item_def intro!: filter_True)

lemma map_filter_env:
  "\<forall>(k, v) \<in> set es. CHR ''='' \<notin> set k \<Longrightarrow> List.map_filter (split_once CHR ''='') (map env_pair es) = es"
proof (induction es)
  case (Cons e es)
  then have "split_once CHR ''='' (env_pair e) = Some e"
    using split_once_append [of "CHR ''=''" "fst e" "snd e"] by (cases e) (simp add: env_pair_def)
  with Cons show ?case by (simp add: map_filter_def)
qed (simp add: map_filter_def)

lemma parse_env_list_join:
  assumes "es \<noteq> []" "printable_env es"
  shows "parse_env_list (join '','' (map env_pair es)) = es"
proof -
  have "split_on CHR '','' (join '','' (map env_pair es)) = map env_pair es"
    using assms by (intro split_on_join) (auto simp: printable_env_def env_pair_def)
  moreover have "filter (\<lambda>s. s \<noteq> []) (map env_pair es) = map env_pair es"
    by (rule filter_True) (auto simp: env_pair_def)
  ultimately show ?thesis
    unfolding parse_env_list_def using assms(2) by (simp add: map_filter_env printable_env_def split_def)
qed

lemma parse_secs_of: "whole_secs (Some d) \<Longrightarrow> parse_secs (secs_of d) = Some d"
proof -
  assume w: "whole_secs (Some d)"
  then have u: "unat (of_nat (d div nanos_per_sec) :: u64) = d div nanos_per_sec"
    by (simp add: whole_secs_def unat_of_nat)
  then have "parse_u64 (secs_of d) = Some (of_nat (d div nanos_per_sec))"
    unfolding secs_of_def by (metis parse_u64_show)
  with w u show ?thesis by (auto simp: parse_secs_def from_secs_def whole_secs_def)
qed

subsection \<open>Reading the fields back\<close>

definition read_fields :: "(string \<times> string) list \<Rightarrow> fields \<Rightarrow> fields" where
  "read_fields kvs f = fold (\<lambda>(k, v). service_key k v) kvs f"

lemma read_fields_append: "read_fields (xs @ ys) f = read_fields ys (read_fields xs f)"
  by (simp add: read_fields_def)

lemma read_fields_one: "read_fields [(k, v)] f = service_key k v f"
  by (simp add: read_fields_def)

lemma eq_ignore_true: "eq_ignore_ascii_case ''true'' ''true''"
  by (simp add: eq_ignore_ascii_case_def)

lemma read_bool_fields:
  "\<not> f_critical f \<Longrightarrow> read_fields (bool_field ''critical'' b) f = f\<lparr>f_critical := b\<rparr>"
  "\<not> f_private_tmp f \<Longrightarrow> read_fields (bool_field ''private_tmp'' b) f = f\<lparr>f_private_tmp := b\<rparr>"
  "\<not> f_protect_system f \<Longrightarrow> read_fields (bool_field ''protect_system'' b) f = f\<lparr>f_protect_system := b\<rparr>"
  "\<not> f_no_new_privileges f \<Longrightarrow> read_fields (bool_field ''no_new_privileges'' b) f = f\<lparr>f_no_new_privileges := b\<rparr>"
  by (cases f; simp add: bool_field_def read_fields_def service_key_def eq_ignore_true)+

lemma read_list_fields:
  assumes "\<forall>x \<in> set xs. plain_item x"
  shows "f_args f = [] \<Longrightarrow> read_fields (list_field ''args'' xs) f = f\<lparr>f_args := xs\<rparr>"
    "f_after f = [] \<Longrightarrow> read_fields (list_field ''after'' xs) f = f\<lparr>f_after := xs\<rparr>"
    "f_after_ready f = [] \<Longrightarrow> read_fields (list_field ''after_ready'' xs) f = f\<lparr>f_after_ready := xs\<rparr>"
    "f_before f = [] \<Longrightarrow> read_fields (list_field ''before'' xs) f = f\<lparr>f_before := xs\<rparr>"
    "f_requires f = [] \<Longrightarrow> read_fields (list_field ''requires'' xs) f = f\<lparr>f_requires := xs\<rparr>"
    "f_wants f = [] \<Longrightarrow> read_fields (list_field ''wants'' xs) f = f\<lparr>f_wants := xs\<rparr>"
  using parse_name_list_join [of xs] assms
  by (cases f; simp add: list_field_def read_fields_def service_key_def)+

lemma read_env_field:
  "printable_env es \<Longrightarrow> f_environment f = [] \<Longrightarrow>
   read_fields (list_field ''environment'' (map env_pair es)) f = f\<lparr>f_environment := es\<rparr>"
  using parse_env_list_join [of es]
  by (cases f; simp add: list_field_def read_fields_def service_key_def)

lemma read_opt_fields:
  "f_user f = None \<Longrightarrow> read_fields (opt_field ''user'' x) f = f\<lparr>f_user := x\<rparr>"
  "f_group f = None \<Longrightarrow> read_fields (opt_field ''group'' x) f = f\<lparr>f_group := x\<rparr>"
  "f_working_dir f = None \<Longrightarrow> read_fields (opt_field ''workdir'' x) f = f\<lparr>f_working_dir := x\<rparr>"
  by (cases f; cases x; simp add: opt_field_def read_fields_def service_key_def)+

lemma parse_size_bytes: "parse_size (show_nat (unat w)) = Some w"
  using parse_size_wraps [of w UBytes] by (simp add: show_size_def)

lemma read_mem_field:
  "f_memory_limit f = None \<Longrightarrow>
   read_fields (opt_field ''mem_max'' (map_option (\<lambda>w. show_nat (unat w)) m)) f = f\<lparr>f_memory_limit := m\<rparr>"
  by (cases m; cases f; simp add: opt_field_def read_fields_def service_key_def parse_size_bytes)

lemma read_oom_field:
  "f_oom_score_adjust f = None \<Longrightarrow>
   read_fields (opt_field ''oom_score_adjust'' (map_option (\<lambda>w. show_int (sint w)) x)) f = f\<lparr>f_oom_score_adjust := x\<rparr>"
  by (cases x; cases f; simp add: opt_field_def read_fields_def service_key_def rtxt)

lemma read_watchdog_field:
  "f_watchdog_timeout f = None \<Longrightarrow> whole_secs t \<Longrightarrow>
   read_fields (opt_field ''watchdog_sec'' (map_option secs_of t)) f = f\<lparr>f_watchdog_timeout := t\<rparr>"
  by (cases t; cases f; simp add: opt_field_def read_fields_def service_key_def parse_secs_of)

lemma read_plain_fields:
  "read_fields [(''path'', v)] f = f\<lparr>f_path := Some v\<rparr>"
  "read_fields [(''target'', v)] f = f\<lparr>f_target := Some v\<rparr>"
  "read_fields [(''restart'', restart_text r)] f = f\<lparr>f_restart := r\<rparr>"
  by (simp add: read_fields_def service_key_def, simp add: read_fields_def service_key_def,
      cases r, simp_all add: read_fields_def service_key_def)

text \<open>The local variables of the parser after all the fields of \<open>d\<close>.\<close>

definition fields_of :: "service_def \<Rightarrow> fields" where
  "fields_of d =
     \<lparr>f_path = Some (sd_path d), f_args = sd_args d, f_critical = sd_critical d, f_restart = sd_restart d,
      f_memory_limit = sd_memory_limit d, f_after = sd_after d, f_after_ready = sd_after_ready d,
      f_before = sd_before d, f_requires = sd_requires d, f_wants = sd_wants d, f_user = sd_user d,
      f_group = sd_group d, f_watchdog_timeout = sd_watchdog_timeout d, f_environment = sd_environment d,
      f_working_dir = sd_working_dir d, f_target = Some (sd_target d), f_private_tmp = sd_private_tmp d,
      f_protect_system = sd_protect_system d, f_no_new_privileges = sd_no_new_privileges d,
      f_oom_score_adjust = sd_oom_score_adjust d\<rparr>"

lemma service_of_fields_of: "service_of_fields (sd_name d) (sd_path d) (sd_args d) (fields_of d) = d"
  by (cases d) (simp add: service_of_fields_def fields_of_def)

lemma read_service_fields:
  assumes "printable d"
  shows "read_fields (service_fields d) (fields_init r) = fields_of d"
proof -
  have lists: "\<forall>x \<in> set (sd_args d). plain_item x" "\<forall>x \<in> set (sd_after d). plain_item x"
    "\<forall>x \<in> set (sd_after_ready d). plain_item x" "\<forall>x \<in> set (sd_before d). plain_item x"
    "\<forall>x \<in> set (sd_requires d). plain_item x" "\<forall>x \<in> set (sd_wants d). plain_item x"
    and w: "whole_secs (sd_watchdog_timeout d)" and e: "printable_env (sd_environment d)"
    using assms by (auto simp: printable_def)
  show ?thesis
    unfolding service_fields_def read_fields_append fields_init_def fields_of_def
    by (simp add: read_plain_fields read_bool_fields read_opt_fields read_mem_field read_oom_field
        read_watchdog_field [OF _ w] read_env_field [OF e] read_list_fields [OF lists(1)]
        read_list_fields [OF lists(2)] read_list_fields [OF lists(3)] read_list_fields [OF lists(4)]
        read_list_fields [OF lists(5)] read_list_fields [OF lists(6)])
qed

subsection \<open>Lines and files\<close>

lemma plain_simps [simp]:
  "plain []" "plain (c # s) \<longleftrightarrow> \<not> is_ws c \<and> c \<noteq> dquote \<and> plain s" "plain (s @ t) \<longleftrightarrow> plain s \<and> plain t"
  by (auto simp: plain_def)

lemma plain_join: "\<forall>x \<in> set xs. plain x \<Longrightarrow> plain (join '','' xs)"
  by (induction xs rule: induct_list012) (auto simp: is_ws_def code_def dquote_def)

lemma plain_show_nat: "plain (show_nat n)"
  unfolding plain_def using show_nat_digits [of _ n] by (fastforce simp: is_ws_code dquote_def code_def)

lemma plain_show_int: "plain (show_int i)"
  by (simp add: show_int_def plain_show_nat is_ws_def code_def dquote_def)

definition clean_kvs :: "(string \<times> string) list \<Rightarrow> bool" where
  "clean_kvs kvs \<longleftrightarrow> (\<forall>(k, v) \<in> set kvs. k \<noteq> [] \<and> CHR ''='' \<notin> set k \<and> plain k \<and> plain v)"

lemma clean_kvs_simps [simp]:
  "clean_kvs []" "clean_kvs (xs @ ys) \<longleftrightarrow> clean_kvs xs \<and> clean_kvs ys"
  by (auto simp: clean_kvs_def)

definition good_key :: "string \<Rightarrow> bool" where
  "good_key k \<longleftrightarrow> k \<noteq> [] \<and> CHR ''='' \<notin> set k \<and> plain k"

lemma clean_one: "clean_kvs [(k, v)] \<longleftrightarrow> good_key k \<and> plain v"
  by (auto simp: clean_kvs_def good_key_def)

lemma clean_fields:
  "good_key k \<Longrightarrow> \<forall>x \<in> set xs. plain x \<Longrightarrow> clean_kvs (list_field k xs)"
  "good_key k \<Longrightarrow> \<forall>v \<in> set_option x. plain v \<Longrightarrow> clean_kvs (opt_field k x)"
  "good_key k \<Longrightarrow> clean_kvs (bool_field k b)"
  by (auto simp: list_field_def opt_field_def bool_field_def clean_one plain_join is_ws_def code_def
      dquote_def split: option.split)

lemma clean_service_fields: "printable d \<Longrightarrow> clean_kvs (service_fields d)"
proof -
  assume p: "printable d"
  have keys: "good_key ''path''" "good_key ''args''" "good_key ''critical''" "good_key ''restart''"
    "good_key ''mem_max''" "good_key ''after''" "good_key ''after_ready''" "good_key ''before''"
    "good_key ''requires''" "good_key ''wants''" "good_key ''user''" "good_key ''group''"
    "good_key ''watchdog_sec''" "good_key ''environment''" "good_key ''workdir''" "good_key ''target''"
    "good_key ''private_tmp''" "good_key ''protect_system''" "good_key ''no_new_privileges''" "good_key ''oom_score_adjust''"
    by (simp_all add: good_key_def is_ws_def code_def dquote_def)
  have lists: "\<forall>x \<in> set (sd_args d). plain x" "\<forall>x \<in> set (sd_after d). plain x"
    "\<forall>x \<in> set (sd_after_ready d). plain x" "\<forall>x \<in> set (sd_before d). plain x"
    "\<forall>x \<in> set (sd_requires d). plain x" "\<forall>x \<in> set (sd_wants d). plain x"
    "\<forall>x \<in> set_option (sd_user d). plain x" "\<forall>x \<in> set_option (sd_group d). plain x"
    "\<forall>x \<in> set_option (sd_working_dir d). plain x"
    using p by (auto simp: printable_def plain_item_def)
  have env: "\<forall>x \<in> set (map env_pair (sd_environment d)). plain x"
    using p by (auto simp: printable_def printable_env_def env_pair_def is_ws_def code_def dquote_def)
  have r: "plain (restart_text (sd_restart d))"
    by (cases "sd_restart d") (simp_all add: is_ws_def code_def dquote_def)
  have nums: "\<forall>v \<in> set_option (map_option (\<lambda>w. show_nat (unat w)) (sd_memory_limit d)). plain v"
    "\<forall>v \<in> set_option (map_option secs_of (sd_watchdog_timeout d)). plain v"
    "\<forall>v \<in> set_option (map_option (\<lambda>w. show_int (sint w)) (sd_oom_score_adjust d)). plain v"
    by (auto simp: plain_show_nat plain_show_int secs_of_def)
  have main: "plain (sd_path d)" "plain (sd_target d)" using p by (auto simp: printable_def)
  show ?thesis
    unfolding service_fields_def clean_kvs_simps clean_one
    by (intro conjI clean_fields keys main r lists env nums)
qed

lemma parse_service_fields_clean:
  "clean_kvs kvs \<Longrightarrow> parse_service_fields (map show_kv kvs) f = Inr (read_fields kvs f)"
proof (induction kvs arbitrary: f)
  case Nil
  then show ?case by (simp add: read_fields_def)
next
  case (Cons kv kvs)
  obtain k v where kv: "kv = (k, v)" by fastforce
  with Cons.prems have "CHR ''='' \<notin> set k" "dquote \<notin> set v" and rest: "clean_kvs kvs"
    by (auto simp: clean_kvs_def plain_def)
  then have "split_once CHR ''='' (show_kv kv) = Some (k, v)" "trim_matches dquote v = v"
    by (simp_all add: kv show_kv_def split_once_append trim_matches_id)
  then show ?case using Cons.IH [OF rest] by (simp add: read_fields_def kv)
qed

lemma show_kv_token: "clean_kvs kvs \<Longrightarrow> x \<in> set (map show_kv kvs) \<Longrightarrow> x \<noteq> [] \<and> (\<forall>c \<in> set x. \<not> is_ws c)"
  unfolding clean_kvs_def show_kv_def plain_def by fastforce

lemma parse_show_service:
  assumes "printable d"
  shows "parse_service (show_service d) = Inr d"
proof -
  note cl = clean_service_fields [OF assms]
  have "split_whitespace (show_service d) = sd_name d # map show_kv (service_fields d)"
    unfolding show_service_def
    using show_kv_token [OF cl] assms
    by (intro split_whitespace_join) (auto simp: printable_def plain_def)
  moreover have "f_path (fields_of d) = Some (sd_path d)" "f_args (fields_of d) = sd_args d"
    by (simp_all add: fields_of_def)
  ultimately show ?thesis
    using read_service_fields [OF assms]
    by (simp add: parse_service_def parse_service_fields_clean [OF cl] service_of_fields_of)
qed

subsection \<open>The whole file\<close>

fun level_text :: "level \<Rightarrow> string" where
  "level_text Error = ''error''"
| "level_text Warn = ''warn''"
| "level_text Info = ''info''"
| "level_text Debug = ''debug''"

lemma level_parse_text: "level_parse (level_text l) = Some l"
  by (cases l) (simp_all add: level_parse_def ascii_lower_def code_def)

text \<open>A value that survives trimming of white space and of quotes on a line of its own.\<close>

definition line_value :: "string \<Rightarrow> bool" where
  "line_value v \<longleftrightarrow> (v = [] \<or> \<not> is_ws (hd v) \<and> \<not> is_ws (last v)) \<and> dquote \<notin> set v \<and> nl \<notin> set v \<and> cr \<notin> set v"

lemma plain_line_value: "plain v \<Longrightarrow> line_value v"
  by (auto simp: plain_def line_value_def is_ws_def nl_def cr_def code_def)

definition config_fields :: "string \<Rightarrow> config \<Rightarrow> (string \<times> string) list" where
  "config_fields host cfg =
     [(''hostname'', host), (''loglevel'', level_text (cfg_loglevel cfg)),
      (''shutdown_timeout'', show_nat (unat (cfg_shutdown_timeout_secs cfg))),
      (''default_target'', cfg_default_target cfg)]"

definition service_line :: "service_def \<Rightarrow> string" where
  "service_line d = ''service '' @ show_service d"

definition show_config :: "string \<Rightarrow> config \<Rightarrow> string" where
  "show_config host cfg =
     concat (map (\<lambda>l. l @ [nl]) (map show_kv (config_fields host cfg) @ map service_line (cfg_services cfg)))"

definition printable_config :: "string \<Rightarrow> config \<Rightarrow> bool" where
  "printable_config host cfg \<longleftrightarrow>
     cfg_hostname cfg = Some host \<and> line_value host \<and> line_value (cfg_default_target cfg) \<and>
     cfg_services cfg \<noteq> [] \<and> (\<forall>d \<in> set (cfg_services cfg). printable d)"

lemma config_line_key:
  assumes "good_key k" "hd k \<noteq> CHR ''#''" "strip_prefix ''service '' (show_kv (k, v)) = None" "line_value v"
  shows "config_line (show_kv (k, v)) cw = config_key k v cw"
proof -
  have k: "k \<noteq> []" "CHR ''='' \<notin> set k" "\<forall>c \<in> set k. \<not> is_ws c"
    using assms(1) by (auto simp: good_key_def plain_def)
  have "trim (show_kv (k, v)) = show_kv (k, v)"
    using k assms(4) by (intro trim_id) (auto simp: show_kv_def line_value_def)
  moreover have "\<not> starts_with ''#'' (show_kv (k, v))" "show_kv (k, v) \<noteq> []"
    using k(1) assms(2) by (auto simp: starts_with_def show_kv_def take_Suc)
  moreover have "split_once CHR ''='' (show_kv (k, v)) = Some (k, v)"
    using k by (simp add: show_kv_def split_once_append)
  moreover have "trim k = k" "trim v = v" "trim_matches dquote v = v"
    using k assms(4) by (auto simp: line_value_def intro: trim_no_ws trim_id trim_matches_id)
  ultimately show ?thesis using assms(3) by (simp add: config_line_def Let_def)
qed

lemma show_service_ends:
  assumes "printable d"
  shows "show_service d \<noteq> []" "\<not> is_ws (last (show_service d))" "\<forall>c \<in> set (show_service d). c \<noteq> nl \<and> c \<noteq> cr"
proof -
  let ?ts = "sd_name d # map show_kv (service_fields d)"
  have tok: "\<forall>x \<in> set ?ts. x \<noteq> [] \<and> (\<forall>c \<in> set x. \<not> is_ws c)"
    using show_kv_token [OF clean_service_fields [OF assms]] assms by (auto simp: printable_def plain_def)
  have ends: "xs \<noteq> [] \<Longrightarrow> \<forall>x \<in> set xs. x \<noteq> [] \<Longrightarrow> join '' '' xs \<noteq> [] \<and> last (join '' '' xs) = last (last xs)" for xs
    by (induction xs rule: induct_list012) auto
  have chars: "c \<in> set (join '' '' xs) \<Longrightarrow> c = CHR '' '' \<or> (\<exists>x \<in> set xs. c \<in> set x)" for c xs
    by (induction xs rule: induct_list012) auto
  show "show_service d \<noteq> []" using ends [of ?ts] tok unfolding show_service_def by blast
  have "last ?ts \<in> set ?ts" by (rule last_in_set) simp
  then have "\<not> is_ws (last (last ?ts))" using tok by (metis last_in_set)
  then show "\<not> is_ws (last (show_service d))" using ends [of ?ts] tok unfolding show_service_def by simp
  have ws: "is_ws nl" "is_ws cr" "nl \<noteq> CHR '' ''" "cr \<noteq> CHR '' ''"
    by (simp_all add: is_ws_def nl_def cr_def code_def)
  show "\<forall>c \<in> set (show_service d). c \<noteq> nl \<and> c \<noteq> cr"
  proof
    fix c
    assume "c \<in> set (show_service d)"
    then have "c = CHR '' '' \<or> \<not> is_ws c" using chars [of c ?ts] tok unfolding show_service_def by blast
    with ws show "c \<noteq> nl \<and> c \<noteq> cr" by metis
  qed
qed

lemma config_line_service:
  assumes "printable d"
  shows "config_line (service_line d) (cfg, ws) = (cfg\<lparr>cfg_services := cfg_services cfg @ [d]\<rparr>, ws)"
proof -
  have "trim (service_line d) = service_line d"
    using show_service_ends [OF assms] by (intro trim_id) (simp add: service_line_def is_ws_def code_def)
  moreover have "strip_prefix ''service '' (service_line d) = Some (show_service d)"
    by (simp add: strip_prefix_def starts_with_def service_line_def)
  moreover have "\<not> starts_with ''#'' (service_line d)" "service_line d \<noteq> []"
    by (simp_all add: starts_with_def service_line_def)
  ultimately show ?thesis by (simp add: config_line_def Let_def parse_show_service [OF assms])
qed

lemma fold_service_lines:
  "\<forall>d \<in> set ds. printable d \<Longrightarrow>
   fold config_line (map service_line ds) (cfg, ws) = (cfg\<lparr>cfg_services := cfg_services cfg @ ds\<rparr>, ws)"
  by (induction ds arbitrary: cfg) (simp_all add: config_line_service)

lemma config_parse_show:
  assumes "printable_config host cfg"
  shows "config_parse (show_config host cfg) = (cfg, [])"
proof -
  let ?kv = "map show_kv (config_fields host cfg)"
  have host: "cfg_hostname cfg = Some host" "line_value host" "line_value (cfg_default_target cfg)"
    and ds: "cfg_services cfg \<noteq> []" "\<forall>d \<in> set (cfg_services cfg). printable d"
    using assms by (auto simp: printable_config_def)
  have num: "line_value (show_nat n)" for n by (rule plain_line_value [OF plain_show_nat])
  have lvl: "line_value (level_text l)" for l
    by (cases l) (simp_all add: line_value_def is_ws_def code_def char_defs)
  have keys: "good_key ''hostname''" "good_key ''loglevel''" "good_key ''shutdown_timeout''" "good_key ''default_target''"
    by (simp_all add: good_key_def is_ws_def code_def dquote_def)
  have vals: "\<forall>(k, v) \<in> set (config_fields host cfg). good_key k \<and> line_value v"
    using keys num lvl host by (simp add: config_fields_def)
  have clean: "nl \<notin> set l \<and> cr \<notin> set l" if "l \<in> set (?kv @ map service_line (cfg_services cfg))" for l
  proof (cases "l \<in> set ?kv")
    case True
    then obtain k v where "l = show_kv (k, v)" "good_key k" "line_value v" using vals by auto
    then show ?thesis
      by (auto simp: show_kv_def good_key_def plain_def line_value_def nl_def cr_def is_ws_def code_def)
  next
    case False
    with that obtain d where "l = service_line d" "printable d" using ds(2) by auto
    then show ?thesis using show_service_ends(3) [of d] by (auto simp: service_line_def nl_def cr_def)
  qed
  have lines: "lines (show_config host cfg) = ?kv @ map service_line (cfg_services cfg)"
    unfolding show_config_def using clean by (intro lines_concat) blast
  have noserv: "strip_prefix ''service '' (show_kv (''hostname'', v)) = None"
    "strip_prefix ''service '' (show_kv (''loglevel'', v)) = None"
    "strip_prefix ''service '' (show_kv (''shutdown_timeout'', v)) = None"
    "strip_prefix ''service '' (show_kv (''default_target'', v)) = None" for v
    by (simp_all add: strip_prefix_def starts_with_def show_kv_def)
  have "fold config_line ?kv (config_default\<lparr>cfg_services := []\<rparr>, []) =
      (\<lparr>cfg_hostname = Some host, cfg_loglevel = cfg_loglevel cfg,
        cfg_shutdown_timeout_secs = cfg_shutdown_timeout_secs cfg,
        cfg_default_target = cfg_default_target cfg, cfg_services = []\<rparr>, [])"
    using config_line_key [OF keys(1) _ noserv(1) host(2)] config_line_key [OF keys(2) _ noserv(2) lvl]
      config_line_key [OF keys(3) _ noserv(3) num] config_line_key [OF keys(4) _ noserv(4) host(3)]
    by (simp add: config_fields_def config_key_def level_parse_text parse_u64_show config_default_def)
  then show ?thesis
    unfolding config_parse_def lines fold_append comp_def
    using ds host(1) by (cases cfg) (simp add: fold_service_lines)
qed

end
