(* ===== verification/Well_Formed.thy ===== *)
theory Well_Formed
  imports Timers
begin

text \<open>
  What the parsers guarantee of every definition they accept, whatever the text of the file is: the
  types of the source (\<open>String\<close>, \<open>Vec\<close>, \<open>Option\<close>) refined by what the code that uses the definitions
  relies on.
\<close>

subsection \<open>Well-formed definitions\<close>

definition no_ws :: "string \<Rightarrow> bool" where
  "no_ws s \<longleftrightarrow> (\<forall>c \<in> set s. \<not> is_ws c)"

definition token :: "string \<Rightarrow> bool" where
  "token s \<longleftrightarrow> s \<noteq> [] \<and> no_ws s"

definition one_line :: "string \<Rightarrow> bool" where
  "one_line s \<longleftrightarrow> nl \<notin> set s"

text \<open>An element of a comma-separated list.\<close>

definition list_item :: "string \<Rightarrow> bool" where
  "list_item s \<longleftrightarrow> s \<noteq> [] \<and> CHR '','' \<notin> set s \<and> one_line s"

definition env_entry :: "string \<times> string \<Rightarrow> bool" where
  "env_entry kv \<longleftrightarrow> CHR ''='' \<notin> set (fst kv) \<and> one_line (fst kv) \<and> one_line (snd kv)"

text \<open>A time span of whole seconds that fits \<open>u64\<close>.\<close>

definition seconds :: "duration \<Rightarrow> bool" where
  "seconds d \<longleftrightarrow> d mod nanos_per_sec = 0 \<and> d div nanos_per_sec < 2 ^ 64"

text \<open>
  \<open>after\<close> may also hold service names, which \<open>effective_after\<close> adds and which can be any text that a
  file name can be.
\<close>

definition def_ok :: "service_def \<Rightarrow> bool" where
  "def_ok d \<longleftrightarrow>
     sd_name d \<noteq> [] \<and> no_ws (sd_path d) \<and> list_all token (sd_args d) \<and> [] \<notin> set (sd_after d) \<and>
     list_all list_item (sd_after_ready d @ sd_before d @ sd_requires d @ sd_wants d) \<and>
     list_all env_entry (sd_environment d) \<and> pred_option seconds (sd_watchdog_timeout d) \<and>
     pred_option one_line (sd_user d) \<and> pred_option one_line (sd_group d) \<and>
     pred_option one_line (sd_working_dir d) \<and> one_line (sd_target d)"

definition settings_ok :: "config \<Rightarrow> bool" where
  "settings_ok cfg \<longleftrightarrow>
     list_all def_ok (cfg_services cfg) \<and> pred_option one_line (cfg_hostname cfg) \<and>
     one_line (cfg_default_target cfg)"

text \<open>Both the parser and the defaults yield at least one service.\<close>

definition config_ok :: "config \<Rightarrow> bool" where
  "config_ok cfg \<longleftrightarrow> settings_ok cfg \<and> cfg_services cfg \<noteq> []"

definition timer_ok :: "timer_def \<Rightarrow> bool" where
  "timer_ok td \<longleftrightarrow>
     td_name td \<noteq> [] \<and> (td_on_boot td \<noteq> None \<or> td_on_active td \<noteq> None) \<and>
     pred_option seconds (td_on_boot td) \<and> pred_option seconds (td_on_active td)"

lemma seconds_from_secs [simp]: "seconds (from_secs w)"
  using unat_bound [of w] by (simp add: seconds_def from_secs_def)

lemma seconds_parse [simp]: "pred_option seconds (parse_secs v)"
  by (cases "parse_u64 v") (simp_all add: parse_secs_def)

subsection \<open>Pieces of a line\<close>

lemma no_ws_one_line: "no_ws s \<Longrightarrow> one_line s"
  by (auto simp: no_ws_def one_line_def is_ws_code nl_def code_def)

lemma no_ws_subset: "set s \<subseteq> set t \<Longrightarrow> no_ws t \<Longrightarrow> no_ws s"
  by (auto simp: no_ws_def)

lemma one_line_subset: "set s \<subseteq> set t \<Longrightarrow> one_line t \<Longrightarrow> one_line s"
  by (auto simp: one_line_def)

lemma tokens_split: "list_all token (split_whitespace s)"
  using split_whitespace_pieces [of _ s] by (auto simp: list_all_iff token_def no_ws_def)

lemma split_once_subset: "split_once d s = Some (a, b) \<Longrightarrow> set a \<subseteq> set s \<and> set b \<subseteq> set s \<and> d \<notin> set a"
  by (auto simp: split_once_Some_iff)

lemma trim_subset: "set (trim s) \<subseteq> set s"
  by (simp add: trim_def trim_by_subset)

lemma trim_matches_subset: "set (trim_matches c s) \<subseteq> set s"
  by (simp add: trim_matches_def trim_by_subset)

lemma name_list_items:
  assumes "one_line v" shows "list_all list_item (parse_name_list v)"
  using assms split_by_pieces [of _ "\<lambda>c. c = CHR '',''" v]
  by (auto simp: parse_name_list_def split_on_def list_all_iff list_item_def one_line_def)

lemma name_list_tokens:
  assumes "no_ws v" shows "list_all token (parse_name_list v)"
  using assms split_by_pieces [of _ "\<lambda>c. c = CHR '',''" v]
  by (auto simp: parse_name_list_def split_on_def list_all_iff token_def no_ws_def)

lemma env_pieces:
  "\<forall>x \<in> set xs. one_line x \<Longrightarrow> list_all env_entry (List.map_filter (split_once CHR ''='') xs)"
proof (induction xs)
  case (Cons x xs)
  then show ?case
    using split_once_subset [of "CHR ''=''" x]
    by (cases "split_once CHR ''='' x") (auto simp: map_filter_simps env_entry_def one_line_def)
qed (simp add: map_filter_simps)

lemma env_list_entries: "one_line v \<Longrightarrow> list_all env_entry (parse_env_list v)"
  unfolding parse_env_list_def split_on_def
  by (rule env_pieces) (auto simp: one_line_def dest: split_by_pieces)

lemma env_pairs_entries: "list_all env_entry (parse_env_pairs v)"
  unfolding parse_env_pairs_def
  by (rule env_pieces) (use tokens_split [of v] in \<open>auto simp: list_all_iff token_def no_ws_one_line\<close>)

subsection \<open>The local variables of the parsers\<close>

definition fields_ok :: "fields \<Rightarrow> bool" where
  "fields_ok f \<longleftrightarrow>
     list_all token (f_args f) \<and>
     list_all list_item (f_after f @ f_after_ready f @ f_before f @ f_requires f @ f_wants f) \<and>
     list_all env_entry (f_environment f) \<and> pred_option seconds (f_watchdog_timeout f) \<and>
     pred_option one_line (f_user f) \<and> pred_option one_line (f_group f) \<and>
     pred_option one_line (f_working_dir f) \<and> pred_option one_line (f_target f)"

lemma fields_ok_init [simp]: "fields_ok (fields_init r)"
  by (simp add: fields_ok_def fields_init_def)

lemma def_ok_of_fields:
  assumes "fields_ok f" "who \<noteq> []" "no_ws path" "list_all token args"
  shows "def_ok (service_of_fields who path args f)"
  using assms
  by (auto simp: fields_ok_def def_ok_def service_of_fields_def DEFAULT_TARGET_def one_line_def nl_def
      list_all_iff list_item_def split: option.split)

text \<open>Every arm of the two \<open>match key\<close> keeps the fields well formed.\<close>

lemma fields_ok_updates:
  assumes "fields_ok f"
  shows "fields_ok (f\<lparr>f_path := p\<rparr>)" "fields_ok (f\<lparr>f_critical := b\<rparr>)" "fields_ok (f\<lparr>f_restart := r\<rparr>)"
    "fields_ok (f\<lparr>f_memory_limit := l\<rparr>)" "fields_ok (f\<lparr>f_private_tmp := b\<rparr>)"
    "fields_ok (f\<lparr>f_protect_system := b\<rparr>)" "fields_ok (f\<lparr>f_no_new_privileges := b\<rparr>)"
    "fields_ok (f\<lparr>f_oom_score_adjust := i\<rparr>)" "fields_ok (f\<lparr>f_watchdog_timeout := parse_secs v\<rparr>)"
    "fields_ok (f\<lparr>f_environment := f_environment f @ parse_env_pairs v\<rparr>)"
  using assms env_pairs_entries [of v] by (simp_all add: fields_ok_def)

lemma fields_ok_values:
  assumes "fields_ok f" "one_line v"
  shows "fields_ok (f\<lparr>f_after := parse_name_list v\<rparr>)" "fields_ok (f\<lparr>f_after_ready := parse_name_list v\<rparr>)"
    "fields_ok (f\<lparr>f_before := parse_name_list v\<rparr>)" "fields_ok (f\<lparr>f_requires := parse_name_list v\<rparr>)"
    "fields_ok (f\<lparr>f_wants := parse_name_list v\<rparr>)" "fields_ok (f\<lparr>f_environment := parse_env_list v\<rparr>)"
    "fields_ok (f\<lparr>f_user := Some v\<rparr>)" "fields_ok (f\<lparr>f_group := Some v\<rparr>)"
    "fields_ok (f\<lparr>f_working_dir := Some v\<rparr>)" "fields_ok (f\<lparr>f_target := Some v\<rparr>)"
  using assms name_list_items [OF assms(2)] env_list_entries [OF assms(2)] by (simp_all add: fields_ok_def)

lemma fields_ok_args: "fields_ok f \<Longrightarrow> no_ws v \<Longrightarrow> fields_ok (f\<lparr>f_args := parse_name_list v\<rparr>)"
  using name_list_tokens [of v] by (simp add: fields_ok_def)

lemma fields_ok_if: "(b \<Longrightarrow> fields_ok f) \<Longrightarrow> (\<not> b \<Longrightarrow> fields_ok g) \<Longrightarrow> fields_ok (if b then f else g)"
  by simp

lemma service_key_ok: "fields_ok f \<Longrightarrow> no_ws v \<Longrightarrow> fields_ok (service_key k v f)"
  unfolding service_key_def
  by (intro fields_ok_if fields_ok_updates fields_ok_values fields_ok_args) (simp_all add: no_ws_one_line)

lemma service_key_path: "f_path (service_key k v f) = (if k = ''path'' then Some v else f_path f)"
  by (simp add: service_key_def)

lemma fields_ok_if_fst:
  "(b \<Longrightarrow> fields_ok (fst f)) \<Longrightarrow> (\<not> b \<Longrightarrow> fields_ok (fst g)) \<Longrightarrow> fields_ok (fst (if b then f else g))"
  by simp

lemma fields_ok_pair: "fields_ok f \<Longrightarrow> fields_ok (fst (f, ws))"
  by simp

lemma unit_key_ok: "fields_ok (fst fw) \<Longrightarrow> one_line v \<Longrightarrow> fields_ok (fst (unit_key path k v fw))"
  unfolding unit_key_def
  by (cases fw, simp only: prod.case fst_conv)
    (intro fields_ok_if_fst fields_ok_pair fields_ok_updates fields_ok_values; assumption)

subsection \<open>The parsers\<close>

lemma parse_service_fields_ok:
  "parse_service_fields parts f = Inr g \<Longrightarrow> fields_ok f \<Longrightarrow> pred_option no_ws (f_path f) \<Longrightarrow>
   list_all token parts \<Longrightarrow> fields_ok g \<and> pred_option no_ws (f_path g)"
proof (induction parts arbitrary: f)
  case (Cons field rest)
  then obtain k v where kv: "split_once CHR ''='' field = Some (k, v)"
    by (auto split: option.splits)
  let ?v = "trim_matches dquote v"
  have "set ?v \<subseteq> set field" using split_once_subset [OF kv] trim_matches_subset [of dquote v] by blast
  then have v: "no_ws ?v" using Cons.prems(4) by (auto simp: token_def intro: no_ws_subset)
  have p: "pred_option no_ws (f_path (service_key k ?v f))"
    using service_key_path [of k ?v f] Cons.prems(3) v by auto
  show ?case
    using Cons.IH [OF _ service_key_ok [OF Cons.prems(2) v] p] Cons.prems(1,4) kv by simp
qed simp

lemma parse_service_ok: "parse_service rest = Inr d \<Longrightarrow> def_ok d"
proof -
  assume r: "parse_service rest = Inr d"
  then obtain who parts f path where w: "split_whitespace rest = who # parts"
    and f: "parse_service_fields parts (fields_init OnFailure) = Inr f" "f_path f = Some path"
    and d: "d = service_of_fields who path (f_args f) f"
    by (auto simp: parse_service_def split: list.splits sum.splits option.splits)
  have t: "token who" "list_all token parts" using tokens_split [of rest] w by simp_all
  have "fields_ok f \<and> pred_option no_ws (f_path f)"
    by (rule parse_service_fields_ok [OF f(1) _ _ t(2)]) (simp_all, simp add: fields_init_def)
  with t f(2) show ?thesis
    unfolding d by (intro def_ok_of_fields) (simp_all add: token_def fields_ok_def)
qed

text \<open>The section loop hands its handler values of one line only.\<close>

lemma section_lines_keep:
  assumes keep: "\<And>k v acc. P acc \<Longrightarrow> one_line v \<Longrightarrow> P (handler k v acc)"
    and "P acc" "\<forall>l \<in> set ls. one_line l"
  shows "P (snd (fold (section_line wanted handler) ls (sec, acc)))"
  using assms(2,3)
proof (induction ls arbitrary: sec acc)
  case (Cons l ls)
  have "P (snd (section_line wanted handler l (sec, acc)))"
  proof (cases "split_once CHR ''='' (trim l)")
    case None
    then show ?thesis using Cons.prems by (simp add: section_line_def Let_def split: option.split)
  next
    case (Some kv)
    obtain k v where kv: "kv = (k, v)" by fastforce
    have "set (trim v) \<subseteq> set l"
      using split_once_subset [OF Some [unfolded kv]] trim_subset [of v] trim_subset [of l] by blast
    then have "one_line (trim v)" using Cons.prems(2) by (auto intro: one_line_subset)
    then show ?thesis using Some kv Cons.prems(1)
      by (simp add: section_line_def Let_def keep split: option.split)
  qed
  then show ?case using Cons.IH [of "snd (section_line wanted handler l (sec, acc))"] Cons.prems(2)
    by (cases "section_line wanted handler l (sec, acc)") simp
qed simp

lemma section_lines_ok:
  assumes "\<And>k v acc. P acc \<Longrightarrow> one_line v \<Longrightarrow> P (handler k v acc)" "P acc"
  shows "P (section_lines wanted handler body acc)"
  unfolding section_lines_def
  by (rule section_lines_keep [where P = P, OF assms(1)])
    (use assms(2) in \<open>auto simp: one_line_def dest: lines_no_nl\<close>)

lemma file_stem_nonempty: "file_stem path = Some who \<Longrightarrow> who \<noteq> []"
  by (auto simp: file_stem_def rsplit_dot_def Let_def split: if_splits option.splits)

lemma parse_unit_ok: "parse_unit path body = (Inr d, warns) \<Longrightarrow> def_ok d"
proof -
  assume r: "parse_unit path body = (Inr d, warns)"
  obtain f ws where f: "section_lines ''Service'' (unit_key path) body (fields_init Never, []) = (f, ws)"
    by fastforce
  with r obtain who exec bin args where w: "file_stem path = Some who" "split_whitespace exec = bin # args"
    and d: "d = service_of_fields who bin args f"
    by (auto simp: parse_unit_def split: option.splits list.splits)
  have "fields_ok (fst (section_lines ''Service'' (unit_key path) body (fields_init Never, [])))"
    by (rule section_lines_ok [of "\<lambda>fw. fields_ok (fst fw)"]) (simp_all add: unit_key_ok)
  then show ?thesis
    using f tokens_split [of exec] file_stem_nonempty [OF w(1)]
    unfolding d w(2) by (intro def_ok_of_fields) (simp_all add: token_def)
qed

lemma parse_timer_ok: "parse_timer path body = Inr td \<Longrightarrow> timer_ok td"
proof -
  assume r: "parse_timer path body = Inr td"
  obtain a b where s: "section_lines ''Timer'' timer_key body (None, None) = (a, b)" by fastforce
  have "(\<lambda>acc. pred_option seconds (fst acc) \<and> pred_option seconds (snd acc))
      (section_lines ''Timer'' timer_key body (None, None))"
    by (rule section_lines_ok) (auto simp: timer_key_def split: prod.splits)
  with r s show ?thesis
    by (auto simp: parse_timer_def timer_ok_def file_stem_nonempty split: option.splits if_splits)
qed

subsection \<open>Configurations\<close>

lemma config_default_ok: "config_ok config_default"
  by (simp add: config_ok_def settings_ok_def config_default_def def_ok_def service_def_default_def
      DEFAULT_TARGET_def one_line_def no_ws_def is_ws_def code_def nl_def)

lemma config_key_ok:
  "settings_ok c \<Longrightarrow> one_line v \<Longrightarrow> settings_ok (fst (config_key k v (c, ws)))"
  by (simp add: config_key_def settings_ok_def split: option.split)

lemma config_line_ok:
  assumes c: "settings_ok (fst cw)" and l: "one_line l"
  shows "settings_ok (fst (config_line l cw))"
proof (cases "trim l = [] \<or> starts_with ''#'' (trim l)")
  case True
  then show ?thesis using c by (simp add: config_line_def Let_def)
next
  case False
  obtain cfg ws where cw: "cw = (cfg, ws)" by fastforce
  show ?thesis
  proof (cases "strip_prefix ''service '' (trim l)")
    case (Some rest)
    with False c show ?thesis
      by (cases "parse_service rest") (auto simp: config_line_def Let_def cw settings_ok_def dest: parse_service_ok)
  next
    case None
    show ?thesis
    proof (cases "split_once CHR ''='' (trim l)")
      case (Some kv)
      obtain k v where kv: "kv = (k, v)" by fastforce
      have "set (trim_matches dquote (trim v)) \<subseteq> set l"
        using split_once_subset [OF Some [unfolded kv]] trim_subset [of l] trim_subset [of v]
          trim_matches_subset [of dquote "trim v"] by blast
      then have "one_line (trim_matches dquote (trim v))" using l by (rule one_line_subset)
      with c False None Some show ?thesis by (simp add: config_line_def Let_def kv cw config_key_ok)
    qed (use c False None in \<open>simp add: config_line_def Let_def\<close>)
  qed
qed

lemma config_lines_ok:
  "settings_ok (fst cw) \<Longrightarrow> \<forall>l \<in> set ls. one_line l \<Longrightarrow> settings_ok (fst (fold config_line ls cw))"
  by (induction ls arbitrary: cw) (simp_all add: config_line_ok)

lemma config_parse_ok: "config_ok (fst (config_parse body))"
proof -
  let ?start = "(config_default\<lparr>cfg_services := []\<rparr>, [])"
  have "settings_ok (fst (fold config_line (lines body) ?start))"
    by (rule config_lines_ok)
      (use config_default_ok in \<open>auto simp: config_ok_def settings_ok_def one_line_def dest: lines_no_nl\<close>)
  then show ?thesis
    using config_default_ok
    by (auto simp: config_parse_def config_ok_def settings_ok_def Let_def split: prod.split)
qed

lemma merge_services_ok:
  "list_all def_ok base \<Longrightarrow> list_all def_ok extra \<Longrightarrow>
   list_all def_ok (fst (merge_services base extra)) \<and> (base \<noteq> [] \<longrightarrow> fst (merge_services base extra) \<noteq> [])"
  by (induction base extra rule: merge_services.induct) (simp_all add: Let_def split_def)

subsection \<open>What is loaded\<close>

lemma load_units_ok: "list_all def_ok (fst (load_units os paths s))"
proof (induction paths arbitrary: s)
  case (Cons path paths)
  obtain r u where r: "read_to_string os path s = (r, u)" by fastforce
  show ?case
  proof (cases r)
    case (Inl e)
    then show ?thesis using r Cons.IH by simp
  next
    case (Inr body)
    obtain res warns where p: "parse_unit path body = (res, warns)" by fastforce
    then show ?thesis using r Inr Cons.IH parse_unit_ok [of path body _ warns]
      by (cases res) (simp_all add: Let_def split_def)
  qed
qed simp

lemma load_timers_ok: "list_all timer_ok (fst (load_timers os paths s))"
proof (induction paths arbitrary: s)
  case (Cons path paths)
  obtain r u where r: "read_to_string os path s = (r, u)" by fastforce
  show ?case
  proof (cases r)
    case (Inl e)
    then show ?thesis using r Cons.IH by simp
  next
    case (Inr body)
    then show ?thesis using r Cons.IH parse_timer_ok [of path body]
      by (cases "parse_timer path body") (simp_all add: Let_def split_def)
  qed
qed simp

lemma last_split_on:
  assumes "d \<notin> set b" shows "last (split_on d (a @ d # b)) = b"
proof -
  have "split_on d b = [b]" using assms by (rule split_on_none)
  then have "\<exists>x xs. split_on d (a @ d # b) = x # xs @ [b]"
    by (induction a) (auto simp: split_on_def)
  then show ?thesis by force
qed

text \<open>Drop-in files of one kind have different stems, so timers have different names.\<close>

lemma file_name_entry:
  "x \<noteq> [] \<Longrightarrow> CHR ''/'' \<notin> set x \<Longrightarrow> file_name (path_join SERVICES_DIR x) = x"
  using last_split_on [of "CHR ''/''" x SERVICES_DIR]
  by (cases x) (auto simp: file_name_def path_join_def starts_with_def SERVICES_DIR_def)

lemma rsplit_dot_Some: "rsplit_dot f = Some (stem, ext) \<Longrightarrow> f = stem @ CHR ''.'' # ext"
proof -
  assume "rsplit_dot f = Some (stem, ext)"
  then have "split_once CHR ''.'' (rev f) = Some (rev ext, rev stem)"
    by (auto simp: rsplit_dot_def split: option.splits if_splits)
  then have "rev f = rev ext @ CHR ''.'' # rev stem" by (simp add: split_once_Some_iff)
  from arg_cong [OF this, of rev] show ?thesis by simp
qed

lemma entry_stem:
  assumes "x \<noteq> []" "CHR ''/'' \<notin> set x" "extension (path_join SERVICES_DIR x) = Some ext"
  shows "\<exists>stem. file_stem (path_join SERVICES_DIR x) = Some stem \<and> x = stem @ CHR ''.'' # ext"
  using assms rsplit_dot_Some [of x _ ext]
  by (auto simp: extension_def file_stem_def file_name_entry Let_def split: if_splits)

lemma distinct_stems:
  assumes "distinct names" "\<forall>x \<in> set names. x \<noteq> [] \<and> CHR ''/'' \<notin> set x"
  shows "distinct (map file_stem (unit_paths ext names))"
proof -
  let ?J = "path_join SERVICES_DIR"
  have "inj_on ?J (set names)"
    by (rule inj_on_inverseI [where g = file_name]) (use assms(2) file_name_entry in blast)
  with assms(1) have 1: "distinct (map ?J names)" by (simp add: distinct_map)
  have "inj_on file_stem {p \<in> ?J ` set names. extension p = Some ext}"
  proof (rule inj_onI)
    fix p q
    assume p: "p \<in> {p \<in> ?J ` set names. extension p = Some ext}" and q: "q \<in> {p \<in> ?J ` set names. extension p = Some ext}"
      and eq: "file_stem p = file_stem q"
    from p q obtain x y where x: "x \<in> set names" "p = ?J x" "extension (?J x) = Some ext"
      and y: "y \<in> set names" "q = ?J y" "extension (?J y) = Some ext" by auto
    from entry_stem [of x ext] entry_stem [of y ext] x y assms(2) eq show "p = q" by auto
  qed
  with 1 show ?thesis by (simp add: unit_paths_def distinct_map)
qed

lemma load_timers_names:
  fixes s :: "'a kernel_scheme"
  shows "distinct (map file_stem paths) \<Longrightarrow>
   distinct (map td_name (fst (load_timers os paths s))) \<and>
   Some ` td_name ` set (fst (load_timers os paths s)) \<subseteq> file_stem ` set paths"
proof (induction paths arbitrary: s)
  case (Cons path paths)
  obtain r u where r: "read_to_string os path s = (r, u)" by fastforce
  have IH: "distinct (map td_name (fst (load_timers os paths v))) \<and>
      Some ` td_name ` set (fst (load_timers os paths v)) \<subseteq> file_stem ` set paths"
    for v :: "'a kernel_scheme"
    using Cons by simp
  show ?case
  proof (cases r)
    case (Inl e)
    then show ?thesis using r IH by auto
  next
    case (Inr body)
    show ?thesis
    proof (cases "parse_timer path body")
      case (Inl e)
      then show ?thesis using r Inr IH by auto
    next
      case ok: (Inr t)
      have t: "file_stem path = Some (td_name t)"
        using ok by (auto simp: parse_timer_def Let_def split_def split: option.splits if_splits)
      obtain ts v where v: "load_timers os paths u = (ts, v)" by fastforce
      have "td_name t \<notin> td_name ` set ts"
      proof
        assume "td_name t \<in> td_name ` set ts"
        then have "file_stem path \<in> file_stem ` set paths" using IH [of u] v t by auto
        with Cons.prems show False by simp
      qed
      then show ?thesis using r Inr ok t v IH [of u] by simp blast
    qed
  qed
qed simp

definition timer_defs_ok :: "os \<Rightarrow> timer_def list \<Rightarrow> bool" where
  "timer_defs_ok os tds \<longleftrightarrow>
     list_all timer_ok tds \<and> (dir_entries_ok os \<longrightarrow> distinct (map td_name tds))"

lemma timers_load_all_ok: "timer_defs_ok os (fst (timers_load_all os s))"
proof (cases "os_read_dir os (ev s) SERVICES_DIR")
  case None
  then show ?thesis by (simp add: timers_load_all_def read_dir_def timer_defs_ok_def)
next
  case (Some names)
  then have "distinct (map file_stem (unit_paths ext names))" if "dir_entries_ok os" for ext
    using that distinct_stems [of names ext] unfolding dir_entries_ok_def by blast
  with Some show ?thesis
    by (simp add: timers_load_all_def read_dir_def timer_defs_ok_def load_timers_ok load_timers_names)
qed

lemma units_load_all_ok: "list_all def_ok (fst (units_load_all os s))"
  by (simp add: units_load_all_def Let_def split_def load_units_ok split: option.split)

lemma load_or_default_ok: "config_ok (fst (load_or_default os path s))"
  by (simp add: load_or_default_def Let_def split_def config_parse_ok config_default_ok split: sum.split)

end
