(* ===== verification/Main_Facts.thy ===== *)
theory Main_Facts
  imports Main_Loop Config_Facts Well_Formed
begin

text \<open>
  Predicates on the whole machine that its operations keep, in three layers: \<open>ops_closed\<close> for what
  the modules below \<open>main.rs\<close> do, \<open>main_closed\<close> for the phases of the event loop, \<open>machine_closed\<close> for
  every step of every thread. Each layer is proved once, for any predicate with its closure properties.
  With the parameter \<open>strict\<close> the predicate also covers the definitions the machine holds, and may rely
  on all of them being well formed (theory \<open>Well_Formed\<close>); without it, it has to accept any definition.
\<close>

lemma stop_services_not_Loop: "stop_services os grace m \<noteq> Some (Loop m')"
proof
  assume "stop_services os grace m = Some (Loop m')"
  then obtain r where "(case r of Ret m \<Rightarrow> Leave (acknowledge_shutdown os m) | Panic m \<Rightarrow> Crash (panic_hook os m)) = Loop m'"
    by (auto simp: stop_services_def)
  then show False by (cases r) simp_all
qed

subsection \<open>The definitions the main thread holds\<close>

definition watch_ok :: "watch option \<Rightarrow> bool" where
  "watch_ok = pred_option (\<lambda>w. config_ok (w_previous w) \<and> one_line (w_target w))"

definition vars_ok :: "os \<Rightarrow> machine \<Rightarrow> bool" where
  "vars_ok os m \<longleftrightarrow>
     config_ok (m_cfg m) \<and> one_line (m_target m) \<and> timer_defs_ok os (m_timer_defs m) \<and> watch_ok (m_watch m)"

lemma vars_ok_fields [simp]:
  "vars_ok os m \<Longrightarrow> vars_ok os (m\<lparr>m_cfg := a\<rparr>) = config_ok a"
  "vars_ok os m \<Longrightarrow> vars_ok os (m\<lparr>m_target := b\<rparr>) = one_line b"
  "vars_ok os m \<Longrightarrow> vars_ok os (m\<lparr>m_timer_defs := c\<rparr>) = timer_defs_ok os c"
  "vars_ok os m \<Longrightarrow> vars_ok os (m\<lparr>m_watch := d\<rparr>) = watch_ok d"
  by (simp_all add: vars_ok_def)

lemma vars_ok_cells [simp]:
  "vars_ok os (m\<lparr>m_ipc := g\<rparr>) = vars_ok os m" "vars_ok os (m\<lparr>m_replies := i\<rparr>) = vars_ok os m"
  "vars_ok os (m\<lparr>m_booted := j\<rparr>) = vars_ok os m" "vars_ok os (m\<lparr>m_timers := e\<rparr>) = vars_ok os m"
  "vars_ok os (m\<lparr>m_apps := f\<rparr>) = vars_ok os m" "vars_ok os (m\<lparr>m_thread := h\<rparr>) = vars_ok os m"
  by (simp_all add: vars_ok_def)

lemma load_config_ok: "load_config os s = (cfg, u) \<Longrightarrow> config_ok cfg"
  using load_or_default_ok [of os CONFIG_PATH s]
  by (auto simp: load_config_def Let_def split_def config_ok_def settings_ok_def merge_services_ok units_load_all_ok)

lemma services_in_ok: "config_ok cfg \<Longrightarrow> list_all def_ok (services_in (cfg_services cfg) t)"
  by (auto simp: config_ok_def settings_ok_def services_in_def list_all_iff)

lemma config_target_ok: "config_ok cfg \<Longrightarrow> t \<in> set (targets_list (cfg_services cfg)) \<Longrightarrow> one_line t"
  by (auto simp: config_ok_def settings_ok_def targets_list_facts list_all_iff def_ok_def)

lemma fallback_shell_ok: "def_ok fallback_shell"
  by (simp add: def_ok_def fallback_shell_def service_def_default_def one_line_def no_ws_def is_ws_def code_def)

lemma add_after_ok: "dep \<noteq> [] \<Longrightarrow> def_ok d \<Longrightarrow> def_ok (add_after dep d)"
  by (simp add: add_after_def def_ok_def)

lemma fold_add_after_ok: "[] \<notin> set xs \<Longrightarrow> def_ok d \<Longrightarrow> def_ok (fold add_after xs d)"
  by (induction xs arbitrary: d) (auto simp: add_after_ok)

lemma fold_deps_ok: "def_ok d \<Longrightarrow> def_ok (fold_deps d)"
proof -
  assume d: "def_ok d"
  then have "[] \<notin> set (sd_requires d @ sd_wants d)" by (auto simp: def_ok_def list_all_iff list_item_def)
  with d show ?thesis unfolding fold_deps_def by (rule fold_add_after_ok [rotated])
qed

lemma update_named_ok: "list_all def_ok ds \<Longrightarrow> dep \<noteq> [] \<Longrightarrow> list_all def_ok (update_named t (add_after dep) ds)"
  by (induction ds) (simp_all add: add_after_ok)

lemma effective_after_ok:
  assumes "list_all def_ok defs" shows "list_all def_ok (effective_after defs)"
proof -
  have "\<forall>p \<in> set ps. snd p \<noteq> [] \<Longrightarrow> list_all def_ok ds \<Longrightarrow> list_all def_ok (apply_before ps ds)" for ps ds
    unfolding apply_before_def by (induction ps arbitrary: ds) (auto simp: update_named_ok split: prod.splits)
  moreover have "snd p \<noteq> []" if "p \<in> set (before_pairs defs)" for p
    using that assms by (auto simp: before_pairs_def list_all_iff def_ok_def)
  moreover have "list_all def_ok (map fold_deps defs)" using assms by (simp add: list_all_iff fold_deps_ok)
  ultimately show ?thesis by (simp add: effective_after_apply)
qed

lemma boot_order_ok:
  assumes "list_all def_ok defs" "d \<in> set (fst (topological_order (effective_after defs)))"
  shows "def_ok d"
proof -
  have "mset (fst (topological_order (effective_after defs))) = mset (effective_after defs)"
    by (rule topological_order_parts [of "effective_after defs"]) simp
  with assms(2) have "d \<in> set (effective_after defs)" by (metis set_mset_mset)
  with effective_after_ok [OF assms(1)] show ?thesis by (simp add: list_all_iff)
qed

lemma log_at_more:
  "m_cfg (log_at os lvl msg m) = m_cfg m" "m_ipc (log_at os lvl msg m) = m_ipc m"
  "m_target (log_at os lvl msg m) = m_target m"
  by (simp_all add: log_at_def)

subsection \<open>Operations on the system and the service table\<close>

locale ops_closed =
  table_closed I "\<lambda>e. True" good "\<lambda>sv. True" since
  for I :: "machine \<Rightarrow> bool" and good :: "nat \<Rightarrow> pid \<Rightarrow> supervised \<Rightarrow> bool" and since :: nat +
  fixes os :: os and strict :: bool
  assumes I_level: "I m \<Longrightarrow> I (set_log_level lvl m)"
    and I_open: "I m \<Longrightarrow> I (m\<lparr>log_st := log_open t b (log_st m)\<rparr>)"
    and good_short: "length hist \<le> MAX_RESTARTS_IN_WINDOW \<Longrightarrow> (strict \<Longrightarrow> def_ok d) \<Longrightarrow> since \<le> n \<Longrightarrow>
      os_spawn os n c = Inr q \<Longrightarrow> good n q \<lparr>sv_def = d, restart_times = hist, started_at = t\<rparr>"
    and I_distinct: "I m \<Longrightarrow> distinct (keys (services m))"
    and I_table: "strict \<Longrightarrow> I m \<Longrightarrow> map_of (services m) p = Some sv \<Longrightarrow> def_ok (sv_def sv)"
begin

lemma startable_short:
  "length hist \<le> MAX_RESTARTS_IN_WINDOW \<Longrightarrow> (strict \<Longrightarrow> def_ok d) \<Longrightarrow> startable os d hist"
  by (auto simp: startable_def intro: good_short fallback_shell_ok)

lemma startable_new: "(strict \<Longrightarrow> list_all def_ok ds) \<Longrightarrow> d \<in> set ds \<Longrightarrow> startable os d []"
  by (rule startable_short) (auto simp: list_all_iff)

lemma stoppable_all: stoppable
  by (simp add: stoppable_def)

lemma I_emit_any: "I m \<Longrightarrow> I (emit e m)"
  by (rule I_emit) simp_all

lemma I_reload: "I m \<Longrightarrow> (strict \<Longrightarrow> list_all def_ok new) \<Longrightarrow> I (snd (reload_services os new m))"
  by (rule I_reload_services) (auto intro: stoppable_all startable_new I_distinct)

lemma I_handle: "I m \<Longrightarrow> I (snd (handle_exit os status m))"
  by (rule I_handle_exit) (auto intro: startable_short I_table)

lemma I_spawn_boot: "I m \<Longrightarrow> (strict \<Longrightarrow> list_all def_ok defs) \<Longrightarrow> I (spawn_all os defs m)"
  by (erule I_spawn_all, rule startable_short) (auto dest: boot_order_ok [rotated])

lemma I_logging_init: "I m \<Longrightarrow> I (logging_init os m)"
  unfolding logging_init_def Let_def by (intro I_flow I_open I_fs I_now)

lemma I_read_dir: "I m \<Longrightarrow> I (snd (read_dir os path m))"
  by (simp add: read_dir_def I_ev)

lemma I_hostname: "I m \<Longrightarrow> I (snd (sethostname os name m))"
  by (simp add: sethostname_def I_emit_any)

lemma I_apply_hostname: "I m \<Longrightarrow> I (apply_hostname os f x m)"
  unfolding apply_hostname_def Let_def by (intro I_flow I_log I_hostname)

lemma I_setup: "I m \<Longrightarrow> I (snd (process_setup os c m))"
  by (simp add: process_setup_def I_emit_any)

lemma I_signal_call: "I m \<Longrightarrow> I (snd (signal_call os c m))"
  unfolding signal_call_def Let_def by (intro I_flow I_setup)

lemma I_sigactions: "I m \<Longrightarrow> I (snd (sigactions os sigs m))"
proof (induction sigs arbitrary: m)
  case (Cons sig sigs)
  obtain r u where r: "signal_call os (Sigaction sig) m = (r, u)" by fastforce
  then have "I u" using I_signal_call [OF Cons.prems, of "Sigaction sig"] by simp
  then show ?case using Cons.IH r by (cases r) simp_all
qed simp

lemma I_or_log: "I (snd r) \<Longrightarrow> I (or_log os lvl msg r)"
  by (cases r; cases "fst r") (simp_all add: or_log_def I_log)

lemma I_signals:
  "I m \<Longrightarrow> I (snd (install_handlers os m))" "I m \<Longrightarrow> I (snd (block_handled os m))"
  "I m \<Longrightarrow> I (snd (unblock_handled os m))"
  unfolding install_handlers_def block_handled_def unblock_handled_def
  by (rule I_sigactions I_signal_call, assumption)+

lemma I_log_warns: "I m \<Longrightarrow> I (log_warns os ws m)"
  by (induction ws arbitrary: m) (simp_all add: I_log)

lemma I_load_units: "I m \<Longrightarrow> I (snd (load_units os paths m))"
proof (induction paths arbitrary: m)
  case Nil
  then show ?case by simp
next
  case (Cons path paths)
  obtain r u where r: "read_to_string os path m = (r, u)" by fastforce
  with I_read [OF Cons.prems, of os path] have u: "I u" by simp
  show ?case
  proof (cases r)
    case (Inl e)
    then show ?thesis using r u by (simp add: Cons.IH I_log)
  next
    case (Inr body)
    obtain res warns where pu: "parse_unit path body = (res, warns)" by fastforce
    show ?thesis
      using r u Inr pu
      by (cases res) (simp_all add: Cons.IH I_log I_log_warns Let_def split_def)
  qed
qed

lemma I_load_timers: "I m \<Longrightarrow> I (snd (load_timers os paths m))"
proof (induction paths arbitrary: m)
  case Nil
  then show ?case by simp
next
  case (Cons path paths)
  show ?case
    unfolding load_timers.simps Let_def
    by (intro I_flow I_read I_log Cons.IH Cons.prems)
qed

lemma I_load_config: "I m \<Longrightarrow> I (snd (load_config os m))"
  unfolding load_config_def load_or_default_def units_load_all_def Let_def
  by (intro I_flow I_read I_read_dir I_load_units)

lemma I_timers_load_all: "I m \<Longrightarrow> I (snd (timers_load_all os m))"
  unfolding timers_load_all_def Let_def
  by (intro I_flow I_read_dir I_load_timers)

lemma I_begin: "I m \<Longrightarrow> (strict \<Longrightarrow> config_ok c) \<Longrightarrow> I (snd (rollback_begin os c p t m))"
  unfolding rollback_begin_def Let_def
  by (intro I_flow I_log I_now I_reload services_in_ok)

lemma I_check: "I m \<Longrightarrow> (strict \<Longrightarrow> watch_ok (Some w)) \<Longrightarrow> I (snd (snd (rollback_check os cfg w failed m)))"
proof -
  assume m: "I m" and w: "strict \<Longrightarrow> watch_ok (Some w)"
  have "config_ok (w_previous w)" if strict using w [OF that] by (simp add: watch_ok_def)
  then have "I (roll_back os w who m)" for who
    unfolding roll_back_def Let_def
    by (intro I_flow I_log I_level I_hostname I_reload m services_in_ok)
  moreover have "I (snd (watch_active os w m))"
    unfolding watch_active_def Let_def by (intro I_flow I_now m)
  ultimately show ?thesis
    by (simp add: rollback_check_def Let_def split_def I_log)
qed

lemma I_spawn_oneshot: "I m \<Longrightarrow> I (snd (spawn_oneshot os d m))"
  unfolding spawn_oneshot_def resolve_opt_def Let_def
  by (intro I_flow I_resolve_uid I_resolve_gid I_spawn) simp_all

lemma I_timers_state: "I m \<Longrightarrow> I (snd (timers_state os ts m))"
  unfolding timers_state_def Let_def by (intro I_flow I_now)

lemma I_due_names: "I m \<Longrightarrow> I (snd (due_names os tds ts m))"
proof (induction tds arbitrary: m)
  case Nil
  then show ?case by simp
next
  case (Cons td tds)
  show ?case
    unfolding due_names.simps Let_def
    by (intro I_flow I_now Cons.IH Cons.prems)
qed

lemma I_fire_all: "I m \<Longrightarrow> I (snd (fire_all os defs ns ts m))"
proof (induction ns arbitrary: ts m)
  case Nil
  then show ?case by simp
next
  case (Cons n ns)
  show ?case
    unfolding fire_all.simps Let_def
    by (intro I_flow I_log I_spawn_oneshot Cons.IH Cons.prems)
qed

lemma I_timers_tick: "I m \<Longrightarrow> timers_tick os tds defs ts m = Ret (ts', m') \<Longrightarrow> I m'"
proof -
  assume m: "I m" and r: "timers_tick os tds defs ts m = Ret (ts', m')"
  obtain ts1 m1 where 1: "timers_state os ts m = (ts1, m1)" by fastforce
  obtain ns m2 where 2: "due_names os tds ts1 m1 = (ns, m2)" by fastforce
  have "I m1" using I_timers_state [OF m, of ts] 1 by simp
  then have m2: "I m2" using I_due_names [of m1 tds ts1] 2 by simp
  show ?thesis
    using r m I_fire_all [OF m2, of defs _ ts1]
    by (cases ns) (auto simp: timers_tick_def 1 2 split: if_splits dest: arg_cong [of _ _ snd], metis snd_conv)
qed

lemma I_timers_reap: "I m \<Longrightarrow> I (snd (snd (timers_reap os p ts m)))"
proof -
  assume m: "I m"
  obtain ts1 m1 where 1: "timers_state os ts m = (ts1, m1)" by fastforce
  then have "I m1" using I_timers_state [OF m, of ts] by simp
  then show ?thesis
    unfolding timers_reap_eq 1 by (simp split: option.split add: Let_def split_def I_now I_log)
qed

lemma I_apps_reap: "I m \<Longrightarrow> I (snd (snd (apps_reap os p a m)))"
  by (simp add: apps_reap_def Let_def I_kill_and_remove_under I_log split: option.split)

lemma I_kill_expired: "I m \<Longrightarrow> I (kill_expired os ps m)"
  by (induction ps arbitrary: m) (simp_all add: I_kill I_log)

lemma I_become_subreaper: "I m \<Longrightarrow> I (become_subreaper os m)"
  unfolding become_subreaper_def Let_def by (intro I_flow I_log I_setup)

lemma I_monitor: "I m \<Longrightarrow> I (monitor_round F os m)"
  unfolding monitor_round_def read_pressure_def Let_def
  by (intro I_flow I_log I_read I_sleep)

lemma I_authorize: "I m \<Longrightarrow> I (snd (authorize os path r m))"
  by (cases r) (simp_all add: authorize_def Let_def I_log)

lemma I_launch_spawn: "I m \<Longrightarrow> I (snd (snd (launch_spawn os h path args a m)))"
proof -
  assume m: "I m"
  obtain r m1 where 1: "hash_file h path m = (r, m1)" by fastforce
  then have m1: "I m1" using m I_ev by (auto simp: hash_file_def split: sum.splits)
  show ?thesis
  proof (cases r)
    case (Inl e)
    then show ?thesis using m1 1 by (simp add: launch_spawn_def)
  next
    case (Inr sha)
    let ?reply = "h_daemon h (ev m1) (''CHECK '' @ sha @ '' app_launch'' @ [nl])"
    obtain den m2 where 2: "authorize os path ?reply (m1\<lparr>ev := Suc (ev m1)\<rparr>) = (den, m2)" by fastforce
    have m2: "I m2" using I_authorize [OF I_ev [OF m1], of path ?reply] 2 by simp
    show ?thesis
    proof (cases den)
      case (Some e)
      then show ?thesis using m2 1 2 Inr by (simp add: launch_spawn_def Let_def)
    next
      case None
      let ?m3 = "m2\<lparr>ev := Suc (ev m2)\<rparr>"
      let ?m4 = "snd (prepare_intermediate os APPS_CGROUP_ROOT ?m3)"
      let ?m5 = "snd (read_to_string os ''/proc/sys/kernel/cap_last_cap'' ?m4)"
      have m4: "I ?m4"
        unfolding prepare_intermediate_def Let_def by (intro I_flow I_fs I_ev m2)
      have m6: "I (?m5\<lparr>ev := Suc (ev ?m5)\<rparr>)" by (intro I_ev I_read m4)
      have "I (snd (spawn os c (?m5\<lparr>ev := Suc (ev ?m5)\<rparr>)))" for c
        by (rule I_spawn [OF m6]) simp
      then show ?thesis using 1 2 Inr None
        by (simp add: launch_spawn_def Let_def split_def next_id_def split: sum.split)
    qed
  qed
qed

lemma I_launch_register: "I m \<Longrightarrow> I (snd (snd (launch_register os info a m)))"
  unfolding launch_register_def create_under_def attach_under_def Let_def snd_conv
  by (intro I_flow I_fs I_log)

end

subsection \<open>The phases of the main thread\<close>

text \<open>The main thread's own variables and the cells shared with the listener may change as well.\<close>

locale main_closed = ops_closed +
  assumes I_agree: "I m \<Longrightarrow> clock m' = clock m \<Longrightarrow> ev m' = ev m \<Longrightarrow> trace m' = trace m \<Longrightarrow>
      log_st m' = log_st m \<Longrightarrow> services m' = services m \<Longrightarrow> ready_st m' = ready_st m \<Longrightarrow>
      m_timers m' = m_timers m \<Longrightarrow> m_apps m' = m_apps m \<Longrightarrow> m_thread m' = m_thread m \<Longrightarrow>
      (strict \<Longrightarrow> vars_ok os m') \<Longrightarrow> I m'"
    and I_vars: "strict \<Longrightarrow> I m \<Longrightarrow> vars_ok os m"
begin

lemma I_field:
  assumes m: "I m"
  shows "(strict \<Longrightarrow> config_ok a) \<Longrightarrow> I (m\<lparr>m_cfg := a\<rparr>)"
    "(strict \<Longrightarrow> one_line b) \<Longrightarrow> I (m\<lparr>m_target := b\<rparr>)"
    "(strict \<Longrightarrow> timer_defs_ok os c) \<Longrightarrow> I (m\<lparr>m_timer_defs := c\<rparr>)"
    "(strict \<Longrightarrow> watch_ok d) \<Longrightarrow> I (m\<lparr>m_watch := d\<rparr>)"
  by (rule I_agree [OF m]; simp add: I_vars [OF _ m])+

lemma I_cell:
  assumes m: "I m"
  shows "I (m\<lparr>m_ipc := g\<rparr>)" "I (m\<lparr>m_replies := i\<rparr>)" "I (m\<lparr>m_booted := j\<rparr>)"
  by (rule I_agree [OF m]; simp add: I_vars [OF _ m])+

lemma I_set_ipc: "I m \<Longrightarrow> I (set_ipc f m)"
  by (simp add: set_ipc_def I_cell)

lemma I_check_watch: "I m \<Longrightarrow> I (check_watch os failed m)"
proof (cases "m_watch m")
  case None
  then show "I m \<Longrightarrow> ?thesis" by (simp add: check_watch_def)
next
  case (Some w)
  assume m: "I m"
  have w: "watch_ok (Some w)" "config_ok (m_cfg m)" if strict
    using I_vars [OF that m] Some by (simp_all add: vars_ok_def)
  obtain w' cfg u where r: "rollback_check os (m_cfg m) w failed m = (w', cfg, u)" by (metis prod_cases3)
  have "I u" using I_check [OF m w(1), of "m_cfg m" failed] r by simp
  moreover have "w' \<in> {None, Some w}" "cfg \<in> {m_cfg m, w_previous w}"
    using r by (auto simp: rollback_check_def Let_def split: if_splits prod.splits)
  ultimately show ?thesis
    using w by (auto simp: check_watch_def Some r watch_ok_def intro!: I_field)
qed

lemmas I_machine = I_field I_cell I_set_ipc I_log I_now I_read I_level I_reload I_begin I_check_watch
  I_apply_hostname I_load_config I_timers_load_all I_or_log I_signals

lemma I_timers_loaded:
  assumes "I m" "timers_load_all os m = (tds, u)" shows "I (u\<lparr>m_timer_defs := tds\<rparr>)"
  using I_timers_load_all [OF assms(1)] timers_load_all_ok [of os m] assms(2) by (simp add: I_field)

lemma I_phase_reload: "I m \<Longrightarrow> I (phase_reload os m)"
proof (cases "reload_requested (sig_flags (m_ipc m))")
  case True
  assume m: "I m"
  obtain a where a: "a = log_at os Info ''reloading config'' (set_ipc (set_flag (reload_requested_update (\<lambda>_. False))) m)"
    by blast
  have ia: "I a" unfolding a by (intro I_log I_set_ipc m)
  obtain cfg b where b: "load_config os a = (cfg, b)" by fastforce
  have cfg: "config_ok cfg" by (rule load_config_ok [OF b])
  obtain c where c: "c = apply_hostname os (\<lambda>h. ''failed to apply reloaded hostname: '') (cfg_hostname cfg)
    (set_log_level (cfg_loglevel cfg) b)" by blast
  have ic: "I c" unfolding c using I_load_config [OF ia] b by (intro I_apply_hostname I_level) simp
  obtain tds d where d: "timers_load_all os c = (tds, d)" by fastforce
  let ?d = "d\<lparr>m_timer_defs := tds\<rparr>"
  have id: "I ?d" by (rule I_timers_loaded [OF ic d])
  obtain w e where e: "rollback_begin os cfg (m_cfg ?d) (m_target ?d) ?d = (w, e)" by fastforce
  have ie: "I e" using I_begin [OF id, of cfg "m_cfg ?d" "m_target ?d"] cfg e by simp
  have w: "watch_ok (Some w)" if strict
    using I_vars [OF that id] rollback_begin_watch(1,2) [OF e] by (simp add: watch_ok_def vars_ok_def)
  have "phase_reload os m = set_ipc (publish_targets (m_target e) (targets_list (cfg_services cfg)))
      (e\<lparr>m_watch := Some w, m_cfg := cfg\<rparr>)"
    unfolding phase_reload_def Let_def a [symmetric] b prod.case c [symmetric] d e using True by simp
  then show ?thesis using ie w cfg by (simp add: I_set_ipc I_field)
qed (simp add: phase_reload_def)

lemma I_phase_isolate: "I m \<Longrightarrow> I (phase_isolate os m)"
proof -
  assume m: "I m"
  obtain req i where r: "take_pending_isolate (m_ipc m) = (req, i)" by fastforce
  let ?m = "m\<lparr>m_ipc := i\<rparr>"
  have m1: "I ?m" by (rule I_cell(1) [OF m])
  have ok: "config_ok (m_cfg m)" if strict using I_vars [OF that m] by (simp add: vars_ok_def)
  show ?thesis
    unfolding phase_isolate_def r prod.case Let_def
    by (intro I_option I_if I_log I_set_ipc I_field I_reload m1)
      (use ok in \<open>simp_all add: services_in_ok config_target_ok log_at_more\<close>)
qed

lemma I_phase_status: "I m \<Longrightarrow> I (phase_status os m)"
  unfolding phase_status_def Let_def
  by (intro I_flow I_machine)

lemma I_startup_services: "I m \<Longrightarrow> I (startup_services os m)"
proof -
  assume m: "I m"
  let ?a = "set_ipc (publish_targets (m_target m) (targets_list (cfg_services (m_cfg m)))) m"
  obtain tds b where b: "timers_load_all os ?a = (tds, b)" by fastforce
  let ?b = "b\<lparr>m_timer_defs := tds\<rparr>"
  have ib: "I ?b" by (rule I_timers_loaded [OF I_set_ipc [OF m] b])
  have ok: "list_all def_ok (services_in (cfg_services (m_cfg ?b)) (m_target ?b))" if strict
    using I_vars [OF that ib] by (simp add: services_in_ok vars_ok_def)
  show ?thesis
    unfolding startup_services_def Let_def b prod.case
    by (intro I_cell I_or_log I_signals I_spawn_boot ib ok)
qed

end

subsection \<open>Every step\<close>

text \<open>Nothing above the supervisor matters to the predicate, except the definitions.\<close>

locale machine_closed = main_closed +
  assumes I_any: "I m \<Longrightarrow> clock m' = clock m \<Longrightarrow> ev m' = ev m \<Longrightarrow> trace m' = trace m \<Longrightarrow>
      log_st m' = log_st m \<Longrightarrow> services m' = services m \<Longrightarrow> ready_st m' = ready_st m \<Longrightarrow>
      (strict \<Longrightarrow> vars_ok os m') \<Longrightarrow> I m'"
begin

lemma I_owner_field:
  assumes m: "I m"
  shows "I (m\<lparr>m_timers := e\<rparr>)" "I (m\<lparr>m_apps := f\<rparr>)" "I (m\<lparr>m_thread := h\<rparr>)"
  by (rule I_any [OF m]; simp add: I_vars [OF _ m])+

lemma I_first_refusal: "I m \<Longrightarrow> I (snd (first_refusal os p m))"
proof -
  assume m: "I m"
  obtain b ts m1 where 1: "timers_reap os p (m_timers m) m = (b, ts, m1)" by (metis prod_cases3)
  have m1: "I (m1\<lparr>m_timers := ts\<rparr>)" using I_timers_reap [OF m, of p "m_timers m"] 1 by (simp add: I_cell I_owner_field)
  obtain b2 a m2 where 2: "apps_reap os p (m_apps m1) (m1\<lparr>m_timers := ts\<rparr>) = (b2, a, m2)" by (metis prod_cases3)
  have "I m2" using I_apps_reap [OF m1, of p "m_apps m1"] 2 by simp
  with m1 1 2 show ?thesis by (simp add: first_refusal_def I_cell I_owner_field Let_def)
qed

lemma I_dispatch_exit: "I m \<Longrightarrow> dispatch_exit os grace status m = Some (Loop m') \<Longrightarrow> I m'"
proof -
  assume m: "I m" and r: "dispatch_exit os grace status m = Some (Loop m')"
  obtain handled u where u: "(case exit_summary status of
      None \<Rightarrow> (False, m) | Some (p, summary) \<Rightarrow> first_refusal os p m) = (handled, u)" by fastforce
  have "I u"
  proof (cases "exit_summary status")
    case None
    then show ?thesis using u m by simp
  next
    case (Some ps)
    then show ?thesis using u I_first_refusal [OF m, of "fst ps"] by (cases ps) simp
  qed
  moreover obtain out v where v: "handle_exit os status u = (out, v)" by fastforce
  ultimately have "I u" "I v" using I_handle [of u status] by simp_all
  with r u v show ?thesis
    by (auto simp: dispatch_exit_def stop_services_not_Loop I_check_watch
        split: if_splits outcome.splits option.splits)
qed

lemma I_dispatch_wait: "I m \<Longrightarrow> dispatch_wait os grace polling r m = Some (Loop m') \<Longrightarrow> I m'"
  by (auto simp: dispatch_wait_def I_check_watch I_sleep_d I_log split: wait_result.splits if_splits
      dest: I_dispatch_exit)

lemma I_iterate: "I m \<Longrightarrow> iterate os grace m = Some (Loop m') \<Longrightarrow> I m'"
proof -
  assume m: "I m" and r: "iterate os grace m = Some (Loop m')"
  let ?m0 = "set_ipc (set_flag clear_shutdown) m"
  let ?m1 = "phase_status os (phase_isolate os (phase_reload os ?m0))"
  have m1: "I ?m1" by (intro I_phase_status I_phase_isolate I_phase_reload I_set_ipc m)
  have run: "\<not> shutdown_requested (sig_flags (m_ipc m))"
    using r by (auto simp: iterate_def stop_services_not_Loop)
  with r obtain ts m2 where t: "timers_tick os (m_timer_defs ?m1) (cfg_services (m_cfg ?m1)) (m_timers ?m1) ?m1 = Ret (ts, m2)"
    by (auto simp: iterate_def Let_def split: run.splits)
  let ?m2 = "m2\<lparr>m_timers := ts\<rparr>"
  have m2: "I ?m2" using I_timers_tick [OF m1 t] by (simp add: I_cell I_owner_field)
  obtain res m3 where w: "waitpid os (- 1) (needs_polling ?m2) ?m2 = (res, m3)" by fastforce
  have m3: "I (deliver os m3)" using I_waitpid [OF m2, of os "- 1" "needs_polling ?m2"] w by (simp add: I_deliver)
  obtain ex m4 where e: "expired_watchdogs os (deliver os m3) = (ex, m4)" by fastforce
  have m4: "I m4" using I_now [OF m3, of os] e by (auto simp: expired_watchdogs_def Let_def split: prod.splits)
  have "dispatch_wait os grace (needs_polling ?m2) res (kill_expired os ex m4) = Some (Loop m')"
    using r run t w e by (simp add: iterate_def Let_def)
  then show ?thesis by (rule I_dispatch_wait [OF I_kill_expired [OF m4]])
qed

lemma I_startup_begin: "I m \<Longrightarrow> I (startup_begin os m)"
proof -
  assume m: "I m"
  let ?a = "become_subreaper os (log_at os Info ''mitos-services starting'' (logging_init os m))"
  obtain avail b where b: "cgroups_available os ?a = (avail, b)" by fastforce
  have "I ?a" by (intro I_become_subreaper I_log I_logging_init m)
  from I_fs [OF this, of os "Metadata CGROUP_ROOT"] b have ib: "I b"
    by (auto simp: cgroups_available_def split: prod.splits)
  obtain c where c: "c = (if avail then b
       else log_at os Warn (''cgroup delegation from mitos-init unavailable - falling back ''
              @ ''to plain pid-based supervision only'') b)" by blast
  have ic: "I c" unfolding c by (intro I_if I_log ib)
  obtain cfg d where d: "load_config os c = (cfg, d)" by fastforce
  have id: "I d" using I_load_config [OF ic] d by simp
  show ?thesis
    unfolding startup_begin_def Let_def b prod.case c [symmetric] d
    by (intro I_owner_field I_machine id) (use load_config_ok [OF d] in \<open>simp_all add: config_ok_def settings_ok_def\<close>)
qed

lemma I_ipc_run: "I m \<Longrightarrow> I (ipc_run os m)"
  unfolding ipc_run_def ipc_bind_def Let_def
  by (intro I_flow I_cell I_owner_field I_log I_fs)

lemma I_reply: "I m \<Longrightarrow> I (reply body m)"
  by (simp add: reply_def I_owner_field I_cell)

lemma I_ipc_accept: "I m \<Longrightarrow> I (ipc_accept os h line m)"
proof -
  assume m: "I m"
  obtain act i where a: "ipc_request line (m_ipc m) = (act, i)" by fastforce
  have m1: "I (m\<lparr>m_ipc := i\<rparr>)" using m by (rule I_cell)
  show ?thesis
  proof (cases act)
    case (Launch_app path args)
    obtain r b m2 where l: "launch_spawn os h path args (m_apps m) (m\<lparr>m_ipc := i\<rparr>) = (r, b, m2)"
      by (metis prod_cases3)
    have "I (m2\<lparr>m_apps := b\<rparr>)"
      using I_launch_spawn [OF m1, of h path args "m_apps m"] l by (simp add: I_cell I_owner_field)
    then show ?thesis using a l Launch_app
      by (cases r) (simp_all add: ipc_accept_def Let_def I_reply I_cell I_owner_field)
  qed (use a m1 in \<open>simp_all add: ipc_accept_def I_reply I_cell I_owner_field Let_def\<close>)
qed

lemma I_ipc_register: "I m \<Longrightarrow> I (ipc_register os info m)"
proof -
  assume m: "I m"
  obtain i a m1 where l: "launch_register os info (m_apps m) m = (i, a, m1)" by (metis prod_cases3)
  have "I (m1\<lparr>m_apps := a\<rparr>)" using I_launch_register [OF m, of info "m_apps m"] l by (simp add: I_cell I_owner_field)
  then show ?thesis using l by (simp add: ipc_register_def I_reply)
qed

lemma I_ipc_connection: "I m \<Longrightarrow> I (ipc_connection os h conn m)"
  by (cases conn) (simp_all add: ipc_connection_def I_log I_ipc_accept)

lemma I_step: "step os h F grace m m' \<Longrightarrow> I m \<Longrightarrow> I m'"
  by (induction rule: step.induct)
    (auto intro: I_iterate I_startup_services I_set_ipc I_ipc_run I_ipc_connection I_ipc_register
      I_reply I_cell I_owner_field I_monitor)

lemma I_reachable:
  "reachable os h F grace m \<Longrightarrow> (\<And>t. I (machine_init t)) \<Longrightarrow> I m"
  by (induction rule: reachable.induct) (auto intro: I_step I_startup_begin)

end

subsection \<open>Instances\<close>

text \<open>No pid twice in the table, and never more than five remembered restarts.\<close>

definition history_bounded :: "machine \<Rightarrow> bool" where
  "history_bounded m \<longleftrightarrow> table_all (\<lambda>sv. length (restart_times sv) \<le> MAX_RESTARTS_IN_WINDOW) m"

interpretation mh: machine_closed history_bounded
  "\<lambda>n p sv. length (restart_times sv) \<le> MAX_RESTARTS_IN_WINDOW" 0 os False for os
  unfolding history_bounded_def
  by unfold_locales (auto simp: table_all_def set_log_level_def log_open_def log_at_def emit_def remove_service_def
      insert_service_def in_set_delete in_set_update_distinct distinct_keys_delete distinct_keys_update)

lemma history_bounded_init: "history_bounded (machine_init t)"
  by (simp add: history_bounded_def table_all_def machine_init_def)

text \<open>The journal never holds more than \<open>MAX_LINES\<close> lines.\<close>

definition journal_bounded :: "machine \<Rightarrow> bool" where
  "journal_bounded m \<longleftrightarrow> length (journal (log_st m)) \<le> MAX_LINES \<and> distinct (keys (services m))"

interpretation mj: machine_closed journal_bounded "\<lambda>n p sv. True" 0 os False for os
  unfolding journal_bounded_def
  by unfold_locales (auto simp: set_log_level_def log_open_def set_level_def log_at_def emit_def remove_service_def
      insert_service_def distinct_keys_delete distinct_keys_update write_line_bounded split: option.split)

lemma journal_bounded_init: "journal_bounded (machine_init t)"
  by (simp add: journal_bounded_def machine_init_def log_init_def)

text \<open>Every definition is well formed, and the level is one of the four.\<close>

definition well_typed :: "os \<Rightarrow> machine \<Rightarrow> bool" where
  "well_typed os m \<longleftrightarrow> vars_ok os m \<and> table_all (\<lambda>sv. def_ok (sv_def sv)) m \<and> current_level (log_st m) \<in> range level_u8"

lemma log_open_level [simp]: "current_level (log_open t b st) = current_level st"
  by (simp add: log_open_def split: option.split)

interpretation mw: machine_closed "well_typed os" "\<lambda>n p sv. def_ok (sv_def sv)" 0 os True for os
  unfolding well_typed_def
  by unfold_locales (auto simp: table_all_def set_log_level_def set_level_def log_at_def emit_def remove_service_def
      insert_service_def in_set_delete in_set_update_distinct distinct_keys_delete distinct_keys_update
      vars_ok_def dest: map_of_SomeD)

lemma well_typed_init: "well_typed os (machine_init t)"
  using config_default_ok rangeI [of level_u8 Info]
  by (simp add: well_typed_def vars_ok_def table_all_def machine_init_def log_init_def one_line_def watch_ok_def timer_defs_ok_def)

text \<open>Every registered app is filed under its own pid.\<close>

lemma apps_ok_launch_spawn: "apps_ok a \<Longrightarrow> apps_ok (fst (snd (launch_spawn os h path args a s)))"
  by (simp add: apps_ok_def launch_spawn_by_pid)

end
