(* ===== verification/Unit_Facts.thy ===== *)
theory Unit_Facts
  imports Units Config_Facts Timers
begin

text \<open>
  Round trips of the sectioned files: a service definition printed as a unit file, and a timer
  printed as a timer file, parse back to themselves. The line loop is shared, so its law is
  stated once, for any handler.
\<close>

subsection \<open>Sectioned files\<close>

definition section_text :: "string \<Rightarrow> (string \<times> string) list \<Rightarrow> string" where
  "section_text name kvs = concat (map (\<lambda>l. l @ [nl]) ((''['' @ name @ '']'') # map show_kv kvs))"

text \<open>Values as they can stand after the equals sign of a line.\<close>

definition section_kvs :: "(string \<times> string) list \<Rightarrow> bool" where
  "section_kvs kvs \<longleftrightarrow>
     (\<forall>(k, v) \<in> set kvs. good_key k \<and> hd k \<notin> {CHR ''#'', CHR '';'', CHR ''[''} \<and> line_value v)"

lemma section_kv_line:
  assumes "good_key k" "hd k \<notin> {CHR ''#'', CHR '';'', CHR ''[''}" "line_value v"
  shows "section_line wanted handler (show_kv (k, v)) (wanted, acc) = (wanted, handler k v acc)"
proof -
  have k: "k \<noteq> []" "CHR ''='' \<notin> set k" "\<forall>c \<in> set k. \<not> is_ws c"
    using assms(1) by (auto simp: good_key_def plain_def)
  have "trim (show_kv (k, v)) = show_kv (k, v)"
    using k assms(3) by (intro trim_id) (auto simp: show_kv_def line_value_def)
  moreover have "show_kv (k, v) \<noteq> []" "\<not> starts_with ''#'' (show_kv (k, v))" "\<not> starts_with '';'' (show_kv (k, v))"
    "section_header (show_kv (k, v)) = None"
    using k(1) assms(2) by (auto simp: starts_with_def show_kv_def take_Suc section_header_def strip_prefix_def)
  moreover have "split_once CHR ''='' (show_kv (k, v)) = Some (k, v)"
    using k by (simp add: show_kv_def split_once_append)
  moreover have "trim k = k" "trim v = v"
    using k assms(3) by (auto simp: line_value_def intro: trim_no_ws trim_id)
  ultimately show ?thesis by (simp add: section_line_def Let_def)
qed

lemma section_fold_kvs:
  "section_kvs kvs \<Longrightarrow>
   fold (section_line wanted handler) (map show_kv kvs) (wanted, acc) =
     (wanted, fold (\<lambda>(k, v). handler k v) kvs acc)"
  by (induction kvs arbitrary: acc) (auto simp: section_kvs_def section_kv_line)

lemma section_header_line:
  assumes "plain name"
  shows "section_line wanted handler (''['' @ name @ '']'') (sec, acc) = (name, acc)"
proof -
  have "trim (''['' @ name @ '']'') = ''['' @ name @ '']''"
    by (rule trim_id) (simp add: is_ws_def code_def)
  moreover have "section_header (''['' @ name @ '']'') = Some name"
    using strip_suffix_append [of "'']''" name]
    by (simp add: section_header_def strip_prefix_def starts_with_def)
  ultimately show ?thesis by (simp add: section_line_def Let_def starts_with_def)
qed

lemma section_lines_text:
  assumes name: "plain name" and kvs: "section_kvs kvs"
  shows "section_lines name handler (section_text name kvs) acc = fold (\<lambda>(k, v). handler k v) kvs acc"
proof -
  have ws: "is_ws nl" "is_ws cr" by (simp_all add: is_ws_def nl_def cr_def code_def)
  have "nl \<notin> set l \<and> cr \<notin> set l" if "l \<in> set ((''['' @ name @ '']'') # map show_kv kvs)" for l
    using that name kvs ws
    by (auto simp: plain_def section_kvs_def show_kv_def line_value_def good_key_def nl_def cr_def)
  then have "lines (section_text name kvs) = (''['' @ name @ '']'') # map show_kv kvs"
    unfolding section_text_def by (intro lines_concat) blast
  then show ?thesis
    using section_header_line [OF name, of name handler "[]" acc]
    by (simp add: section_lines_def section_fold_kvs [OF kvs] del: append_Cons append_Nil)
qed

subsection \<open>Timers\<close>

definition timer_fields :: "timer_def \<Rightarrow> (string \<times> string) list" where
  "timer_fields t =
     opt_field ''OnBootSec'' (map_option secs_of (td_on_boot t))
     @ opt_field ''OnUnitActiveSec'' (map_option secs_of (td_on_active t))"

lemma secs_line_value: "line_value (secs_of d)"
  by (simp add: secs_of_def plain_line_value plain_show_nat)

lemma section_kvs_simps [simp]:
  "section_kvs []" "section_kvs (xs @ ys) \<longleftrightarrow> section_kvs xs \<and> section_kvs ys"
  by (auto simp: section_kvs_def)

definition section_key :: "string \<Rightarrow> bool" where
  "section_key k \<longleftrightarrow> good_key k \<and> hd k \<notin> {CHR ''#'', CHR '';'', CHR ''[''}"

lemma section_kvs_fields:
  "section_kvs [(k, v)] \<longleftrightarrow> section_key k \<and> line_value v"
  "section_key k \<Longrightarrow> \<forall>v \<in> set_option x. line_value v \<Longrightarrow> section_kvs (opt_field k x)"
  "section_key k \<Longrightarrow> line_value (join '','' xs) \<Longrightarrow> section_kvs (list_field k xs)"
  "section_key k \<Longrightarrow> section_kvs (bool_field k b)"
  by (auto simp: section_kvs_def section_key_def opt_field_def list_field_def bool_field_def line_value_def
      is_ws_def code_def char_defs split: option.split)

lemma parse_timer_show:
  assumes "file_stem path = Some (td_name t)" "td_on_boot t \<noteq> None \<or> td_on_active t \<noteq> None"
    "whole_secs (td_on_boot t)" "whole_secs (td_on_active t)"
  shows "parse_timer path (section_text ''Timer'' (timer_fields t)) = Inr t"
proof -
  have keys: "section_key ''OnBootSec''" "section_key ''OnUnitActiveSec''" "plain ''Timer''"
    by (simp_all add: section_key_def good_key_def is_ws_def code_def dquote_def)
  have kvs: "section_kvs (timer_fields t)"
    unfolding timer_fields_def section_kvs_simps
    by (intro conjI section_kvs_fields keys) (auto simp: secs_line_value)
  have "fold (\<lambda>(k, v). timer_key k v) (timer_fields t) (None, None) = (td_on_boot t, td_on_active t)"
    using assms(3,4) parse_secs_of
    by (cases "td_on_boot t"; cases "td_on_active t") (simp_all add: timer_fields_def opt_field_def timer_key_def)
  then have eq: "section_lines ''Timer'' timer_key (section_text ''Timer'' (timer_fields t)) (None, None) =
      (td_on_boot t, td_on_active t)"
    by (simp add: section_lines_text [OF keys(3) kvs])
  show ?thesis unfolding parse_timer_def eq assms(1) using assms(2) by auto
qed

subsection \<open>Service units\<close>

fun unit_restart_text :: "restart_policy \<Rightarrow> string" where
  "unit_restart_text Always = ''always''"
| "unit_restart_text Never = ''no''"
| "unit_restart_text OnFailure = ''on-failure''"

definition env_field :: "(string \<times> string) list \<Rightarrow> (string \<times> string) list" where
  "env_field es = (if es = [] then [] else [(''Environment'', join '' '' (map env_pair es))])"

definition unit_fields :: "service_def \<Rightarrow> (string \<times> string) list" where
  "unit_fields d =
     [(''ExecStart'', join '' '' (sd_path d # sd_args d))]
     @ [(''Restart'', unit_restart_text (sd_restart d))] @ bool_field ''X-Critical'' (sd_critical d)
     @ opt_field ''MemoryMax'' (map_option (\<lambda>w. show_nat (unat w)) (sd_memory_limit d))
     @ list_field ''After'' (sd_after d) @ list_field ''X-AfterReady'' (sd_after_ready d)
     @ list_field ''Before'' (sd_before d) @ list_field ''Requires'' (sd_requires d)
     @ list_field ''Wants'' (sd_wants d) @ opt_field ''User'' (sd_user d) @ opt_field ''Group'' (sd_group d)
     @ opt_field ''WatchdogSec'' (map_option secs_of (sd_watchdog_timeout d))
     @ env_field (sd_environment d) @ opt_field ''WorkingDirectory'' (sd_working_dir d)
     @ [(''X-Target'', sd_target d)] @ bool_field ''PrivateTmp'' (sd_private_tmp d)
     @ bool_field ''NoNewPrivileges'' (sd_no_new_privileges d)
     @ bool_field ''ProtectSystem'' (sd_protect_system d)
     @ opt_field ''OOMScoreAdjust'' (map_option (\<lambda>w. show_int (sint w)) (sd_oom_score_adjust d))"

definition show_unit :: "service_def \<Rightarrow> string" where
  "show_unit d = section_text ''Service'' (unit_fields d)"

definition read_unit :: "string \<Rightarrow> (string \<times> string) list \<Rightarrow> fields \<Rightarrow> fields \<times> string list" where
  "read_unit path kvs f = fold (\<lambda>(k, v). unit_key path k v) kvs (f, [])"

lemma read_unit_append:
  "read_unit path xs f = (g, []) \<Longrightarrow> read_unit path (xs @ ys) f = read_unit path ys g"
  by (simp add: read_unit_def)

lemma read_unit_plain:
  "read_unit path [(''ExecStart'', v)] f = (f\<lparr>f_path := Some v\<rparr>, [])"
  "read_unit path [(''X-Target'', v)] f = (f\<lparr>f_target := Some v\<rparr>, [])"
  "read_unit path [(''Restart'', unit_restart_text r)] f = (f\<lparr>f_restart := r\<rparr>, [])"
  by (simp add: read_unit_def unit_key_def, simp add: read_unit_def unit_key_def,
      cases r, simp_all add: read_unit_def unit_key_def)

lemma protect_true: "\<not> eq_ignore_ascii_case ''true'' ''no''" "\<not> eq_ignore_ascii_case ''true'' ''false''"
  by (simp_all add: eq_ignore_ascii_case_def ascii_lower_def code_def)

lemma read_unit_bool:
  "\<not> f_critical f \<Longrightarrow> read_unit path (bool_field ''X-Critical'' b) f = (f\<lparr>f_critical := b\<rparr>, [])"
  "\<not> f_private_tmp f \<Longrightarrow> read_unit path (bool_field ''PrivateTmp'' b) f = (f\<lparr>f_private_tmp := b\<rparr>, [])"
  "\<not> f_protect_system f \<Longrightarrow> read_unit path (bool_field ''ProtectSystem'' b) f = (f\<lparr>f_protect_system := b\<rparr>, [])"
  "\<not> f_no_new_privileges f \<Longrightarrow> read_unit path (bool_field ''NoNewPrivileges'' b) f = (f\<lparr>f_no_new_privileges := b\<rparr>, [])"
  by (cases f; simp add: bool_field_def read_unit_def unit_key_def eq_ignore_true protect_true)+

lemma read_unit_list:
  assumes "\<forall>x \<in> set xs. plain_item x"
  shows "f_after f = [] \<Longrightarrow> read_unit path (list_field ''After'' xs) f = (f\<lparr>f_after := xs\<rparr>, [])"
    "f_after_ready f = [] \<Longrightarrow> read_unit path (list_field ''X-AfterReady'' xs) f = (f\<lparr>f_after_ready := xs\<rparr>, [])"
    "f_before f = [] \<Longrightarrow> read_unit path (list_field ''Before'' xs) f = (f\<lparr>f_before := xs\<rparr>, [])"
    "f_requires f = [] \<Longrightarrow> read_unit path (list_field ''Requires'' xs) f = (f\<lparr>f_requires := xs\<rparr>, [])"
    "f_wants f = [] \<Longrightarrow> read_unit path (list_field ''Wants'' xs) f = (f\<lparr>f_wants := xs\<rparr>, [])"
  using parse_name_list_join [of xs] assms
  by (cases f; simp add: list_field_def read_unit_def unit_key_def)+

lemma parse_env_pairs_join:
  assumes "printable_env es"
  shows "parse_env_pairs (join '' '' (map env_pair es)) = es"
proof -
  have "split_whitespace (join '' '' (map env_pair es)) = map env_pair es"
    using assms by (intro split_whitespace_join) (auto simp: printable_env_def env_pair_def plain_def)
  then show ?thesis
    unfolding parse_env_pairs_def using assms by (simp add: map_filter_env printable_env_def split_def)
qed

lemma read_unit_env:
  "printable_env es \<Longrightarrow> f_environment f = [] \<Longrightarrow> read_unit path (env_field es) f = (f\<lparr>f_environment := es\<rparr>, [])"
  using parse_env_pairs_join [of es]
  by (cases f; simp add: env_field_def read_unit_def unit_key_def)

lemma read_unit_opt:
  "f_user f = None \<Longrightarrow> read_unit path (opt_field ''User'' x) f = (f\<lparr>f_user := x\<rparr>, [])"
  "f_group f = None \<Longrightarrow> read_unit path (opt_field ''Group'' x) f = (f\<lparr>f_group := x\<rparr>, [])"
  "f_working_dir f = None \<Longrightarrow> read_unit path (opt_field ''WorkingDirectory'' x) f = (f\<lparr>f_working_dir := x\<rparr>, [])"
  by (cases f; cases x; simp add: opt_field_def read_unit_def unit_key_def)+

lemma read_unit_mem:
  "f_memory_limit f = None \<Longrightarrow>
   read_unit path (opt_field ''MemoryMax'' (map_option (\<lambda>w. show_nat (unat w)) m)) f = (f\<lparr>f_memory_limit := m\<rparr>, [])"
  by (cases m; cases f; simp add: opt_field_def read_unit_def unit_key_def parse_size_bytes)

lemma read_unit_oom:
  "f_oom_score_adjust f = None \<Longrightarrow>
   read_unit path (opt_field ''OOMScoreAdjust'' (map_option (\<lambda>w. show_int (sint w)) x)) f =
     (f\<lparr>f_oom_score_adjust := x\<rparr>, [])"
  by (cases x; cases f; simp add: opt_field_def read_unit_def unit_key_def rtxt)

lemma read_unit_watchdog:
  "f_watchdog_timeout f = None \<Longrightarrow> whole_secs t \<Longrightarrow>
   read_unit path (opt_field ''WatchdogSec'' (map_option secs_of t)) f = (f\<lparr>f_watchdog_timeout := t\<rparr>, [])"
  by (cases t; cases f; simp add: opt_field_def read_unit_def unit_key_def parse_secs_of)

text \<open>What a unit leaves in the parser: the arguments are still part of \<open>ExecStart\<close>.\<close>

definition unit_fields_of :: "service_def \<Rightarrow> fields" where
  "unit_fields_of d = (fields_of d)\<lparr>f_path := Some (join '' '' (sd_path d # sd_args d)), f_args := []\<rparr>"

lemma read_unit_fields:
  assumes "printable d"
  shows "read_unit path (unit_fields d) (fields_init Never) = (unit_fields_of d, [])"
proof -
  have lists: "\<forall>x \<in> set (sd_after d). plain_item x"
    "\<forall>x \<in> set (sd_after_ready d). plain_item x" "\<forall>x \<in> set (sd_before d). plain_item x"
    "\<forall>x \<in> set (sd_requires d). plain_item x" "\<forall>x \<in> set (sd_wants d). plain_item x"
    and w: "whole_secs (sd_watchdog_timeout d)" and e: "printable_env (sd_environment d)"
    using assms by (auto simp: printable_def)
  note step = read_unit_append [OF read_unit_plain(1)] read_unit_append [OF read_unit_plain(2)]
    read_unit_append [OF read_unit_plain(3)] read_unit_append [OF read_unit_bool(1)]
    read_unit_append [OF read_unit_bool(2)] read_unit_append [OF read_unit_bool(3)]
    read_unit_append [OF read_unit_bool(4)] read_unit_append [OF read_unit_mem]
    read_unit_append [OF read_unit_list(1) [OF lists(1)]] read_unit_append [OF read_unit_list(2) [OF lists(2)]]
    read_unit_append [OF read_unit_list(3) [OF lists(3)]] read_unit_append [OF read_unit_list(4) [OF lists(4)]]
    read_unit_append [OF read_unit_list(5) [OF lists(5)]] read_unit_append [OF read_unit_opt(1)]
    read_unit_append [OF read_unit_opt(2)] read_unit_append [OF read_unit_opt(3)]
    read_unit_append [OF read_unit_watchdog [OF _ w]] read_unit_append [OF read_unit_env [OF e]] read_unit_oom
  show ?thesis
    unfolding unit_fields_def fields_init_def unit_fields_of_def fields_of_def
    by (simp add: step del: append_Cons append_Nil)
qed

lemma join_space_value:
  "\<forall>x \<in> set xs. is_tok x \<Longrightarrow> line_value (join '' '' xs)"
  if "is_tok = (\<lambda>x. x \<noteq> [] \<and> plain x)"
proof -
  assume x: "\<forall>x \<in> set xs. is_tok x"
  have ends: "xs \<noteq> [] \<Longrightarrow> \<forall>x \<in> set xs. x \<noteq> [] \<Longrightarrow>
      join '' '' xs \<noteq> [] \<and> hd (join '' '' xs) = hd (hd xs) \<and> last (join '' '' xs) = last (last xs)" for xs
    by (induction xs rule: induct_list012) auto
  have chars: "c \<in> set (join '' '' xs) \<Longrightarrow> c = CHR '' '' \<or> (\<exists>x \<in> set xs. c \<in> set x)" for c xs
    by (induction xs rule: induct_list012) auto
  have sp: "\<not> is_ws dquote" "is_ws nl" "is_ws cr" "nl \<noteq> CHR '' ''" "cr \<noteq> CHR '' ''" "dquote \<noteq> CHR '' ''"
    by (simp_all add: is_ws_def code_def char_defs)
  have "dquote \<notin> set (join '' '' xs)" "nl \<notin> set (join '' '' xs)" "cr \<notin> set (join '' '' xs)"
    using chars [of dquote xs] chars [of nl xs] chars [of cr xs] x that sp by (auto simp: plain_def)
  moreover have "xs \<noteq> [] \<Longrightarrow> \<not> is_ws (hd (join '' '' xs)) \<and> \<not> is_ws (last (join '' '' xs))"
  proof -
    assume ne: "xs \<noteq> []"
    then have "hd xs \<noteq> [] \<and> plain (hd xs)" "last xs \<noteq> [] \<and> plain (last xs)" using x that by auto
    then show ?thesis using ends [OF ne] x that by (auto simp: plain_def)
  qed
  ultimately show ?thesis by (cases "xs = []") (auto simp: line_value_def)
qed

lemma section_unit_fields:
  assumes "printable d" "sd_path d \<noteq> []"
  shows "section_kvs (unit_fields d)"
proof -
  have keys: "section_key ''ExecStart''" "section_key ''Restart''" "section_key ''X-Critical''"
    "section_key ''MemoryMax''" "section_key ''After''" "section_key ''X-AfterReady''" "section_key ''Before''"
    "section_key ''Requires''" "section_key ''Wants''" "section_key ''User''" "section_key ''Group''"
    "section_key ''WatchdogSec''" "section_key ''Environment''" "section_key ''WorkingDirectory''"
    "section_key ''X-Target''" "section_key ''PrivateTmp''" "section_key ''NoNewPrivileges''"
    "section_key ''ProtectSystem''" "section_key ''OOMScoreAdjust''"
    by (simp_all add: section_key_def good_key_def is_ws_def code_def dquote_def)
  have lists: "line_value (join '','' (sd_after d))" "line_value (join '','' (sd_after_ready d))"
    "line_value (join '','' (sd_before d))" "line_value (join '','' (sd_requires d))" "line_value (join '','' (sd_wants d))"
    using assms(1) by (auto simp: printable_def plain_item_def intro!: plain_line_value plain_join)
  have texts: "\<forall>v \<in> set_option (sd_user d). line_value v" "\<forall>v \<in> set_option (sd_group d). line_value v"
    "\<forall>v \<in> set_option (sd_working_dir d). line_value v" "line_value (sd_target d)"
    using assms(1) by (auto simp: printable_def intro!: plain_line_value)
  have nums: "\<forall>v \<in> set_option (map_option (\<lambda>w. show_nat (unat w)) (sd_memory_limit d)). line_value v"
    "\<forall>v \<in> set_option (map_option secs_of (sd_watchdog_timeout d)). line_value v"
    "\<forall>v \<in> set_option (map_option (\<lambda>w. show_int (sint w)) (sd_oom_score_adjust d)). line_value v"
    by (auto simp: plain_show_nat plain_show_int secs_line_value plain_line_value)
  have exec: "line_value (join '' '' (sd_path d # sd_args d))"
    using assms by (intro join_space_value [OF refl]) (auto simp: printable_def plain_item_def)
  have r: "line_value (unit_restart_text (sd_restart d))"
    by (cases "sd_restart d") (simp_all add: line_value_def is_ws_def code_def char_defs)
  have env: "section_kvs (env_field (sd_environment d))"
  proof (cases "sd_environment d = []")
    case True
    then show ?thesis by (simp add: env_field_def)
  next
    case False
    have "line_value (join '' '' (map env_pair (sd_environment d)))"
      using assms(1) by (intro join_space_value [OF refl])
        (auto simp: printable_def printable_env_def env_pair_def dquote_def)
    then show ?thesis using False keys(13) by (simp add: env_field_def section_kvs_fields)
  qed
  show ?thesis
    unfolding unit_fields_def section_kvs_simps section_kvs_fields(1)
    by (intro conjI section_kvs_fields keys lists texts nums exec r env)
qed

lemma parse_unit_show:
  assumes "printable d" "sd_path d \<noteq> []" "file_stem path = Some (sd_name d)"
  shows "parse_unit path (show_unit d) = (Inr d, [])"
proof -
  have "plain ''Service''" by (simp add: is_ws_def code_def dquote_def)
  then have "section_lines ''Service'' (unit_key path) (show_unit d) (fields_init Never, []) = (unit_fields_of d, [])"
    unfolding show_unit_def using read_unit_fields [OF assms(1), of path]
    by (simp add: section_lines_text [OF _ section_unit_fields [OF assms(1,2)]] read_unit_def)
  moreover have "split_whitespace (join '' '' (sd_path d # sd_args d)) = sd_path d # sd_args d"
    using assms(1,2) by (intro split_whitespace_join) (auto simp: printable_def plain_item_def plain_def)
  moreover have "service_of_fields (sd_name d) (sd_path d) (sd_args d) (unit_fields_of d) = d"
    by (cases d) (simp add: unit_fields_of_def service_of_fields_def fields_of_def)
  ultimately show ?thesis
    using assms(3) by (simp add: parse_unit_def unit_fields_of_def)
qed

end
