(* ===== verification/Boot.thy ===== *)
theory Boot
  imports Sup_Lifecycle
begin

text \<open>
  The boot sequence when nothing goes wrong: a reported cycle is a cycle of the configured
  dependency relation and only that, and without one every configured service is running after
  \<open>spawn_all\<close>.
\<close>

subsection \<open>Cycles\<close>

definition rank :: "string list \<Rightarrow> string \<Rightarrow> nat" where
  "rank ns n = length (takeWhile (\<lambda>x. x \<noteq> n) ns)"

lemma rank_split: "n \<notin> set as \<Longrightarrow> rank (as @ n # bs) n = length as"
  by (induction as) (auto simp: rank_def)

lemma rank_before: "n \<in> set as \<Longrightarrow> rank (as @ bs) n < length as"
  by (induction as) (auto simp: rank_def)

lemma no_rest_acyclic:
  assumes dist: "distinct (map sd_name defs)" and none: "snd (topological_order defs) = []"
  shows "acyclic (dep_rel defs)"
proof -
  obtain pre rest where eq: "topological_order defs = (pre @ rest, map sd_name rest)"
    and m: "mset (pre @ rest) = mset defs" and ord: "ordered_from (sd_name ` set defs) {} pre"
    by (rule topological_order_parts)
  with none have m: "mset pre = mset defs" by simp
  then have "mset (map sd_name pre) = mset (map sd_name defs)" by simp
  with dist have dp: "distinct (map sd_name pre)" by (metis mset_eq_imp_distinct_iff)
  have "rank (map sd_name pre) dep < rank (map sd_name pre) n" if "(dep, n) \<in> dep_rel defs" for dep n
  proof -
    from that obtain d where d: "d \<in> set defs" "n = sd_name d" "dep \<in> set (sd_after d)" "dep \<in> sd_name ` set defs"
      by (auto simp: dep_rel_def)
    then have "d \<in> set pre" using m by (metis set_mset_mset)
    then obtain as bs where ab: "pre = as @ d # bs" by (meson split_list)
    from ordered_from_split [OF ord [unfolded ab]] d have "dep \<in> set (map sd_name as)"
      by (auto simp: deps_placed_def)
    moreover have "n \<notin> set (map sd_name as)" using dp d(2) unfolding ab by auto
    ultimately show ?thesis
      using rank_before [of dep "map sd_name as" "map sd_name (d # bs)"]
        rank_split [of n "map sd_name as" "map sd_name bs"] d(2)
      by (simp add: ab)
  qed
  then have "dep_rel defs \<subseteq> measure (rank (map sd_name pre))" by auto
  then show ?thesis by (meson acyclic_subset wf_acyclic wf_measure)
qed

lemma no_rest_iff:
  "distinct (map sd_name defs) \<Longrightarrow> snd (topological_order defs) = [] \<longleftrightarrow> acyclic (dep_rel defs)"
  using no_rest_acyclic acyclic_no_rest by blast

subsection \<open>A boot without failures\<close>

lemma effective_requires_after:
  assumes dist: "distinct (map sd_name defs)" and d: "d \<in> set (effective_after defs)"
  shows "set (sd_requires d) \<subseteq> set (sd_after d)"
proof -
  obtain i where i: "i < length defs" "d = effective_after defs ! i"
    using d by (auto simp: in_set_conv_nth)
  have "no_after d = no_after (defs ! i)"
    using arg_cong [OF effective_after_no_after [of defs], of "\<lambda>xs. xs ! i"] i by simp
  then have "sd_requires (no_after d) = sd_requires (no_after (defs ! i))" by simp
  then have "sd_requires d = sd_requires (defs ! i)" by (simp add: no_after_def)
  then show ?thesis using effective_after_deps [OF dist i(1)] i(2) by (auto simp: ordering_deps_def)
qed

definition running_defs :: "'a supervisor_scheme \<Rightarrow> service_def list" where
  "running_defs s = map (\<lambda>e. sv_def (snd e)) (services s)"

lemma running_names_defs: "running_names s = map sd_name (running_defs s)"
  by (simp add: running_names_def running_defs_def split_def)

lemma spawn_loop_complete:
  assumes ok: "spawns_succeed os" and uniq: "pids_unique os" and D: "distinct (map sd_name D)"
    and req: "\<forall>d \<in> set D. set (sd_requires d) \<subseteq> set (sd_after d)"
  shows "boot_inv os D S s \<Longrightarrow> set ds \<subseteq> set D \<Longrightarrow> ordered_from (sd_name ` set D) S ds \<Longrightarrow>
    fst (spawn_loop os (sd_name ` set D) ds S s) = S \<union> sd_name ` set ds \<and>
    boot_inv os D (S \<union> sd_name ` set ds) (snd (spawn_loop os (sd_name ` set D) ds S s)) \<and>
    running_defs (snd (spawn_loop os (sd_name ` set D) ds S s)) = running_defs s @ ds"
proof (induction ds arbitrary: S s)
  case Nil
  then show ?case by simp
next
  case (Cons d ds)
  let ?w = "fold (\<lambda>dep. wait_for_ready os dep READY_WAIT_TIMEOUT) (sd_after_ready d) s"
  let ?u = "spawn_with_history os d [] ?w"
  have d: "d \<in> set D" using Cons.prems by simp
  have miss: "hard_missing (sd_name ` set D) S d = []"
    using Cons.prems(3) req d by (auto simp: hard_missing_def filter_empty_conv deps_placed_def)
  have w: "boot_inv os D S ?w" using Cons.prems(1) wait_all_quiet by (rule boot_inv_quiet)
  obtain p sv where a: "services ?u = AList.update p sv (services ?w)" "sv_def sv = d" "p \<notin> set (keys (services ?w))"
    using spawn_with_history_succeeds [OF ok, of d "[]" ?w] w
    unfolding added_def boot_inv_def fresh_from_def by blast
  have "services ?u = services ?w @ [(p, sv)]" unfolding a(1) by (rule update_new [OF a(3)])
  moreover have "services ?w = services s" using wait_all_quiet by (rule services_quiet)
  ultimately have run: "running_defs ?u = running_defs s @ [d]" "sd_name d \<in> set (running_names ?u)"
    using a(2) by (auto simp: running_defs_def running_names_def)
  from boot_inv_spawn [OF w uniq D d miss] run
  have "boot_inv os D (insert (sd_name d) S) ?u" by simp
  from Cons.IH [OF this] Cons.prems run show ?case using miss by (simp add: Let_def)
qed

text \<open>The boot puts every configured service into the table, in the start order, under its effective definition.\<close>

lemma spawn_all_table:
  assumes ok: "spawns_succeed os" and uniq: "pids_unique os" and s: "services s = []"
    and dist: "distinct (map sd_name defs)" and none: "snd (topological_order (effective_after defs)) = []"
  defines "u \<equiv> spawn_all os defs s"
  shows "running_defs u = fst (topological_order (effective_after defs))"
    "mset (running_defs u) = mset (effective_after defs)" "distinct (keys (services u))"
    "fresh_from os (ev u) (set (keys (services u)))"
proof -
  let ?ea = "effective_after defs"
  have names: "sd_name ` set ?ea = sd_name ` set defs"
    using arg_cong [OF effective_after_names [of defs], of set] by simp
  have D: "distinct (map sd_name ?ea)" using dist by (simp add: effective_after_names)
  obtain pre rest where eq: "topological_order ?ea = (pre @ rest, map sd_name rest)"
    and m: "mset (pre @ rest) = mset ?ea" and ord: "ordered_from (sd_name ` set ?ea) {} pre"
    by (rule topological_order_parts)
  with none have top: "topological_order ?ea = (pre, [])" and m: "mset pre = mset ?ea" by simp_all
  have sets: "set pre = set ?ea" using m by (metis set_mset_mset)
  have tl: "topological_order_logged os ?ea s = (pre, s)"
    by (simp add: topological_order_logged_def top)
  have inv: "boot_inv os ?ea {} s" using s by (simp add: boot_inv_def running_names_def fresh_from_def)
  have "boot_inv os ?ea (sd_name ` set pre) u \<and> running_defs u = pre"
    using spawn_loop_complete [OF ok uniq D _ inv _ ord] effective_requires_after [OF dist] sets s
    unfolding u_def spawn_all_def tl Let_def prod.case names by (simp add: running_defs_def)
  with m top show "running_defs u = fst (topological_order ?ea)" "mset (running_defs u) = mset ?ea" "distinct (keys (services u))"
    "fresh_from os (ev u) (set (keys (services u)))"
    by (simp_all add: boot_inv_def)
qed

lemma spawn_all_runs:
  assumes "spawns_succeed os" "pids_unique os" "services s = []" "distinct (map sd_name defs)"
    and "snd (topological_order (effective_after defs)) = []"
  shows "set (running_names (spawn_all os defs s)) = sd_name ` set defs"
proof -
  have "set (running_defs (spawn_all os defs s)) = set (effective_after defs)"
    using spawn_all_table(2) [OF assms] by (metis set_mset_mset)
  then show ?thesis
    using arg_cong [OF effective_after_names [of defs], of set] by (simp add: running_names_defs)
qed

subsection \<open>A reload right after the boot\<close>

text \<open>
  The table holds the effective definitions, a reload compares them with those of the configuration:
  they agree exactly when folding added nothing to \<open>after\<close>.
\<close>

lemma add_after_same: "set xs \<subseteq> set (sd_after d) \<Longrightarrow> fold add_after xs d = d"
  by (induction xs) (simp_all add: add_after_def)

lemma apply_before_same:
  "\<forall>src. (sd_name x, src) \<in> set ps \<longrightarrow> src \<in> set (sd_after x) \<Longrightarrow>
   distinct (map sd_name ds) \<Longrightarrow> i < length ds \<Longrightarrow> ds ! i = x \<Longrightarrow> apply_before ps ds ! i = x"
proof (induction ps arbitrary: ds)
  case (Cons p ps)
  obtain t src where p: "p = (t, src)" by fastforce
  let ?ds = "update_named t (add_after src) ds"
  have names: "map sd_name ?ds = map sd_name ds" by (rule update_named_map) simp
  have i: "?ds ! i = x"
    using Cons.prems by (auto simp: update_named_nth p add_after_def)
  have "length ?ds = length ds" using arg_cong [OF names, of length] by simp
  with Cons.IH [of ?ds] names i Cons.prems have "apply_before ps ?ds ! i = x" by simp
  then show ?case by (simp add: apply_before_def p)
qed (simp add: apply_before_def)

lemma effective_after_same:
  assumes dist: "distinct (map sd_name defs)" and i: "i < length defs"
  shows "defs_equal (effective_after defs ! i) (defs ! i) \<longleftrightarrow> ordering_deps defs (defs ! i) \<subseteq> set (sd_after (defs ! i))"
proof
  assume "defs_equal (effective_after defs ! i) (defs ! i)"
  then show "ordering_deps defs (defs ! i) \<subseteq> set (sd_after (defs ! i))"
    using effective_after_deps [OF assms] by (simp add: defs_equal_def)
next
  assume sub: "ordering_deps defs (defs ! i) \<subseteq> set (sd_after (defs ! i))"
  have f: "map fold_deps defs ! i = defs ! i"
    unfolding nth_map [OF i] fold_deps_def by (rule add_after_same) (use sub in \<open>auto simp: ordering_deps_def\<close>)
  have "apply_before (before_pairs defs) (map fold_deps defs) ! i = defs ! i"
    by (rule apply_before_same)
      (use sub i dist f in \<open>auto simp: comp_def set_before_pairs ordering_deps_def\<close>)
  then show "defs_equal (effective_after defs ! i) (defs ! i)"
    by (simp add: effective_after_apply defs_equal_def)
qed

lemma unchanged_reload_touches:
  assumes ok: "spawns_succeed os" and uniq: "pids_unique os" and s: "services s = []"
    and dist: "distinct (map sd_name defs)" and none: "snd (topological_order (effective_after defs)) = []"
  shows "fst (reload_services os defs (spawn_all os defs s)) =
    map sd_name (filter (\<lambda>d. \<not> ordering_deps defs d \<subseteq> set (sd_after d)) defs)"
proof -
  let ?u = "spawn_all os defs s"
  note u = spawn_all_table [OF assms]
  have sets: "set (running_defs ?u) = set (effective_after defs)" using u(2) by (metis set_mset_mset)
  have dn: "distinct (map sd_name (effective_after defs))" using dist by (simp add: effective_after_names)
  have "up_to_date (services ?u) d \<longleftrightarrow> ordering_deps defs d \<subseteq> set (sd_after d)" if d: "d \<in> set defs" for d
  proof -
    obtain i where i: "i < length defs" "d = defs ! i" using d by (auto simp: in_set_conv_nth)
    let ?e = "effective_after defs ! i"
    have e: "?e \<in> set (effective_after defs)" "sd_name ?e = sd_name d"
      using i arg_cong [OF effective_after_names [of defs], of "\<lambda>xs. xs ! i"] by simp_all
    have only: "x = ?e" if "x \<in> set (effective_after defs)" "sd_name x = sd_name d" for x
      using that e dn by (metis distinct_map inj_onD)
    obtain x where x: "x \<in> set (services ?u)" "sv_def (snd x) = ?e"
      using e(1) unfolding sets [symmetric] running_defs_def by auto
    have "find_running (sd_name d) ?u \<noteq> None"
      unfolding find_running_def find_None_iff using x e(2) by (metis (mono_tags, lifting) case_prod_beta)
    then obtain p sv where f: "find_running (sd_name d) ?u = Some (p, sv)" by auto
    then have "(p, sv) \<in> set (services ?u)" "sd_name (sv_def sv) = sd_name d"
      by (auto simp: find_running_def dest!: find_Some_mem)
    moreover then have "sv_def sv \<in> set (effective_after defs)"
      unfolding sets [symmetric] running_defs_def by force
    ultimately have "sv_def sv = ?e" by (intro only) simp_all
    with f effective_after_same [OF dist i(1)] i(2) show ?thesis by (simp add: up_to_date_find)
  qed
  then show ?thesis
    unfolding reload_touched [OF u(3) dist disjI2 [OF ok] u(4)]
    by (intro arg_cong [of _ _ "map sd_name"] filter_cong) auto
qed

end
