(* ===== verification/System.thy ===== *)
theory System
  imports Main_Facts Unit_Facts Boot
begin

text \<open>
  From the text of the configuration file to the running services: what start-up and a reload do
  as a whole, when the file is well formed and there are no drop-in units.
\<close>

subsection \<open>Operations below the supervisor\<close>

text \<open>What only talks to the kernel and the log leaves every field above them alone.\<close>

lemma more_log [simp]: "kernel.more (log_at os l x s) = kernel.more s"
  by (simp add: log_at_def)

lemma more_hostname [simp]: "kernel.more (apply_hostname os f h s) = kernel.more s"
  by (simp add: apply_hostname_def sethostname_def emit_def Let_def split: option.split)

lemma more_or_log [simp]: "kernel.more (or_log os l x r) = kernel.more (snd r)"
  by (cases r; cases "fst r") (simp_all add: or_log_def log_at_def)

lemma more_signal_call: "kernel.more (snd (signal_call os c s)) = kernel.more s"
  by (simp add: signal_call_def process_setup_def emit_def Let_def)

lemma more_sigactions: "kernel.more (snd (sigactions os sigs s)) = kernel.more s"
proof (induction sigs arbitrary: s)
  case (Cons sig sigs)
  obtain r u where r: "signal_call os (Sigaction sig) s = (r, u)" by fastforce
  then have "kernel.more u = kernel.more s" using more_signal_call [of os "Sigaction sig" s] by simp
  then show ?case using Cons.IH r by (cases r) simp_all
qed simp

lemma more_signals [simp]:
  "kernel.more (snd (install_handlers os s)) = kernel.more s"
  "kernel.more (snd (block_handled os s)) = kernel.more s"
  "kernel.more (snd (unblock_handled os s)) = kernel.more s"
  unfolding install_handlers_def block_handled_def unblock_handled_def
  by (rule more_sigactions more_signal_call)+

lemma more_subreaper [simp]: "kernel.more (become_subreaper os s) = kernel.more s"
  by (simp add: become_subreaper_def process_setup_def emit_def Let_def split: option.split)

lemma more_available [simp]: "kernel.more (snd (cgroups_available os s)) = kernel.more s"
  by (simp add: cgroups_available_def fs_def emit_def Let_def)

lemma more_logging_init [simp]: "kernel.more (logging_init os s) = kernel.more s"
  by (simp add: logging_init_def fs_def now_def emit_def Let_def)

lemma more_level [simp]: "kernel.more (set_log_level l s) = kernel.more s"
  by (simp add: set_log_level_def)

lemma same_kernel_more:
  fixes a b :: machine
  assumes "kernel.more a = kernel.more b"
  shows "services a = services b" "m_cfg a = m_cfg b" "m_target a = m_target b" "m_ipc a = m_ipc b"
    "m_watch a = m_watch b" "ready_st a = ready_st b" "m_timer_defs a = m_timer_defs b" "m_timers a = m_timers b"
    "m_apps a = m_apps b"
  using assms by (cases a, cases b, simp)+

lemma same_more:
  fixes a b :: machine
  assumes "supervisor.more a = supervisor.more b"
  shows "m_cfg a = m_cfg b" "m_target a = m_target b" "m_timer_defs a = m_timer_defs b" "m_watch a = m_watch b"
    "m_timers a = m_timers b" "m_apps a = m_apps b" "m_ipc a = m_ipc b"
  using assms by (cases a, cases b, simp)+

text \<open>What the supervisor does leaves every field above it alone.\<close>

interpretation above: ops_closed "\<lambda>m. distinct (keys (services m)) \<and> supervisor.more m = x" "\<lambda>n p sv. True" 0 os False
  for x os
  by unfold_locales (auto simp: set_log_level_def emit_def log_at_def remove_service_def insert_service_def
      distinct_keys_delete distinct_keys_update)

lemma reload_more:
  fixes m :: machine
  assumes "distinct (keys (services m))"
  shows "supervisor.more (snd (reload_services os new m)) = supervisor.more m"
  using above.I_reload [where m = m and x = "supervisor.more m" and os = os and new = new] assms by simp

subsection \<open>The files on disk\<close>

text \<open>
  The text of \<open>init.conf\<close>, the drop-in units and the timers, each file printed, in the order in which
  the loader sorts them.
\<close>

definition drop_in_path :: "string \<Rightarrow> string \<Rightarrow> string" where
  "drop_in_path ext who = path_join SERVICES_DIR (who @ ''.'' @ ext)"

definition drop_in_name :: "string \<Rightarrow> bool" where
  "drop_in_name who \<longleftrightarrow> who \<noteq> [] \<and> CHR ''/'' \<notin> set who"

definition printed_unit :: "os \<Rightarrow> service_def \<Rightarrow> bool" where
  "printed_unit os d \<longleftrightarrow>
     printable d \<and> sd_path d \<noteq> [] \<and> drop_in_name (sd_name d) \<and>
     (\<forall>n. os_read os n (drop_in_path ''service'' (sd_name d)) = Inr (show_unit d))"

definition printed_timer :: "os \<Rightarrow> timer_def \<Rightarrow> bool" where
  "printed_timer os t \<longleftrightarrow>
     (td_on_boot t \<noteq> None \<or> td_on_active t \<noteq> None) \<and> whole_secs (td_on_boot t) \<and> whole_secs (td_on_active t) \<and>
     drop_in_name (td_name t) \<and>
     (\<forall>n. os_read os n (drop_in_path ''timer'' (td_name t)) = Inr (section_text ''Timer'' (timer_fields t)))"

definition drop_ins :: "os \<Rightarrow> service_def list \<Rightarrow> timer_def list \<Rightarrow> bool" where
  "drop_ins os us tds \<longleftrightarrow>
     (\<exists>names. (\<forall>n. os_read_dir os n SERVICES_DIR = Some names) \<and>
        unit_paths ''service'' names = map (\<lambda>d. drop_in_path ''service'' (sd_name d)) us \<and>
        unit_paths ''timer'' names = map (\<lambda>t. drop_in_path ''timer'' (td_name t)) tds) \<and>
     (\<forall>d \<in> set us. printed_unit os d) \<and> (\<forall>t \<in> set tds. printed_timer os t)"

definition configured :: "os \<Rightarrow> string \<Rightarrow> config \<Rightarrow> service_def list \<Rightarrow> timer_def list \<Rightarrow> bool" where
  "configured os host cfg us tds \<longleftrightarrow>
     printable_config host cfg \<and> (\<forall>n. os_read os n CONFIG_PATH = Inr (show_config host cfg)) \<and> drop_ins os us tds"

text \<open>What \<open>load_or_default\<close> makes of \<open>init.conf\<close>, whatever it holds and whether or not it can be read.\<close>

definition main_file :: "os \<Rightarrow> config \<Rightarrow> bool" where
  "main_file os cfg \<longleftrightarrow>
     (\<forall>n. cfg = (case os_read os n CONFIG_PATH of Inl e \<Rightarrow> config_default | Inr text \<Rightarrow> fst (config_parse text)))"

lemma configured_files:
  assumes "configured os host cfg us tds"
  shows "main_file os cfg" "drop_ins os us tds"
proof -
  have "config_parse (show_config host cfg) = (cfg, [])"
    using assms by (intro config_parse_show) (simp add: configured_def)
  with assms show "main_file os cfg" "drop_ins os us tds" by (simp_all add: configured_def main_file_def)
qed

lemma load_or_default_main_file: "main_file os cfg \<Longrightarrow> load_or_default os CONFIG_PATH s = (cfg, s\<lparr>ev := Suc (ev s)\<rparr>)"
  unfolding main_file_def load_or_default_def read_to_string_def Let_def
  by (drule spec [of _ "ev s"]) (simp split: sum.split)

text \<open>The configuration those files describe: the first definition of each name.\<close>

definition with_units :: "config \<Rightarrow> service_def list \<Rightarrow> config" where
  "with_units cfg us = cfg\<lparr>cfg_services := cfg_services cfg @ first_named (sd_name ` set (cfg_services cfg)) us\<rparr>"

lemma with_units_simps [simp]:
  "cfg_default_target (with_units cfg us) = cfg_default_target cfg" "with_units cfg [] = cfg"
  by (simp_all add: with_units_def)

lemma with_units_distinct:
  "distinct (map sd_name (cfg_services cfg)) \<Longrightarrow> distinct (map sd_name (cfg_services (with_units cfg us)))"
  using first_named_distinct [of "sd_name ` set (cfg_services cfg)" us] by (auto simp: with_units_def)

lemma drop_in_stem:
  assumes "drop_in_name who" "ext \<noteq> []" "CHR ''/'' \<notin> set ext" "CHR ''.'' \<notin> set ext"
  shows "file_stem (drop_in_path ext who) = Some who"
proof -
  let ?f = "who @ ''.'' @ ext"
  have path: "drop_in_path ext who = SERVICES_DIR @ CHR ''/'' # ?f"
    using assms(1) by (cases who) (auto simp: drop_in_path_def path_join_def drop_in_name_def starts_with_def SERVICES_DIR_def)
  have "file_name (drop_in_path ext who) = ?f"
    unfolding path file_name_def using assms by (intro last_split_on) (auto simp: drop_in_name_def)
  moreover have "split_once CHR ''.'' (rev ?f) = Some (rev ext, rev who)"
    using split_once_append [of "CHR ''.''" "rev ext" "rev who"] assms(4) by simp
  moreover have "?f \<noteq> ''..''" if "who \<noteq> []" using that assms(2) by (cases who; cases "tl who"; cases ext) auto
  ultimately show ?thesis
    using assms(1) by (simp add: file_stem_def rsplit_dot_def drop_in_name_def Let_def)
qed

lemma load_units_printed:
  "\<forall>d \<in> set us. printed_unit os d \<Longrightarrow>
   load_units os (map (\<lambda>d. drop_in_path ''service'' (sd_name d)) us) s = (us, s\<lparr>ev := ev s + length us\<rparr>)"
proof (induction us arbitrary: s)
  case (Cons d us)
  then have "parse_unit (drop_in_path ''service'' (sd_name d)) (show_unit d) = (Inr d, [])"
    by (intro parse_unit_show drop_in_stem) (auto simp: printed_unit_def)
  with Cons show ?case by (simp add: read_to_string_def printed_unit_def)
qed simp

lemma load_timers_printed:
  "\<forall>t \<in> set tds. printed_timer os t \<Longrightarrow>
   load_timers os (map (\<lambda>t. drop_in_path ''timer'' (td_name t)) tds) s = (tds, s\<lparr>ev := ev s + length tds\<rparr>)"
proof (induction tds arbitrary: s)
  case (Cons t tds)
  then have "parse_timer (drop_in_path ''timer'' (td_name t)) (section_text ''Timer'' (timer_fields t)) = Inr t"
    by (intro parse_timer_show drop_in_stem) (auto simp: printed_timer_def)
  with Cons show ?case by (simp add: read_to_string_def printed_timer_def)
qed simp

lemma load_config_files:
  assumes "main_file os cfg" and "drop_ins os us tds"
  shows "load_config os s = (with_units cfg us, s\<lparr>ev := Suc (Suc (ev s)) + length us\<rparr>)"
proof -
  obtain names where "\<forall>n. os_read_dir os n SERVICES_DIR = Some names"
    "unit_paths ''service'' names = map (\<lambda>d. drop_in_path ''service'' (sd_name d)) us"
    using assms(2) by (auto simp: drop_ins_def)
  then show ?thesis
    using assms(2)
    by (simp add: load_config_def load_or_default_main_file [OF assms(1)] drop_ins_def units_load_all_def
        read_dir_def Let_def load_units_printed merge_services_spec with_units_def)
qed

lemma timers_load_files:
  assumes "drop_ins os us tds"
  shows "timers_load_all os s = (tds, s\<lparr>ev := Suc (ev s) + length tds\<rparr>)"
proof -
  obtain names where "\<forall>n. os_read_dir os n SERVICES_DIR = Some names"
    "unit_paths ''timer'' names = map (\<lambda>t. drop_in_path ''timer'' (td_name t)) tds"
    using assms by (auto simp: drop_ins_def)
  then show ?thesis
    using assms by (simp add: timers_load_all_def read_dir_def drop_ins_def Let_def load_timers_printed)
qed

lemma hostname_ev: "ev s \<le> ev (apply_hostname os f h s)"
  by (simp add: apply_hostname_def sethostname_def emit_def frame Let_def split: option.split)

subsection \<open>Start-up\<close>

lemma spawn_all_exact:
  fixes s :: "'a supervisor_scheme"
  assumes "spawns_succeed os" "pids_unique os" "services s = []" "distinct (map sd_name defs)"
    and "acyclic (dep_rel (effective_after defs))"
  shows "set (running_names (spawn_all os defs s)) = sd_name ` set defs"
  by (rule spawn_all_runs [OF assms(1-4) acyclic_no_rest [OF assms(5)]])

lemma spawn_all_more:
  fixes m :: machine
  assumes "distinct (keys (services m))"
  shows "supervisor.more (spawn_all os defs m) = supervisor.more m"
  using above.I_spawn_boot [where m = m and x = "supervisor.more m" and os = os and defs = defs] assms by simp

text \<open>Start-up, cut before and after \<open>spawn_all\<close>.\<close>

lemma startup_begin_configured:
  fixes os :: os and t :: instant
  assumes conf: "main_file os cfg" "drop_ins os us tds"
  defines "m \<equiv> startup_begin os (machine_init t)"
  shows "services m = []" "m_cfg m = with_units cfg us" "m_target m = cfg_default_target cfg" "m_watch m = None"
proof -
  let ?m0 = "machine_init t"
  let ?cfg = "with_units cfg us"
  let ?m1 = "become_subreaper os (log_at os Info ''mitos-services starting'' (logging_init os ?m0))"
  obtain avail m2 where m2: "cgroups_available os ?m1 = (avail, m2)" by fastforce
  then have "kernel.more m2 = kernel.more ?m0" using more_available [of os ?m1] by simp
  then obtain m3 where m3: "kernel.more m3 = kernel.more ?m0"
    "m3 = (if avail then m2
       else log_at os Warn (''cgroup delegation from mitos-init unavailable - falling back ''
              @ ''to plain pid-based supervision only'') m2)" by simp
  obtain m4 where m4: "load_config os m3 = (?cfg, m4)" "kernel.more m4 = kernel.more ?m0"
    using m3(1) by (simp add: load_config_files [OF conf])
  let ?m5 = "or_log os Warn ''failed to block signals ahead of worker threads: '' (block_handled os
    (or_log os Error ''failed to install signal handlers: '' (install_handlers os
      (apply_hostname os (\<lambda>h. ''failed to set hostname to '' @ quote h @ '': '') (cfg_hostname ?cfg)
        (set_log_level (cfg_loglevel ?cfg) m4)))))"
  have "kernel.more ?m5 = kernel.more ?m0" by (simp only: more_or_log more_signals more_hostname more_level m4(2))
  from same_kernel_more [OF this] obtain m5 where m5: "m5 = ?m5" "services m5 = []" "m_watch m5 = None"
    by (simp add: machine_init_def)
  have m: "m = m5\<lparr>m_cfg := ?cfg, m_target := cfg_default_target ?cfg, m_thread := Created\<rparr>"
    unfolding m_def startup_begin_def Let_def m2 prod.case m3(2) [symmetric] m4(1) m5(1) [symmetric] by simp
  show "services m = []" "m_cfg m = ?cfg" "m_target m = cfg_default_target cfg" "m_watch m = None"
    using m5 by (simp_all add: m)
qed

lemma startup_split:
  assumes conf: "main_file os cfg" "drop_ins os us tds"
  obtains m where "services m = []" "m_cfg m = with_units cfg us" "m_target m = cfg_default_target cfg"
    "m_timer_defs m = tds" "m_watch m = None"
    "last_targets (m_ipc m) = (cfg_default_target cfg, targets_list (cfg_services (with_units cfg us)))"
    "startup os (machine_init t) = (or_log os Error ''failed to unblock signals: ''
       (unblock_handled os (spawn_all os (services_in (cfg_services (with_units cfg us)) (cfg_default_target cfg)) m)))
         \<lparr>m_booted := True\<rparr>"
proof -
  obtain b where b: "b = startup_begin os (machine_init t)" by blast
  note f = startup_begin_configured [OF conf, of t, folded b]
  let ?m6 = "set_ipc (publish_targets (m_target b) (targets_list (cfg_services (m_cfg b)))) b"
  let ?m7 = "?m6\<lparr>ev := Suc (ev ?m6) + length tds, m_timer_defs := tds\<rparr>"
  show thesis
    by (rule that [of ?m7])
      (use f in \<open>simp_all add: startup_def startup_services_def b [symmetric] Let_def
        timers_load_files [OF conf(2)] set_ipc_def publish_targets_def\<close>)
qed

subsection \<open>Reload\<close>

lemma more_rollback_begin:
  fixes m :: machine
  assumes "distinct (keys (services m))" and "rollback_begin os new_cfg previous target m = (w, u)"
  shows "supervisor.more u = supervisor.more m"
  using above.I_begin [where m = m and x = "supervisor.more m" and os = os and c = new_cfg and p = previous and t = target] assms by simp

text \<open>A reload, cut around \<open>rollback::begin\<close>.\<close>

lemma phase_reload_split:
  fixes cfg :: config and us :: "service_def list"
  assumes conf: "main_file os cfg" "drop_ins os us tds" and req: "reload_requested (sig_flags (m_ipc m))"
  defines "new \<equiv> with_units cfg us"
  obtains m1 w m2 where "services m1 = services m" "ev m \<le> ev m1" "m_target m1 = m_target m" "m_timer_defs m1 = tds"
    "rollback_begin os new (m_cfg m) (m_target m) m1 = (w, m2)"
    "m_ipc m1 = set_flag (reload_requested_update (\<lambda>_. False)) (m_ipc m)" "m_timers m1 = m_timers m" "m_apps m1 = m_apps m"
    "phase_reload os m =
       set_ipc (publish_targets (m_target m2) (targets_list (cfg_services new))) (m2\<lparr>m_watch := Some w, m_cfg := new\<rparr>)"
proof -
  let ?a = "set_ipc (set_flag (reload_requested_update (\<lambda>_. False))) m"
  let ?b = "log_at os Info ''reloading config'' ?a"
  obtain c where c: "load_config os ?b = (new, c)" "kernel.more c = kernel.more ?a" "ev c = Suc (Suc (ev m)) + length us"
    by (simp add: load_config_files [OF conf] new_def frame set_ipc_def)
  let ?d = "apply_hostname os (\<lambda>h. ''failed to apply reloaded hostname: '') (cfg_hostname new)
    (set_log_level (cfg_loglevel new) c)"
  have "kernel.more ?d = kernel.more ?a" by (simp only: more_hostname more_level c(2))
  note d = same_kernel_more [OF this]
  have ev: "ev m \<le> ev ?d"
    by (rule order_trans [OF _ hostname_ev]) (simp add: c(3) set_log_level_def)
  obtain e where e: "e = ?d" by blast
  let ?m1 = "e\<lparr>ev := Suc (ev e) + length tds, m_timer_defs := tds\<rparr>"
  obtain w m2 where w: "rollback_begin os new (m_cfg m) (m_target m) ?m1 = (w, m2)" by fastforce
  show thesis
  proof (rule that [of ?m1 w m2])
    have f: "m_cfg ?m1 = m_cfg m" "m_target ?m1 = m_target m" using d unfolding e [symmetric] by (simp_all add: set_ipc_def)
    show "phase_reload os m =
       set_ipc (publish_targets (m_target m2) (targets_list (cfg_services new))) (m2\<lparr>m_watch := Some w, m_cfg := new\<rparr>)"
      unfolding phase_reload_def Let_def c(1) prod.case e [symmetric] timers_load_files [OF conf(2)] f w
      using req by simp
    show "rollback_begin os new (m_cfg m) (m_target m) ?m1 = (w, m2)" by (rule w)
  qed (use d ev in \<open>simp_all add: e [symmetric] set_ipc_def\<close>)
qed

text \<open>The effect of a reload from given files, when no spawn fails and no pid is reused.\<close>

lemma phase_reload_effect:
  fixes os :: os and cfg :: config and us :: "service_def list" and m :: machine
  assumes conf: "main_file os cfg" "drop_ins os us tds" and req: "reload_requested (sig_flags (m_ipc m))"
    and ok: "spawns_succeed os" "pids_unique os"
    and d: "distinct (keys (services m))" "distinct (map sd_name (cfg_services cfg))"
    and fr: "fresh_from os (ev m) (set (keys (services m)))"
  defines "m' \<equiv> phase_reload os m" and "full \<equiv> with_units cfg us"
    and "wanted \<equiv> services_in (cfg_services (with_units cfg us)) (m_target m)"
  shows "m_cfg m' = full" "m_target m' = m_target m" "m_timer_defs m' = tds" "m_timers m' = m_timers m"
    "m_apps m' = m_apps m" "\<not> reload_requested (sig_flags (m_ipc m'))"
    "set (running_names m') = sd_name ` set wanted"
    "\<forall>d \<in> set wanted. \<exists>e \<in> set (services m'). sd_name (sv_def (snd e)) = sd_name d \<and> defs_equal (sv_def (snd e)) d"
    "\<exists>w. m_watch m' = Some w \<and> w_previous w = m_cfg m \<and> w_target w = m_target m \<and>
       w_touched w = map sd_name (filter (\<lambda>d. \<not> up_to_date (services m) d) wanted)"
    "once_each (services m) \<Longrightarrow> once_each (services m')" "distinct (keys (services m'))"
proof -
  obtain m1 w m2 where m1: "services m1 = services m" "ev m \<le> ev m1" "m_target m1 = m_target m" "m_timer_defs m1 = tds"
    "m_ipc m1 = set_flag (reload_requested_update (\<lambda>_. False)) (m_ipc m)" "m_timers m1 = m_timers m" "m_apps m1 = m_apps m"
    and b: "rollback_begin os full (m_cfg m) (m_target m) m1 = (w, m2)"
    and m': "m' = set_ipc (publish_targets (m_target m2) (targets_list (cfg_services full))) (m2\<lparr>m_watch := Some w, m_cfg := full\<rparr>)"
    unfolding m'_def full_def by (rule phase_reload_split [OF conf req])
  note w = rollback_begin_watch [OF b [unfolded full_def], folded wanted_def]
  have d1: "distinct (keys (services m1))" "distinct (map sd_name wanted)"
    using d with_units_distinct [of cfg us] m1(1) by (simp_all add: wanted_def services_in_def distinct_map_filter)
  have fr1: "fresh_from os (ev m1) (set (keys (services m1)))" using fr m1(1,2) by (simp add: fresh_from_mono)
  note more = same_more [OF more_rollback_begin [OF d1(1) b]]
  show "m_cfg m' = full" "m_target m' = m_target m" "m_timer_defs m' = tds" "m_timers m' = m_timers m"
    "m_apps m' = m_apps m" "\<not> reload_requested (sig_flags (m_ipc m'))"
    using more m1 by (simp_all add: m' set_ipc_def publish_targets_def set_flag_def)
  show "set (running_names m') = sd_name ` set wanted"
    "\<forall>d \<in> set wanted. \<exists>e \<in> set (services m'). sd_name (sv_def (snd e)) = sd_name d \<and> defs_equal (sv_def (snd e)) d"
    using reload_converges [OF ok d1 fr1] w(4) by (simp_all add: m' set_ipc_def running_names_def)
  show "\<exists>w. m_watch m' = Some w \<and> w_previous w = m_cfg m \<and> w_target w = m_target m \<and>
      w_touched w = map sd_name (filter (\<lambda>d. \<not> up_to_date (services m) d) wanted)"
    using w(1-3) reload_touched [OF d1 disjI2 [OF ok(1)] fr1] m1(1) by (simp add: m' set_ipc_def)
  show "once_each (services m')" if "once_each (services m)"
    using reload_idempotent(1) [OF ok d1 fr1] that w(4) m1(1) by (simp add: m' set_ipc_def)
  show "distinct (keys (services m'))"
    using above.I_begin [where m = m1 and x = "supervisor.more m1" and os = os and c = full and p = "m_cfg m" and t = "m_target m"]
      d1(1) b by (simp add: m' set_ipc_def)
qed

text \<open>A reload that finds every wanted service up to date, and no other running, touches nothing.\<close>

lemma phase_reload_noop:
  fixes os :: os and cfg :: config and us :: "service_def list" and m :: machine
  assumes conf: "main_file os cfg" "drop_ins os us tds" and req: "reload_requested (sig_flags (m_ipc m))"
    and d: "distinct (keys (services m))"
  defines "m' \<equiv> phase_reload os m" and "wanted \<equiv> services_in (cfg_services (with_units cfg us)) (m_target m)"
  assumes now: "set (running_names m) \<subseteq> sd_name ` set wanted" "\<forall>d \<in> set wanted. up_to_date (services m) d"
  shows "services m' = services m" "m_cfg m' = with_units cfg us" "m_timers m' = m_timers m" "m_apps m' = m_apps m"
    "\<exists>w. m_watch m' = Some w \<and> w_touched w = [] \<and> w_previous w = m_cfg m"
proof -
  obtain m1 w m2 where m1: "services m1 = services m" "m_timers m1 = m_timers m" "m_apps m1 = m_apps m"
    and b: "rollback_begin os (with_units cfg us) (m_cfg m) (m_target m) m1 = (w, m2)"
    and m': "m' = set_ipc (publish_targets (m_target m2) (targets_list (cfg_services (with_units cfg us))))
      (m2\<lparr>m_watch := Some w, m_cfg := with_units cfg us\<rparr>)"
    unfolding m'_def by (rule phase_reload_split [OF conf req])
  note w = rollback_begin_watch [OF b, folded wanted_def]
  have "reload_services os wanted m1 = ([], m1)"
    by (rule reload_noop) (use now m1(1) in \<open>simp_all add: running_names_def\<close>)
  moreover have "distinct (keys (services m1))" using d m1(1) by simp
  note more = same_more [OF more_rollback_begin [OF this b]]
  ultimately show "services m' = services m" "m_cfg m' = with_units cfg us" "m_timers m' = m_timers m"
    "m_apps m' = m_apps m" "\<exists>w. m_watch m' = Some w \<and> w_touched w = [] \<and> w_previous w = m_cfg m"
    using w more m1 by (simp_all add: m' set_ipc_def)
qed

end
