(* ===== verification/Ownership.thy ===== *)
theory Ownership
  imports System
begin

text \<open>
  Who owns a child process: the service table, the pending runs of the timers, the registry of apps,
  or the listener thread between the spawn of an app and its registration. When the system never hands
  out a pid twice, no process has two owners in any reachable state, so the order in which the event
  loop offers an exit to the owners does not matter.
\<close>

subsection \<open>Pids by the interaction that created them\<close>

definition issued :: "os \<Rightarrow> nat \<Rightarrow> nat \<Rightarrow> pid set" where
  "issued os a b = {p. \<exists>k c. a \<le> k \<and> k < b \<and> os_spawn os k c = Inr p}"

lemma issued_mono: "a' \<le> a \<Longrightarrow> b \<le> b' \<Longrightarrow> issued os a b \<subseteq> issued os a' b'"
  unfolding issued_def by (blast intro: order_trans less_le_trans)

lemma issued_fresh:
  assumes "pids_unique os" shows "issued os a n \<inter> issued os n b = {}"
  using assms unfolding pids_unique_def issued_def by (blast dest: less_le_trans)

lemma issuedI: "a \<le> k \<Longrightarrow> k < b \<Longrightarrow> os_spawn os k c = Inr p \<Longrightarrow> p \<in> issued os a b"
  by (auto simp: issued_def)

subsection \<open>Owners\<close>

datatype owner = Service_table | Timer_runs | App_registry | Launching

fun owned :: "owner \<Rightarrow> machine \<Rightarrow> pid set" where
  "owned Service_table m = set (keys (services m))"
| "owned Timer_runs m = timer_pids (m_timers m)"
| "owned App_registry m = app_pids (m_apps m)"
| "owned Launching m = (case m_thread m of App_started info \<Rightarrow> {ai_pid info} | _ \<Rightarrow> {})"

definition exclusive :: "os \<Rightarrow> machine \<Rightarrow> bool" where
  "exclusive os m \<longleftrightarrow>
     distinct (keys (services m)) \<and>
     (\<forall>i j. i \<noteq> j \<longrightarrow> owned i m \<inter> owned j m = {}) \<and> (\<forall>i. owned i m \<subseteq> issued os 0 (ev m))"

lemma exclusive_step:
  assumes uniq: "pids_unique os" and m: "exclusive os m" and d: "distinct (keys (services m'))"
    and ev: "ev m \<le> ev m'" and i: "owned i m' \<subseteq> owned i m \<union> issued os (ev m) (ev m')"
    and rest: "\<And>j. j \<noteq> i \<Longrightarrow> owned j m' \<subseteq> owned j m"
  shows "exclusive os m'"
proof -
  have old: "owned j m \<subseteq> issued os 0 (ev m)" for j using m by (simp add: exclusive_def)
  have dis: "j \<noteq> k \<Longrightarrow> owned j m \<inter> owned k m = {}" for j k using m by (simp add: exclusive_def)
  have new: "owned j m \<inter> issued os (ev m) (ev m') = {}" for j
    using old [of j] issued_fresh [OF uniq, of 0 "ev m" "ev m'"] by blast
  have "issued os 0 (ev m) \<subseteq> issued os 0 (ev m')" "issued os (ev m) (ev m') \<subseteq> issued os 0 (ev m')"
    using ev by (simp_all add: issued_mono)
  with old i rest have sub: "owned j m' \<subseteq> issued os 0 (ev m')" for j
    by (cases "j = i") blast+
  have "owned j m' \<inter> owned k m' = {}" if "j \<noteq> k" for j k
  proof (cases "j = i")
    case True
    with that have "k \<noteq> i" by simp
    from rest [OF this] i True dis [OF that] new [of k] show ?thesis by blast
  next
    case False
    show ?thesis
    proof (cases "k = i")
      case True
      from rest [OF False] i True dis [OF that] new [of j] show ?thesis by blast
    next
      case kk: False
      from rest [OF False] rest [OF kk] dis [OF that] show ?thesis by blast
    qed
  qed
  with d sub show ?thesis by (simp add: exclusive_def)
qed

text \<open>One owner hands what it has to another.\<close>

lemma exclusive_move:
  assumes m: "exclusive os m" and d: "distinct (keys (services m'))" and ev: "ev m \<le> ev m'" and ij: "i \<noteq> j"
    and i: "owned i m' \<subseteq> owned i m \<union> owned j m" and j: "owned j m' = {}"
    and rest: "\<And>k. k \<noteq> i \<Longrightarrow> k \<noteq> j \<Longrightarrow> owned k m' \<subseteq> owned k m"
  shows "exclusive os m'"
proof -
  have old: "owned k m \<subseteq> issued os 0 (ev m)" for k using m by (simp add: exclusive_def)
  have dis: "k \<noteq> l \<Longrightarrow> owned k m \<inter> owned l m = {}" for k l using m by (simp add: exclusive_def)
  have mono: "issued os 0 (ev m) \<subseteq> issued os 0 (ev m')" using ev by (simp add: issued_mono)
  have sub: "owned k m' \<subseteq> issued os 0 (ev m')" for k
    using i j rest [of k] old [of k] old [of i] old [of j] mono by (cases "k = i"; cases "k = j") blast+
  have one: "owned i m' \<inter> owned l m' = {}" if "l \<noteq> i" for l
  proof (cases "l = j")
    case False
    with i rest [OF that False] dis [of i l] dis [of j l] that show ?thesis by blast
  qed (simp add: j)
  have "owned k m' \<inter> owned l m' = {}" if kl: "k \<noteq> l" for k l
  proof (cases "k = i \<or> l = i \<or> k = j \<or> l = j")
    case True
    with kl one [of l] one [of k] j show ?thesis by blast
  next
    case False
    with rest [of k] rest [of l] dis [OF kl] show ?thesis by blast
  qed
  with d sub show ?thesis by (simp add: exclusive_def)
qed

subsection \<open>The main thread\<close>

text \<open>The table may grow by new pids; what the other owners have stays.\<close>

definition main_step :: "os \<Rightarrow> machine \<Rightarrow> machine \<Rightarrow> bool" where
  "main_step os m m' \<longleftrightarrow>
     distinct (keys (services m')) \<and> ev m \<le> ev m' \<and>
     set (keys (services m')) \<subseteq> set (keys (services m)) \<union> issued os (ev m) (ev m') \<and>
     m_timers m' = m_timers m \<and> m_apps m' = m_apps m \<and> m_thread m' = m_thread m"

lemma main_step_refl: "distinct (keys (services m)) \<Longrightarrow> main_step os m m"
  by (simp add: main_step_def)

interpretation ms: main_closed "main_step os m" "\<lambda>n p sv. ev m \<le> n \<and> (\<exists>c. os_spawn os n c = Inr p)" "ev m" os False
  for os m
proof (unfold_locales, goal_cases)
  case (1 s c n)
  then show ?case using issued_mono [of "ev m" "ev m" "ev s" n os] by (auto simp: main_step_def)
next
  case (3 s e)
  then show ?case using issued_mono [of "ev m" "ev m" "ev s" "Suc (ev s)" os] by (auto simp: main_step_def emit_def)
next
  case (8 s n p sv)
  then show ?case
    by (auto simp: main_step_def insert_service_def distinct_keys_update dom_update intro: issuedI)
qed (auto simp: main_step_def log_at_def log_open_def remove_service_def set_log_level_def AList.delete_keys distinct_removeAll)

lemma exclusive_main:
  assumes "pids_unique os" "exclusive os m" "main_step os m m'"
  shows "exclusive os m'"
proof (rule exclusive_step [OF assms(1,2), where i = Service_table])
  fix j
  assume "j \<noteq> Service_table"
  with assms(3) show "owned j m' \<subseteq> owned j m" by (cases j) (auto simp: main_step_def)
qed (use assms(3) in \<open>auto simp: main_step_def\<close>)

subsection \<open>Timers\<close>

lemma fire_all_pids:
  "fire_all os defs ns ts s = (ts', s') \<Longrightarrow>
   ev s \<le> ev s' \<and> timer_pids ts' \<subseteq> timer_pids ts \<union> issued os (ev s) (ev s')"
proof (induction ns arbitrary: ts s)
  case Nil
  then show ?case by simp
next
  case (Cons who names)
  show ?case
  proof (cases "List.find (\<lambda>d. sd_name d = who) defs")
    case None
    let ?t = "log_at os Warn (''timer '' @ quote who @ '': no matching service definition, skipping'') s"
    have "fire_all os defs names ts ?t = (ts', s')" using Cons.prems None by simp
    from Cons.IH [OF this] show ?thesis by (simp add: frame)
  next
    case (Some d)
    obtain r s1 where sp: "spawn_oneshot os d s = (r, s1)" by fastforce
    obtain n c where n: "ev s \<le> n" "n < ev s1" "r = os_spawn os n c"
      using spawn_oneshot_spec [OF sp] by blast
    have mono: "issued os (ev s1) (ev s') \<subseteq> issued os (ev s) (ev s')" using n by (simp add: issued_mono)
    show ?thesis
    proof (cases r)
      case (Inl e)
      let ?t = "log_at os Error (''timer '' @ quote who @ '': failed to start: '' @ e) s1"
      have "fire_all os defs names ts ?t = (ts', s')" using Cons.prems Some sp Inl by simp
      from Cons.IH [OF this] mono n show ?thesis by (auto simp: frame)
    next
      case (Inr p)
      let ?ts = "ts\<lparr>tm_running := insert who (tm_running ts), tm_pending := AList.update p who (tm_pending ts)\<rparr>"
      let ?t = "log_at os Info (''timer '' @ quote who @ '': started pid '' @ show_int p) s1"
      have "fire_all os defs names ?ts ?t = (ts', s')" using Cons.prems Some sp Inr by simp
      from Cons.IH [OF this] have IH: "ev s1 \<le> ev s'" "timer_pids ts' \<subseteq> insert p (timer_pids ts) \<union> issued os (ev s1) (ev s')"
        by (auto simp: frame timer_pids_def dom_update)
      have "p \<in> issued os (ev s) (ev s')" using n Inr IH(1) by (intro issuedI) auto
      with IH mono n show ?thesis by auto
    qed
  qed
qed

lemma due_names_ev: "due_names os tds ts s = (ns, u) \<Longrightarrow> ev s \<le> ev u"
proof (induction tds arbitrary: s ns)
  case (Cons td tds)
  show ?case
  proof (cases "td_name td \<in> tm_running ts")
    case True
    with Cons show ?thesis by simp
  next
    case False
    obtain t s1 where n: "now os s = (t, s1)" by fastforce
    then have "ev s \<le> ev s1" by (auto simp: now_def Let_def)
    with Cons n False show ?thesis
      by (fastforce simp: Let_def split: option.splits prod.splits)
  qed
qed simp

lemma timers_tick_pids:
  assumes "timers_tick os timers defs ts s = Ret (ts', s')"
  shows "timer_pids ts' \<subseteq> timer_pids ts \<union> issued os (ev s) (ev s')"
proof (cases "timers = []")
  case True
  then show ?thesis using assms by (simp add: timers_tick_def)
next
  case False
  obtain ts1 s1 where st: "timers_state os ts s = (ts1, s1)" by fastforce
  obtain ns s2 where dn: "due_names os timers ts1 s1 = (Some ns, s2)" and fa: "fire_all os defs ns ts1 s2 = (ts', s')"
    using assms False st by (auto simp: timers_tick_def Let_def split: prod.splits option.splits)
  have "ev s \<le> ev s2" using timers_state_ev [of s os ts] st due_names_ev [OF dn] by simp
  moreover have "timer_pids ts1 = timer_pids ts" using timers_state_same(1) [of os ts s] st by (simp add: timer_pids_def)
  ultimately show ?thesis using fire_all_pids [OF fa] issued_mono [of "ev s" "ev s2" "ev s'" "ev s'" os] by blast
qed

text \<open>What is written against the kernel alone leaves the table and every owner as they are.\<close>

lemma more_now [simp]: "kernel.more (snd (now os s)) = kernel.more s"
  by (simp add: now_def Let_def)

lemma more_read [simp]: "kernel.more (snd (read_to_string os path s)) = kernel.more s"
  by (simp add: read_to_string_def)

lemma more_fs [simp]: "kernel.more (snd (fs os op s)) = kernel.more s"
  by (simp add: fs_def emit_def)

lemma more_spawn [simp]: "kernel.more (snd (spawn os c s)) = kernel.more s"
  by (simp add: spawn_def emit_def Let_def)

lemma more_timers_state [simp]: "kernel.more (snd (timers_state os ts s)) = kernel.more s"
  by (simp add: timers_state_def Let_def split_def split: option.split)

lemma more_due_names [simp]: "kernel.more (snd (due_names os tds ts s)) = kernel.more s"
  by (induction tds arbitrary: s) (simp_all add: Let_def split_def split: option.split)

lemma more_resolve [simp]:
  "kernel.more (snd (resolve_opt (resolve_uid os) x s)) = kernel.more s"
  "kernel.more (snd (resolve_opt (resolve_gid os) x s)) = kernel.more s"
  by (auto simp: resolve_opt_def resolve_uid_def resolve_gid_def Let_def split_def split: option.split sum.split)

lemma more_spawn_oneshot [simp]: "kernel.more (snd (spawn_oneshot os d s)) = kernel.more s"
  by (simp add: spawn_oneshot_def Let_def split_def)

lemma more_fire_all [simp]: "kernel.more (snd (fire_all os defs ns ts s)) = kernel.more s"
proof (induction ns arbitrary: ts s)
  case (Cons who ns)
  show ?case
    by (cases "List.find (\<lambda>d. sd_name d = who) defs"; cases "fst (spawn_oneshot os (the (List.find (\<lambda>d. sd_name d = who) defs)) s)")
      (simp_all add: Let_def split_def Cons.IH)
qed simp

lemma more_timers_tick: "timers_tick os tds defs ts s = Ret (ts', s') \<Longrightarrow> kernel.more s' = kernel.more s"
proof -
  assume r: "timers_tick os tds defs ts s = Ret (ts', s')"
  obtain ts1 s1 where 1: "timers_state os ts s = (ts1, s1)" by fastforce
  obtain ns s2 where 2: "due_names os tds ts1 s1 = (ns, s2)" by fastforce
  have "kernel.more s1 = kernel.more s" using more_timers_state [of os ts s] 1 by simp
  moreover have "kernel.more s2 = kernel.more s1" using more_due_names [of os tds ts1 s1] 2 by simp
  moreover have "kernel.more (snd (fire_all os defs n ts1 s2)) = kernel.more s2" for n by simp
  ultimately show ?thesis
    using r 1 2 by (auto simp: timers_tick_def split: if_splits option.splits) (metis more_fire_all snd_conv)
qed

lemma kernel_more_owned:
  fixes a b :: machine
  assumes "kernel.more a = kernel.more b"
  shows "services a = services b" "owned i a = owned i b"
  using assms by (cases a; cases b; cases i; simp)+

lemma exclusive_tick:
  assumes uniq: "pids_unique os" and m: "exclusive os m"
    and t: "timers_tick os tds defs (m_timers m) m = Ret (ts, m1)"
  shows "exclusive os (m1\<lparr>m_timers := ts\<rparr>)"
proof -
  have d: "distinct (keys (services m))" using m by (simp add: exclusive_def)
  have ev: "ev m \<le> ev m1" using ms.I_timers_tick [OF main_step_refl [OF d] t] by (simp add: main_step_def)
  note same = kernel_more_owned [OF more_timers_tick [OF t]]
  show ?thesis
  proof (rule exclusive_step [OF uniq m, where i = Timer_runs])
    fix j
    assume "j \<noteq> Timer_runs"
    then show "owned j (m1\<lparr>m_timers := ts\<rparr>) \<subseteq> owned j m" using same(2) [of j] by (cases j) simp_all
  qed (use d ev same(1) timers_tick_pids [OF t] in simp_all)
qed

subsection \<open>Exits\<close>

lemma more_timers_reap: "kernel.more (snd (snd (timers_reap os p ts s))) = kernel.more s"
  by (simp add: timers_reap_def Let_def split_def split: option.split)

lemma more_apps_reap: "kernel.more (snd (snd (apps_reap os p a s))) = kernel.more s"
  by (simp add: apps_reap_def kill_and_remove_under_def fs_def emit_def Let_def split_def split: option.split)

lemma exclusive_timers_reap:
  assumes uniq: "pids_unique os" and m: "exclusive os m" and r: "timers_reap os p (m_timers m) m = (b, ts, m1)"
  shows "exclusive os (m1\<lparr>m_timers := ts\<rparr>)"
proof -
  have d: "distinct (keys (services m))" using m by (simp add: exclusive_def)
  have ev: "ev m \<le> ev m1"
    using ms.I_timers_reap [OF main_step_refl [OF d], of os p "m_timers m"] r by (simp add: main_step_def)
  have "kernel.more m1 = kernel.more m" using more_timers_reap [of os p "m_timers m" m] r by simp
  note same = kernel_more_owned [OF this]
  show ?thesis
  proof (rule exclusive_step [OF uniq m, where i = Timer_runs])
    fix j
    assume "j \<noteq> Timer_runs"
    then show "owned j (m1\<lparr>m_timers := ts\<rparr>) \<subseteq> owned j m" using same(2) [of j] by (cases j) simp_all
  qed (use d ev same(1) timers_reap_owner(2) [of os p "m_timers m" m] r in auto)
qed

lemma exclusive_apps_reap:
  assumes uniq: "pids_unique os" and m: "exclusive os m" and r: "apps_reap os p (m_apps m) m = (b, a, m1)"
  shows "exclusive os (m1\<lparr>m_apps := a\<rparr>)"
proof -
  have d: "distinct (keys (services m))" using m by (simp add: exclusive_def)
  have ev: "ev m \<le> ev m1"
    using ms.I_apps_reap [OF main_step_refl [OF d], of os p "m_apps m"] r by (simp add: main_step_def)
  have "kernel.more m1 = kernel.more m" using more_apps_reap [of os p "m_apps m" m] r by simp
  note same = kernel_more_owned [OF this]
  show ?thesis
  proof (rule exclusive_step [OF uniq m, where i = App_registry])
    fix j
    assume "j \<noteq> App_registry"
    then show "owned j (m1\<lparr>m_apps := a\<rparr>) \<subseteq> owned j m" using same(2) [of j] by (cases j) simp_all
  next
    show "owned App_registry (m1\<lparr>m_apps := a\<rparr>) \<subseteq> owned App_registry m \<union> issued os (ev m) (ev (m1\<lparr>m_apps := a\<rparr>))"
      using app.gives_up [where p = p and s = "(m_apps m, m)" and os = os] r by auto
  qed (use d ev same(1) in auto)
qed

lemma exclusive_first_refusal:
  assumes uniq: "pids_unique os" and m: "exclusive os m"
  shows "exclusive os (snd (first_refusal os p m))"
proof -
  obtain b ts m1 where t: "timers_reap os p (m_timers m) m = (b, ts, m1)" by (metis prod_cases3)
  have m1: "exclusive os (m1\<lparr>m_timers := ts\<rparr>)" by (rule exclusive_timers_reap [OF uniq m t])
  obtain b2 a m2 where a: "apps_reap os p (m_apps m1) (m1\<lparr>m_timers := ts\<rparr>) = (b2, a, m2)" by (metis prod_cases3)
  have "exclusive os (m2\<lparr>m_apps := a\<rparr>)" using exclusive_apps_reap [OF uniq m1] a by simp
  with m1 t a show ?thesis by (simp add: first_refusal_def Let_def)
qed

text \<open>What the main thread does in one go.\<close>

lemma exclusive_by_main:
  assumes "pids_unique os" "exclusive os m" "main_step os m m \<Longrightarrow> main_step os m m'"
  shows "exclusive os m'"
  using assms by (intro exclusive_main [OF assms(1,2)]) (simp add: exclusive_def main_step_refl)

lemma exclusive_check_watch: "pids_unique os \<Longrightarrow> exclusive os m \<Longrightarrow> exclusive os (check_watch os failed m)"
  by (erule exclusive_by_main, assumption) (rule ms.I_check_watch)

lemma exclusive_dispatch_exit:
  assumes uniq: "pids_unique os" and m: "exclusive os m" and r: "dispatch_exit os grace status m = Some (Loop m')"
  shows "exclusive os m'"
proof -
  obtain handled u where u: "(case exit_summary status of
      None \<Rightarrow> (False, m) | Some (p, summary) \<Rightarrow> first_refusal os p m) = (handled, u)" by fastforce
  have eu: "exclusive os u"
  proof (cases "exit_summary status")
    case None
    then show ?thesis using u m by simp
  next
    case (Some ps)
    then show ?thesis using u exclusive_first_refusal [OF uniq m, of "fst ps"] by (cases ps) simp
  qed
  obtain out v where v: "handle_exit os status u = (out, v)" by fastforce
  have ev: "exclusive os v"
    by (rule exclusive_by_main [OF uniq eu]) (use ms.I_handle [of os u u status] v in simp)
  from r u v eu ev show ?thesis
    by (auto simp: dispatch_exit_def stop_services_not_Loop exclusive_check_watch [OF uniq]
        split: if_splits outcome.splits option.splits)
qed

lemma exclusive_iterate:
  assumes uniq: "pids_unique os" and m: "exclusive os m" and r: "iterate os grace m = Some (Loop m')"
  shows "exclusive os m'"
proof -
  let ?m0 = "set_ipc (set_flag clear_shutdown) m"
  let ?m1 = "phase_status os (phase_isolate os (phase_reload os ?m0))"
  have m1: "exclusive os ?m1"
    by (rule exclusive_by_main [OF uniq m])
      (intro ms.I_phase_status ms.I_phase_isolate ms.I_phase_reload ms.I_set_ipc)
  have run: "\<not> shutdown_requested (sig_flags (m_ipc m))"
    using r by (auto simp: iterate_def stop_services_not_Loop)
  with r obtain ts m2 where t: "timers_tick os (m_timer_defs ?m1) (cfg_services (m_cfg ?m1)) (m_timers ?m1) ?m1 = Ret (ts, m2)"
    by (auto simp: iterate_def Let_def split: run.splits)
  let ?m2 = "m2\<lparr>m_timers := ts\<rparr>"
  have m2: "exclusive os ?m2" by (rule exclusive_tick [OF uniq m1 t])
  obtain res m3 where w: "waitpid os (- 1) (needs_polling ?m2) ?m2 = (res, m3)" by fastforce
  obtain ex m4 where e: "expired_watchdogs os (deliver os m3) = (ex, m4)" by fastforce
  have m4: "exclusive os (kill_expired os ex m4)"
  proof (rule exclusive_by_main [OF uniq m2])
    assume s: "main_step os ?m2 ?m2"
    have "main_step os ?m2 m3" using ms.I_waitpid [OF s, where p = "- 1" and b = "needs_polling ?m2" and os = os] w by simp
    then have "main_step os ?m2 (deliver os m3)" by (rule ms.I_deliver)
    then have "main_step os ?m2 m4"
      using ms.I_now [of os ?m2 "deliver os m3" os] e by (auto simp: expired_watchdogs_def Let_def split: prod.splits)
    then show "main_step os ?m2 (kill_expired os ex m4)" by (rule ms.I_kill_expired)
  qed
  have "dispatch_wait os grace (needs_polling ?m2) res (kill_expired os ex m4) = Some (Loop m')"
    using r run t w e by (simp add: iterate_def Let_def)
  then show ?thesis
    using exclusive_check_watch [OF uniq] exclusive_dispatch_exit [OF uniq m4]
      exclusive_by_main [OF uniq m4 ms.I_sleep_d] exclusive_by_main [OF uniq m4 ms.I_log] m4
      exclusive_by_main [OF uniq m4 ms.I_sleep_d [OF ms.I_log]]
    by (auto simp: dispatch_wait_def split: wait_result.splits if_splits)
qed

subsection \<open>The listener thread\<close>

lemma launch_spawn_issued:
  "launch_spawn os h path args a s = (Inr info, a', s') \<Longrightarrow> ai_pid info \<in> issued os (ev s) (ev s')"
  by (auto simp: launch_spawn_def hash_file_def next_id_def prepare_intermediate_def fs_def emit_def
      read_to_string_def spawn_def authorize_frame Let_def split_def log_at_def
      split: sum.splits option.splits if_splits) (erule issuedI [rotated 2]; simp)+

lemma more_authorize [simp]: "kernel.more (snd (authorize os path r s)) = kernel.more s"
  by (cases r) (simp_all add: authorize_def Let_def)

lemma more_launch_spawn: "kernel.more (snd (snd (launch_spawn os h path args a s))) = kernel.more s"
  by (simp add: launch_spawn_def hash_file_def next_id_def prepare_intermediate_def Let_def split_def
      split: sum.split option.split)

lemma more_launch_register: "kernel.more (snd (snd (launch_register os info a s))) = kernel.more s"
  by (simp add: launch_register_def create_under_def attach_under_def Let_def split_def split: option.split)

lemma exclusive_idle:
  assumes "exclusive os m" "owned Launching m = {}" "owned Launching (m\<lparr>m_thread := h\<rparr>) = {}"
  shows "exclusive os (m\<lparr>m_thread := h\<rparr>)"
proof -
  have "owned i (m\<lparr>m_thread := h\<rparr>) = owned i m" for i using assms(2,3) by (cases i) simp_all
  then show ?thesis using assms(1) by (simp add: exclusive_def)
qed

lemma exclusive_reply:
  assumes "exclusive os m" "owned Launching m = {}" shows "exclusive os (reply body m)"
proof -
  have "owned i (reply body m) = owned i m" for i using assms(2) by (cases i) (simp_all add: reply_def)
  then show ?thesis using assms(1) by (simp add: exclusive_def reply_def)
qed

lemma exclusive_ipc_run:
  assumes uniq: "pids_unique os" and m: "exclusive os m" and th: "m_thread m = Created"
  shows "exclusive os (ipc_run os m)"
proof -
  obtain r u where b: "ipc_bind os m = (r, u)" by fastforce
  have u: "main_step os m u" if s: "main_step os m m"
  proof -
    have "main_step os m (snd (ipc_bind os m))"
      unfolding ipc_bind_def Let_def by (intro ms.I_flow ms.I_log ms.I_fs s)
    with b show ?thesis by simp
  qed
  have 1: "exclusive os u" by (rule exclusive_by_main [OF uniq m u])
  have 2: "exclusive os (log_at os Warn msg u)" for msg by (rule exclusive_by_main [OF uniq 1 ms.I_log])
  have "m_thread u = Created"
    using u [OF main_step_refl] m th by (simp add: exclusive_def main_step_def)
  then show ?thesis
    using b 1 2 by (cases r) (auto simp: ipc_run_def log_at_def intro!: exclusive_idle)
qed

lemma exclusive_accept:
  assumes uniq: "pids_unique os" and m: "exclusive os m" and th: "m_thread m = Idle"
  shows "exclusive os (ipc_accept os h line m)"
proof -
  obtain act i where a: "ipc_request line (m_ipc m) = (act, i)" by fastforce
  let ?m = "m\<lparr>m_ipc := i\<rparr>"
  have m1: "exclusive os ?m" by (rule exclusive_by_main [OF uniq m ms.I_cell(1)])
  have th1: "owned Launching ?m = {}" using th by simp
  show ?thesis
  proof (cases act)
    case (Launch_app path args)
    obtain r b m2 where l: "launch_spawn os h path args (m_apps m) ?m = (r, b, m2)" by (metis prod_cases3)
    have d: "distinct (keys (services ?m))" using m1 by (simp add: exclusive_def)
    have ev: "ev ?m \<le> ev m2"
      using ms.I_launch_spawn [OF main_step_refl [OF d], of os h path args "m_apps m"] l by (simp add: main_step_def)
    have pids: "app_pids b = app_pids (m_apps m)"
      using launch_spawn_by_pid [of os h path args "m_apps m" ?m] l by (simp add: app_pids_def)
    have "kernel.more m2 = kernel.more ?m" using more_launch_spawn [of os h path args "m_apps m" ?m] l by simp
    note same = kernel_more_owned [OF this]
    have same_apps: "owned j (m2\<lparr>m_apps := b\<rparr>) = owned j ?m" for j
      using same(2) [of j] pids by (cases j) simp_all
    have 2: "exclusive os (m2\<lparr>m_apps := b\<rparr>)"
      by (rule exclusive_step [OF uniq m1]) (use d ev same(1) same_apps in auto)
    show ?thesis
    proof (cases r)
      case (Inl e)
      have "owned Launching (m2\<lparr>m_apps := b\<rparr>) = {}" using same_apps [of Launching] th1 by simp
      with 2 show ?thesis using a l Launch_app Inl by (simp add: ipc_accept_def Let_def exclusive_reply)
    next
      case (Inr info)
      let ?r = "m2\<lparr>m_apps := b, m_thread := App_started info\<rparr>"
      have "exclusive os ?r"
      proof (rule exclusive_step [OF uniq m1, where i = Launching])
        show "owned Launching ?r \<subseteq> owned Launching ?m \<union> issued os (ev ?m) (ev ?r)"
          using launch_spawn_issued [OF l [unfolded Inr]] by simp
        fix j
        assume "j \<noteq> Launching"
        then show "owned j ?r \<subseteq> owned j ?m" using same_apps [of j] by (cases j) simp_all
      qed (use d ev same(1) in simp_all)
      then show ?thesis using a l Launch_app Inr by (simp add: ipc_accept_def Let_def)
    qed
  next
    case Await_status
    then show ?thesis using a m1 th1 exclusive_idle [OF m1 th1, of Status_flagged] by (simp add: ipc_accept_def Let_def)
  qed (use a m1 th1 in \<open>simp_all add: ipc_accept_def Let_def exclusive_reply\<close>)
qed

lemma exclusive_register:
  assumes m: "exclusive os m" and th: "m_thread m = App_started info"
  shows "exclusive os (ipc_register os info m)"
proof -
  obtain i a m1 where l: "launch_register os info (m_apps m) m = (i, a, m1)" by (metis prod_cases3)
  have d: "distinct (keys (services m))" using m by (simp add: exclusive_def)
  have ev: "ev m \<le> ev m1"
    using ms.I_launch_register [OF main_step_refl [OF d], of os info "m_apps m"] l by (simp add: main_step_def)
  have "kernel.more m1 = kernel.more m" using more_launch_register [of os info "m_apps m" m] l by simp
  note same = kernel_more_owned [OF this]
  have reg: "app_pids a = insert (ai_pid info) (app_pids (m_apps m))"
  proof -
    have "by_pid a = AList.update (ai_pid info) info (by_pid (m_apps m))"
      using l by (auto simp: launch_register_def Let_def)
    then show ?thesis by (simp add: app_pids_def dom_update)
  qed
  let ?r = "reply (launch_response (Inr i)) (m1\<lparr>m_apps := a\<rparr>)"
  have "exclusive os ?r"
  proof (rule exclusive_move [OF m, where i = App_registry and j = Launching])
    fix k
    assume "k \<noteq> App_registry" "k \<noteq> Launching"
    then show "owned k ?r \<subseteq> owned k m" using same(2) [of k] by (cases k) (simp_all add: reply_def)
  qed (use d ev same(1) reg th in \<open>simp_all add: reply_def\<close>)
  then show ?thesis using l by (simp add: ipc_register_def)
qed

subsection \<open>Every interleaving\<close>

lemma exclusive_reachable_step:
  assumes uniq: "pids_unique os"
  shows "step os h F grace m m' \<Longrightarrow> exclusive os m \<Longrightarrow> exclusive os m'"
proof (induction rule: step.induct)
  case (boot m)
  show ?case by (rule exclusive_by_main [OF uniq boot(2) ms.I_startup_services])
next
  case (main m m')
  show ?case by (rule exclusive_iterate [OF uniq main(3,2)])
next
  case (signal m raw)
  show ?case by (rule exclusive_by_main [OF uniq signal ms.I_set_ipc])
next
  case (listen m)
  show ?case by (rule exclusive_ipc_run [OF uniq listen(2,1)])
next
  case (accept m conn)
  then show ?case
    using exclusive_accept [OF uniq] exclusive_by_main [OF uniq _ ms.I_log]
    by (cases conn) (simp_all add: ipc_connection_def)
next
  case (snapshot m)
  show ?case by (rule exclusive_idle [OF snapshot(2)]) (simp_all add: snapshot)
next
  case (fresh m v)
  show ?case by (rule exclusive_reply [OF fresh(3)]) (simp add: fresh)
next
  case (timeout m v)
  show ?case by (rule exclusive_reply [OF timeout(3)]) (simp add: timeout)
next
  case (register m info)
  show ?case by (rule exclusive_register [OF register(2,1)])
next
  case (monitor m)
  show ?case by (rule exclusive_by_main [OF uniq monitor ms.I_monitor])
qed

text \<open>The first part of \<open>main\<close>, up to the three variables it sets at its end.\<close>

lemma startup_begin_frame:
  assumes d: "distinct (keys (services m0))"
  obtains m1 cfg where "main_step os m0 m1"
    "startup_begin os m0 = m1\<lparr>m_cfg := cfg, m_target := cfg_default_target cfg, m_thread := Created\<rparr>"
proof -
  have s0: "main_step os m0 m0" by (rule main_step_refl [OF d])
  let ?m1 = "become_subreaper os (log_at os Info ''mitos-services starting'' (logging_init os m0))"
  have s1: "main_step os m0 ?m1" by (intro ms.I_become_subreaper ms.I_log ms.I_logging_init s0)
  obtain avail m2 where m2: "cgroups_available os ?m1 = (avail, m2)" by fastforce
  have s2: "main_step os m0 m2"
    using ms.I_fs [OF s1, of os "Metadata CGROUP_ROOT"] m2 by (auto simp: cgroups_available_def split: prod.splits)
  let ?m3 = "if avail then m2
       else log_at os Warn (''cgroup delegation from mitos-init unavailable - falling back ''
              @ ''to plain pid-based supervision only'') m2"
  have s3: "main_step os m0 ?m3" by (intro ms.I_if ms.I_log s2)
  obtain m3 where m3: "m3 = ?m3" by blast
  obtain cfg m4 where m4: "load_config os m3 = (cfg, m4)" by fastforce
  have s4: "main_step os m0 m4" using ms.I_load_config [OF s3 [folded m3]] m4 by simp
  let ?m5 = "or_log os Warn ''failed to block signals ahead of worker threads: '' (block_handled os
    (or_log os Error ''failed to install signal handlers: '' (install_handlers os
      (apply_hostname os (\<lambda>h. ''failed to set hostname to '' @ quote h @ '': '') (cfg_hostname cfg)
        (set_log_level (cfg_loglevel cfg) m4)))))"
  have s5: "main_step os m0 ?m5" by (intro ms.I_machine s4)
  obtain m5 where m5: "m5 = ?m5" by blast
  have "startup_begin os m0 = m5\<lparr>m_cfg := cfg, m_target := cfg_default_target cfg, m_thread := Created\<rparr>"
    unfolding startup_begin_def Let_def m2 prod.case m3 [symmetric] m4 m5 [symmetric] by simp
  with s5 [folded m5] show thesis by (rule that)
qed

lemma exclusive_start:
  assumes uniq: "pids_unique os" shows "exclusive os (startup_begin os (machine_init t))"
proof -
  have 0: "exclusive os (machine_init t)"
  proof -
    have "owned i (machine_init t) = {}" for i
      by (cases i) (simp_all add: machine_init_def timer_pids_def timer_state_init_def app_pids_def apps_init_def)
    then show ?thesis by (simp add: exclusive_def machine_init_def)
  qed
  obtain m1 cfg where m1: "main_step os (machine_init t) m1" and eq: "startup_begin os (machine_init t) =
      m1\<lparr>m_cfg := cfg, m_target := cfg_default_target cfg, m_thread := Created\<rparr>"
    by (rule startup_begin_frame [of "machine_init t"]) (use 0 in \<open>auto simp: exclusive_def\<close>)
  have e1: "exclusive os m1" by (rule exclusive_main [OF uniq 0 m1])
  have "m_thread m1 = Not_created" using m1 by (simp add: main_step_def machine_init_def)
  then have "owned i (startup_begin os (machine_init t)) = owned i m1" for i
    by (cases i) (simp_all add: eq)
  then show ?thesis using e1 by (simp add: exclusive_def eq)
qed

lemma exclusive_reachable: "reachable os h F grace m \<Longrightarrow> pids_unique os \<Longrightarrow> exclusive os m"
  by (induction rule: reachable.induct) (auto intro: exclusive_start exclusive_reachable_step)

end
