(* ===== verification/Run_Records.thy ===== *)
theory Run_Records
  imports Ownership
begin

text \<open>
  The books the daemon keeps about its other children: no two pending runs of one timer, and the app
  registry files every app under its own pid. Both hold in every reachable state; the first needs that
  timers have different names (a directory lists an entry once) and that no pid is handed out twice.
\<close>

definition records_ok :: "machine \<Rightarrow> bool" where
  "records_ok m \<longleftrightarrow> timers_ok (m_timers m) \<and> apps_ok (m_apps m)"

lemma records_same: "m_timers m' = m_timers m \<Longrightarrow> m_apps m' = m_apps m \<Longrightarrow> records_ok m' = records_ok m"
  by (simp add: records_ok_def)

lemma records_main: "main_step os m m' \<Longrightarrow> records_ok m' = records_ok m"
  by (rule records_same) (simp_all add: main_step_def)

lemma records_by_main:
  assumes "exclusive os m" "main_step os m m \<Longrightarrow> main_step os m m'" shows "records_ok m' = records_ok m"
  using assms by (intro records_main) (simp add: exclusive_def main_step_refl)

lemma exclusive_fresh_timers:
  assumes uniq: "pids_unique os" and m: "exclusive os m"
  shows "fresh_from os (ev m) (timer_pids (m_timers m))"
proof -
  have "owned Timer_runs m \<subseteq> issued os 0 (ev m)" using m unfolding exclusive_def by blast
  with issued_fresh [OF uniq, of 0 "ev m"] have "owned Timer_runs m \<inter> issued os (ev m) b = {}" for b by blast
  then have "p \<notin> owned Timer_runs m" if "ev m \<le> n" "os_spawn os n c = Inr p" for n c p
    using issuedI [OF that(1) lessI that(2)] by blast
  then show ?thesis by (auto simp: fresh_from_def)
qed

subsection \<open>The main thread\<close>

lemma records_tick:
  assumes uniq: "pids_unique os" and m: "exclusive os m" "records_ok m"
    and d: "distinct (map td_name tds)" and t: "timers_tick os tds defs (m_timers m) m = Ret (ts, m1)"
  shows "records_ok (m1\<lparr>m_timers := ts\<rparr>)"
proof -
  have "timers_ok ts"
    using timers_tick_spec [OF uniq _ exclusive_fresh_timers [OF uniq m(1)] d t] m(2) by (simp add: records_ok_def)
  moreover have "m_apps m1 = m_apps m"
    using more_timers_tick [OF t] by (cases m, cases m1) simp
  ultimately show ?thesis using m(2) by (simp add: records_ok_def)
qed

lemma kernel_more_apps:
  fixes a b :: machine
  assumes "kernel.more a = kernel.more b" shows "m_apps a = m_apps b" "m_timers a = m_timers b"
  using assms by (cases a; cases b; simp)+

lemma records_first_refusal:
  assumes "records_ok m" shows "records_ok (snd (first_refusal os p m))"
proof -
  obtain b ts m1 where t: "timers_reap os p (m_timers m) m = (b, ts, m1)" by (metis prod_cases3)
  have ts: "timers_ok ts" using timers_reap_ok [of "m_timers m" os p m] t assms by (simp add: records_ok_def)
  have m1: "m_apps m1 = m_apps m" using kernel_more_apps(1) [of m1 m] more_timers_reap [of os p "m_timers m" m] t by simp
  obtain b2 a m2 where a: "apps_reap os p (m_apps m1) (m1\<lparr>m_timers := ts\<rparr>) = (b2, a, m2)" by (metis prod_cases3)
  have a_ok: "apps_ok a" using apps_reap_ok [of "m_apps m1" os p "m1\<lparr>m_timers := ts\<rparr>"] a m1 assms by (simp add: records_ok_def)
  have "m_timers m2 = ts" using kernel_more_apps(2) [of m2 "m1\<lparr>m_timers := ts\<rparr>"]
      more_apps_reap [of os p "m_apps m1" "m1\<lparr>m_timers := ts\<rparr>"] a by simp
  with t a ts a_ok m1 assms show ?thesis by (simp add: first_refusal_def Let_def records_ok_def)
qed

lemma records_check_watch: "exclusive os m \<Longrightarrow> records_ok (check_watch os failed m) = records_ok m"
  by (erule records_by_main) (rule ms.I_check_watch)

lemma records_dispatch_exit:
  assumes uniq: "pids_unique os" and m: "exclusive os m" "records_ok m"
    and r: "dispatch_exit os grace status m = Some (Loop m')"
  shows "records_ok m'"
proof -
  obtain handled u where u: "(case exit_summary status of
      None \<Rightarrow> (False, m) | Some (p, summary) \<Rightarrow> first_refusal os p m) = (handled, u)" by fastforce
  have eu: "exclusive os u \<and> records_ok u"
  proof (cases "exit_summary status")
    case None
    then show ?thesis using u m by simp
  next
    case (Some ps)
    then show ?thesis
      using u exclusive_first_refusal [OF uniq m(1), of "fst ps"] records_first_refusal [OF m(2), of os "fst ps"]
      by (cases ps) simp
  qed
  obtain out v where v: "handle_exit os status u = (out, v)" by fastforce
  have ev: "exclusive os v"
    by (rule exclusive_by_main [OF uniq conjunct1 [OF eu]]) (use ms.I_handle [of os u u status] v in simp)
  have rv: "records_ok v"
    using records_by_main [OF conjunct1 [OF eu], of v] ms.I_handle [of os u u status] v eu by simp
  from r u v eu ev rv show ?thesis
    by (auto simp: dispatch_exit_def stop_services_not_Loop records_check_watch
        split: if_splits outcome.splits option.splits)
qed

lemma records_iterate:
  assumes uniq: "pids_unique os" and dirs: "dir_entries_ok os"
    and m: "exclusive os m" "well_typed os m" "records_ok m" and r: "iterate os grace m = Some (Loop m')"
  shows "records_ok m'"
proof -
  let ?m0 = "set_ipc (set_flag clear_shutdown) m"
  let ?m1 = "phase_status os (phase_isolate os (phase_reload os ?m0))"
  have s1: "main_step os m m \<Longrightarrow> main_step os m ?m1"
    by (intro ms.I_phase_status ms.I_phase_isolate ms.I_phase_reload ms.I_set_ipc)
  have m1: "exclusive os ?m1" by (rule exclusive_by_main [OF uniq m(1) s1])
  have r1: "records_ok ?m1" using records_by_main [OF m(1) s1] m(3) by simp
  have "well_typed os ?m1"
    by (intro mw.I_phase_status mw.I_phase_isolate mw.I_phase_reload mw.I_set_ipc m(2))
  then have d: "distinct (map td_name (m_timer_defs ?m1))"
    using dirs by (simp add: well_typed_def vars_ok_def timer_defs_ok_def)
  have run: "\<not> shutdown_requested (sig_flags (m_ipc m))"
    using r by (auto simp: iterate_def stop_services_not_Loop)
  with r obtain ts m2 where t: "timers_tick os (m_timer_defs ?m1) (cfg_services (m_cfg ?m1)) (m_timers ?m1) ?m1 = Ret (ts, m2)"
    by (auto simp: iterate_def Let_def split: run.splits)
  let ?m2 = "m2\<lparr>m_timers := ts\<rparr>"
  have m2: "exclusive os ?m2" by (rule exclusive_tick [OF uniq m1 t])
  have r2: "records_ok ?m2" by (rule records_tick [OF uniq m1 r1 d t])
  obtain res m3 where w: "waitpid os (- 1) (needs_polling ?m2) ?m2 = (res, m3)" by fastforce
  obtain ex m4 where e: "expired_watchdogs os (deliver os m3) = (ex, m4)" by fastforce
  have s4: "main_step os ?m2 (kill_expired os ex m4)" if s: "main_step os ?m2 ?m2"
  proof -
    have "main_step os ?m2 m3" using ms.I_waitpid [OF s, where p = "- 1" and b = "needs_polling ?m2" and os = os] w by simp
    then have "main_step os ?m2 (deliver os m3)" by (rule ms.I_deliver)
    then have "main_step os ?m2 m4"
      using ms.I_now [of os ?m2 "deliver os m3" os] e by (auto simp: expired_watchdogs_def Let_def split: prod.splits)
    then show ?thesis by (rule ms.I_kill_expired)
  qed
  have m4: "exclusive os (kill_expired os ex m4)" by (rule exclusive_by_main [OF uniq m2 s4])
  have r4: "records_ok (kill_expired os ex m4)" using records_by_main [OF m2 s4] r2 by simp
  have "dispatch_wait os grace (needs_polling ?m2) res (kill_expired os ex m4) = Some (Loop m')"
    using r run t w e by (simp add: iterate_def Let_def)
  then show ?thesis
    using r4 records_check_watch [OF m4] records_check_watch [OF exclusive_by_main [OF uniq m4 ms.I_sleep_d]]
      records_dispatch_exit [OF uniq m4 r4] records_by_main [OF m4 ms.I_sleep_d] records_by_main [OF m4 ms.I_log]
      records_by_main [OF m4 ms.I_sleep_d [OF ms.I_log]]
    by (auto simp: dispatch_wait_def split: wait_result.splits if_splits)
qed

subsection \<open>The listener thread\<close>

lemma records_accept: "records_ok m \<Longrightarrow> records_ok (ipc_accept os h line m)"
proof -
  assume m: "records_ok m"
  obtain act i where a: "ipc_request line (m_ipc m) = (act, i)" by fastforce
  show ?thesis
  proof (cases act)
    case (Launch_app path args)
    let ?m = "m\<lparr>m_ipc := i\<rparr>"
    obtain r b m2 where l: "launch_spawn os h path args (m_apps m) ?m = (r, b, m2)" by (metis prod_cases3)
    have "apps_ok b" using apps_ok_launch_spawn [of "m_apps m" os h path args ?m] l m by (simp add: records_ok_def)
    moreover have "m_timers m2 = m_timers m"
      using kernel_more_apps(2) [of m2 ?m] more_launch_spawn [of os h path args "m_apps m" ?m] l by simp
    ultimately show ?thesis
      using a l Launch_app m by (cases r) (simp_all add: ipc_accept_def Let_def reply_def records_ok_def)
  qed (use a m in \<open>simp_all add: ipc_accept_def Let_def reply_def records_ok_def\<close>)
qed

lemma records_register: "records_ok m \<Longrightarrow> records_ok (ipc_register os info m)"
proof -
  assume m: "records_ok m"
  obtain i a m1 where l: "launch_register os info (m_apps m) m = (i, a, m1)" by (metis prod_cases3)
  have "apps_ok a" using launch_register_ok [of "m_apps m" os info m] l m by (simp add: records_ok_def)
  moreover have "m_timers m1 = m_timers m"
    using kernel_more_apps(2) [of m1 m] more_launch_register [of os info "m_apps m" m] l by simp
  ultimately show ?thesis using l m by (simp add: ipc_register_def reply_def records_ok_def)
qed

subsection \<open>Every interleaving\<close>

lemma records_step:
  assumes uniq: "pids_unique os" and dirs: "dir_entries_ok os"
  shows "step os h F grace m m' \<Longrightarrow> exclusive os m \<Longrightarrow> well_typed os m \<Longrightarrow> records_ok m \<Longrightarrow> records_ok m'"
proof (induction rule: step.induct)
  case (boot m)
  then show ?case using records_by_main [OF boot(2) ms.I_startup_services] by simp
next
  case (main m m')
  then show ?case by (blast intro: records_iterate [OF uniq dirs])
next
  case (listen m)
  have "main_step os m m \<Longrightarrow> main_step os m (snd (ipc_bind os m))"
    unfolding ipc_bind_def Let_def by (intro ms.I_flow ms.I_log ms.I_fs)
  from records_by_main [OF listen(2) this] listen(4)
  show ?case
    by (cases "ipc_bind os m"; cases "fst (ipc_bind os m)") (simp_all add: ipc_run_def records_ok_def log_at_def)
next
  case (accept m conn)
  then show ?case
    by (cases conn) (simp_all add: ipc_connection_def records_accept, simp add: records_ok_def log_at_def)
next
  case (register m info)
  then show ?case by (simp add: records_register)
next
  case (monitor m)
  then show ?case using records_by_main [OF monitor(1) ms.I_monitor] by simp
qed (simp_all add: set_ipc_def reply_def records_ok_def)

lemma records_start: "records_ok (startup_begin os (machine_init t))"
proof -
  obtain m1 cfg where m1: "main_step os (machine_init t) m1" and eq: "startup_begin os (machine_init t) =
      m1\<lparr>m_cfg := cfg, m_target := cfg_default_target cfg, m_thread := Created\<rparr>"
    by (rule startup_begin_frame [of "machine_init t"]) (auto simp: machine_init_def)
  have "records_ok m1"
    using records_main [OF m1] by (simp add: records_ok_def machine_init_def)
  then show ?thesis by (simp add: eq records_ok_def)
qed

lemma records_reachable:
  "reachable os h F grace m \<Longrightarrow> pids_unique os \<Longrightarrow> dir_entries_ok os \<Longrightarrow> records_ok m"
proof (induction rule: reachable.induct)
  case (later m m')
  then show ?case
    using exclusive_reachable [OF later(1)] mw.I_reachable [OF later(1) well_typed_init] by (blast intro: records_step)
qed (simp add: records_start)

end
