(* ===== verification/Samples.thy ===== *)
theory Samples
  imports Apps Timer_Facts Sup_Lifecycle
begin

text \<open>
  A concrete operating system, a concrete permission daemon and a few concrete states, on which
  the theorems are instantiated: every spawn succeeds with a new pid, every file operation and
  system call succeeds, the clock moves by one nanosecond per interaction and \<open>waitpid\<close> finds
  no exited child.
\<close>

definition calm_os :: os where
  "calm_os =
     \<lparr>os_tick = \<lambda>n. 1, os_fs = \<lambda>n op. None, os_read = \<lambda>n p. Inr [], os_read_dir = \<lambda>n p. None,
      os_spawn = \<lambda>n c. Inr (100 + int n), os_child = \<lambda>n k c. None,
      os_wait = \<lambda>n p b. Wait_ok StillAlive, os_notify = \<lambda>n. [], os_hostname = \<lambda>n h. None,
      os_setup = \<lambda>n c. None, os_ack = \<lambda>n. None, os_uptime = \<lambda>t. ''0.0'', os_kmsg = \<lambda>n. True,
      os_errno_text = \<lambda>e. ''error'', os_panic_info = ''overflow''\<rparr>"

text \<open>The same system, refusing every spawn.\<close>

definition full_os :: os where
  "full_os = calm_os\<lparr>os_spawn := \<lambda>n c. Inl ''Resource temporarily unavailable''\<rparr>"

lemma calm_os_simps [simp]:
  "os_tick calm_os n = 1" "os_fs calm_os n op = None" "os_spawn calm_os n c = Inr (100 + int n)"
  "os_child calm_os n k call = None" "os_ack calm_os n = None" "os_notify calm_os n = []"
  "os_wait calm_os n p b = Wait_ok StillAlive" "os_hostname calm_os n w = None"
  "os_read calm_os n path = Inr []"
  by (simp_all add: calm_os_def)

lemma full_os_simps [simp]:
  "os_spawn full_os n c = Inl ''Resource temporarily unavailable''" "os_tick full_os n = 1"
  by (simp_all add: full_os_def)

lemma calm_spawns_succeed: "spawns_succeed calm_os"
  by (simp add: spawns_succeed_def)

lemma calm_pids_unique: "pids_unique calm_os"
  by (auto simp: pids_unique_def)

lemma calm_fresh_from: "\<forall>p \<in> K. p < 100 \<Longrightarrow> fresh_from calm_os n K"
  by (fastforce simp: fresh_from_def)

lemma calm_clock_advances: "clock_advances calm_os"
  by (simp add: clock_advances_def)

lemma each_calm: "(\<And>a cs. a \<in> set as \<Longrightarrow> \<exists>cs'. a r cs = (None, cs')) \<Longrightarrow> \<exists>cs'. each as r cs = (None, cs')"
proof (induction as arbitrary: cs)
  case (Cons a as)
  obtain c1 where "a r cs = (None, c1)" using Cons.prems [of a cs] by auto
  moreover obtain c2 where "each as r c1 = (None, c2)" using Cons.IH [of c1] Cons.prems by auto
  ultimately show ?case by (simp add: andthen_def)
qed simp

lemma calm_honours_pre_exec: "spawn_honours_pre_exec calm_os"
proof -
  have acc: "\<forall>n c. r n c = None \<Longrightarrow> fst (run_pre_exec p r cs) = None" for p r cs
  proof -
    assume r: "\<forall>n c. r n c = None"
    have caps: "each (map (\<lambda>cap. ignoring (drop_cap cap)) ns) r cs = (None, cs @ map drop_cap ns)" for ns cs
      by (rule each_ignoring_caps)
    have ps: "fst (protect_system r cs) = None" for cs
      unfolding protect_system_def
      using each_calm [of "map protect_path [''/usr'', ''/boot'', ''/etc'']" r cs] protect_path_never_fails
      by (force simp: prod_eq_iff)
    show ?thesis
      by (cases p)
        (auto simp: run_pre_exec_def sandbox_apply_def service_pre_exec_def service_sandbox_apply_def
          namespaces_def private_tmp_def drop_privileges_def seccomp_apply_def andthen_def attempt_def
          ignoring_def ok_def when_then_def Let_def caps r split: prod.splits option.splits
          dest: arg_cong [of "protect_system r _" _ fst] simp: ps simp del: upt_Suc)
  qed
  show ?thesis by (simp add: spawn_honours_pre_exec_def acc)
qed

text \<open>States.\<close>

definition sample_sup :: "(pid \<times> supervised) list \<Rightarrow> supervisor" where
  "sample_sup table =
     \<lparr>clock = 0, ev = 0, trace = [], log_st = log_init, services = table,
      ready_st = ready_state_default\<rparr>"

definition sample_def :: "string \<Rightarrow> restart_policy \<Rightarrow> service_def" where
  "sample_def who r =
     service_def_default\<lparr>sd_name := who, sd_path := ''/bin/'' @ who, sd_restart := r, sd_target := DEFAULT_TARGET\<rparr>"

definition sample_entry :: "service_def \<Rightarrow> supervised" where
  "sample_entry d = \<lparr>sv_def = d, restart_times = [], started_at = 0\<rparr>"

lemma sample_simps [simp]:
  "services (sample_sup t) = t" "ev (sample_sup t) = 0" "clock (sample_sup t) = 0" "trace (sample_sup t) = []"
  "ready_st (sample_sup t) = ready_state_default"
  "sd_name (sample_def who r) = who" "sd_restart (sample_def who r) = r" "sd_critical (sample_def who r) = False"
  "sd_requires (sample_def who r) = []" "sd_after (sample_def who r) = []" "sd_target (sample_def who r) = DEFAULT_TARGET"
  "sv_def (sample_entry d) = d" "restart_times (sample_entry d) = []" "started_at (sample_entry d) = 0"
  by (simp_all add: sample_sup_def sample_def_def sample_entry_def service_def_default_def)

text \<open>A permission daemon that allows, and one that asks.\<close>

definition sample_host :: "string \<Rightarrow> host" where
  "sample_host answer =
     \<lparr>h_read = \<lambda>n p. Inr [1, 2], h_sha256 = \<lambda>b. [0xAB, 0xCD], h_daemon = \<lambda>n q. Reply answer,
      h_wall = \<lambda>n. Some 7, h_term = \<lambda>n. None\<rparr>"

lemma sample_host_simps [simp]:
  "h_read (sample_host w) n p = Inr [1, 2]" "h_sha256 (sample_host w) b = [0xAB, 0xCD]"
  "h_daemon (sample_host w) n q = Reply w" "h_wall (sample_host w) n = Some 7" "h_term (sample_host w) n = None"
  by (simp_all add: sample_host_def)

end
