(* ===== verification/Control_Properties.thy ===== *)
theory Control_Properties
  imports Run_Records Samples
begin

text \<open>
  The properties of the event loop (\<open>src/main.rs\<close>) and of what it shares with signal handlers
  and the control socket (\<open>src/signals.rs\<close>, \<open>src/ipc.rs\<close>).
\<close>

subsection \<open>Helpers\<close>

lemma timers_reap_machine:
  fixes m :: machine
  assumes "timers_reap os p ts m = (b, ts', m')"
  shows "services m' = services m" "m_apps m' = m_apps m" "m_watch m' = m_watch m" "m_cfg m' = m_cfg m"
  using assms
  by (auto simp: timers_reap_def timers_state_def now_def log_at_def Let_def split: option.splits if_splits)

lemma apps_reap_machine:
  fixes m :: machine
  assumes "apps_reap os p a m = (b, a', m')"
  shows "services m' = services m" "m_timers m' = m_timers m" "m_watch m' = m_watch m" "m_cfg m' = m_cfg m"
  using assms
  by (auto simp: apps_reap_def kill_and_remove_under_def fs_def emit_def log_at_def Let_def
      split: option.splits if_splits)

lemma check_watch_None:
  "services (check_watch os None m) = services m" "m_timers (check_watch os None m) = m_timers m"
  "m_apps (check_watch os None m) = m_apps m"
  by (auto simp: check_watch_def rollback_check_def watch_active_def now_def log_at_def Let_def
      split: option.splits)

lemma first_refusal_facts:
  assumes r: "first_refusal os p m = (b, m')"
  shows "b \<longleftrightarrow> p \<in> timer_pids (m_timers m) \<union> app_pids (m_apps m)"
    "services m' = services m" "m_watch m' = m_watch m" "m_cfg m' = m_cfg m"
    "timer_pids (m_timers m') = timer_pids (m_timers m) - {p}"
    "p \<notin> timer_pids (m_timers m) \<Longrightarrow> app_pids (m_apps m') = app_pids (m_apps m) - {p}"
proof -
  obtain b1 ts m1 where t: "timers_reap os p (m_timers m) m = (b1, ts, m1)" by (metis prod_cases3)
  note t' = timers_reap_machine [OF t] timers_reap_owner [of os p "m_timers m" m, unfolded t, simplified]
  obtain b2 a m2 where a: "apps_reap os p (m_apps m) (m1\<lparr>m_timers := ts\<rparr>) = (b2, a, m2)" by (metis prod_cases3)
  have a': "b2 \<longleftrightarrow> p \<in> app_pids (m_apps m)" "app_pids a = app_pids (m_apps m) - {p}"
    using app.claims [where p = p and s = "(m_apps m, m1\<lparr>m_timers := ts\<rparr>)" and os = os]
      app.gives_up [where p = p and s = "(m_apps m, m1\<lparr>m_timers := ts\<rparr>)" and os = os] a by simp_all
  note a'' = apps_reap_machine [OF a]
  have cases: "b1 \<and> b \<and> m' = m1\<lparr>m_timers := ts\<rparr> \<or> \<not> b1 \<and> b = b2 \<and> m' = m2\<lparr>m_apps := a\<rparr>"
    using r a t'(2) by (cases b1) (simp_all add: first_refusal_def t)
  have facts: "(b \<longleftrightarrow> p \<in> timer_pids (m_timers m) \<union> app_pids (m_apps m)) \<and>
    services m' = services m \<and> m_watch m' = m_watch m \<and> m_cfg m' = m_cfg m \<and>
    timer_pids (m_timers m') = timer_pids (m_timers m) - {p} \<and>
    (p \<notin> timer_pids (m_timers m) \<longrightarrow> app_pids (m_apps m') = app_pids (m_apps m) - {p})"
  proof (cases b1)
    case True
    with cases have b: b "m' = m1\<lparr>m_timers := ts\<rparr>" by simp_all
    show ?thesis unfolding b(2) using True b(1) t' by simp
  next
    case False
    with cases have b: "b = b2" "m' = m2\<lparr>m_apps := a\<rparr>" by simp_all
    show ?thesis unfolding b using False t' a' a'' by simp
  qed
  then show "b \<longleftrightarrow> p \<in> timer_pids (m_timers m) \<union> app_pids (m_apps m)"
    "services m' = services m" "m_watch m' = m_watch m" "m_cfg m' = m_cfg m"
    "timer_pids (m_timers m') = timer_pids (m_timers m) - {p}"
    "p \<notin> timer_pids (m_timers m) \<Longrightarrow> app_pids (m_apps m') = app_pids (m_apps m) - {p}"
    by simp_all
qed

subsection \<open>Who an exit belongs to\<close>

text \<open>
  The exit of a timer's run or of a launched app is consumed by its owner: the loop
  goes on, the service table is untouched (no restart policy is applied to it), and the owner has
  given the pid up.
\<close>

lemma claimed_exit_spares_services:
  assumes "exit_summary status = Some (p, summary)"
    and "p \<in> timer_pids (m_timers m) \<union> app_pids (m_apps m)"
  shows "\<exists>m'. dispatch_exit os grace status m = Some (Loop m') \<and> services m' = services m \<and>
    p \<notin> timer_pids (m_timers m') \<and>
    (p \<notin> timer_pids (m_timers m) \<longrightarrow> app_pids (m_apps m') = app_pids (m_apps m) - {p})"
proof -
  obtain b m1 where r: "first_refusal os p m = (b, m1)" by fastforce
  note f = first_refusal_facts [OF r]
  then have "dispatch_exit os grace status m = Some (Loop (check_watch os None m1))"
    using assms r by (simp add: dispatch_exit_def)
  then show ?thesis using f by (simp add: check_watch_None)
qed

definition sample_app :: app_info where
  "sample_app = \<lparr>ai_id = ''app-7-1'', ai_path = ''/bin/ed'', ai_args = [], ai_pid = 55, ai_sha256 = ''abcd''\<rparr>"

definition sample_machine :: "(pid \<times> supervised) list \<Rightarrow> machine" where
  "sample_machine table =
     (machine_init 0)\<lparr>services := table, m_apps := \<lparr>by_pid = [(55, sample_app)], next_seq = 2\<rparr>\<rparr>"

lemma sample_machine_simps [simp]:
  "services (sample_machine t) = t" "m_timers (sample_machine t) = timer_state_init"
  "by_pid (m_apps (sample_machine t)) = [(55, sample_app)]" "m_watch (sample_machine t) = None"
  "m_ipc (sample_machine t) = ipc_init" "m_cfg (sample_machine t) = config_default"
  "clock (sample_machine t) = 0" "ev (sample_machine t) = 0" "trace (sample_machine t) = []"
  by (simp_all add: sample_machine_def machine_init_def)

text \<open>The exit of a critical service, before the watch and the shutdown act on it.\<close>

lemma critical_exit:
  assumes "exit_summary status = Some (p, summary)" and "map_of (services m) p = Some sv"
    and "sd_critical (sv_def sv)" and "p \<notin> timer_pids (m_timers m) \<union> app_pids (m_apps m)"
  obtains m2 where "m_watch m2 = m_watch m"
    "dispatch_exit os grace status m =
      (if (case m_watch m of None \<Rightarrow> False | Some w \<Rightarrow> watch_touched w (sd_name (sv_def sv)))
       then Some (Loop (check_watch os (Some (sd_name (sv_def sv))) m2))
       else stop_services os grace (log_at os Info ''critical service exited, stopping mitos-services'' m2))"
proof -
  obtain b m1 where r: "first_refusal os p m = (b, m1)" by fastforce
  note f = first_refusal_facts [OF r]
  have map: "map_of (services m1) p = Some sv" using f assms(2) by simp
  obtain m2 where h: "handle_exit os status m1 = (Halt (sd_name (sv_def sv)), m2)"
    using handle_exit_outcome [OF assms(1) map, of os] assms(3) by (cases "handle_exit os status m1") auto
  have "steps (\<lambda>e. False) m1 m2"
    using handle_exit_no_respawn(1) [OF assms(1) map, of os] h by simp
  then have "supervisor.more m2 = supervisor.more m1" by (simp add: steps_def)
  from same_more [OF this] have w: "m_watch m2 = m_watch m" using f(3) by simp
  show thesis
    by (rule that [OF w]) (use assms(1,4) f(1) in \<open>simp add: dispatch_exit_def r h w\<close>)
qed

lemma critical_exit_leaves:
  assumes "exit_summary status = Some (p, summary)" and "map_of (services m) p = Some sv"
    and "sd_critical (sv_def sv)" and "p \<notin> timer_pids (m_timers m) \<union> app_pids (m_apps m)"
    and "\<And>w. m_watch m = Some w \<Longrightarrow> \<not> watch_touched w (sd_name (sv_def sv))"
  shows "dispatch_exit os grace status m \<noteq> Some (Loop m')"
proof -
  obtain m2 where "dispatch_exit os grace status m =
      (if (case m_watch m of None \<Rightarrow> False | Some w \<Rightarrow> watch_touched w (sd_name (sv_def sv)))
       then Some (Loop (check_watch os (Some (sd_name (sv_def sv))) m2))
       else stop_services os grace (log_at os Info ''critical service exited, stopping mitos-services'' m2))"
    by (rule critical_exit [OF assms(1-4)])
  then show ?thesis using assms(5) by (cases "m_watch m") (auto simp: stop_services_not_Loop)
qed

lemma critical_exit_rolls_back:
  assumes "exit_summary status = Some (p, summary)" and "map_of (services m) p = Some sv"
    and "sd_critical (sv_def sv)" and "p \<notin> timer_pids (m_timers m) \<union> app_pids (m_apps m)"
    and "m_watch m = Some w" and "watch_touched w (sd_name (sv_def sv))"
  shows "\<exists>m'. dispatch_exit os grace status m = Some (Loop m') \<and> m_cfg m' = w_previous w \<and> m_watch m' = None"
proof -
  obtain m2 where "m_watch m2 = m_watch m" "dispatch_exit os grace status m =
      (if (case m_watch m of None \<Rightarrow> False | Some w \<Rightarrow> watch_touched w (sd_name (sv_def sv)))
       then Some (Loop (check_watch os (Some (sd_name (sv_def sv))) m2))
       else stop_services os grace (log_at os Info ''critical service exited, stopping mitos-services'' m2))"
    by (rule critical_exit [OF assms(1-4)])
  then show ?thesis using assms(5,6) by (simp add: check_watch_def rollback_check_def)
qed

text \<open>
  C24. The exit of a critical service leaves the event loop (through the shutdown of every
  service, or its panic), except during the watch of a reload that touched it: then the machine
  rolls back to the previous configuration and goes on.
\<close>

theorem critical_exit_stops:
  assumes "exit_summary status = Some (p, summary)" and "map_of (services m) p = Some sv"
    and "sd_critical (sv_def sv)" and "p \<notin> timer_pids (m_timers m) \<union> app_pids (m_apps m)"
  shows "case m_watch m of
      None \<Rightarrow> \<forall>m'. dispatch_exit os grace status m \<noteq> Some (Loop m')
    | Some w \<Rightarrow>
        if watch_touched w (sd_name (sv_def sv))
        then \<exists>m'. dispatch_exit os grace status m = Some (Loop m') \<and> m_cfg m' = w_previous w \<and> m_watch m' = None
        else \<forall>m'. dispatch_exit os grace status m \<noteq> Some (Loop m')"
proof (cases "m_watch m")
  case None
  then show ?thesis using critical_exit_leaves [OF assms] by simp
next
  case (Some w)
  then show ?thesis
    using critical_exit_leaves [OF assms] critical_exit_rolls_back [OF assms Some]
    by (cases "watch_touched w (sd_name (sv_def sv))") simp_all
qed

definition sample_critical :: service_def where
  "sample_critical = (sample_def ''bus'' Always)\<lparr>sd_critical := True\<rparr>"

theorem critical_exit_stops_witness:
  "\<forall>m'. dispatch_exit calm_os 10 (Exited 7 0) (sample_machine [(7, sample_entry sample_critical)]) \<noteq> Some (Loop m')"
  using critical_exit_stops [of "Exited 7 0" 7 _ "sample_machine [(7, sample_entry sample_critical)]"
      "sample_entry sample_critical" calm_os 10]
  by (simp add: exit_summary_def sample_critical_def app_pids_def timer_pids_def timer_state_init_def)

subsection \<open>Shutdown requests\<close>

text \<open>
  The iteration that finds a shutdown flag raised: everything else is behind a message.
\<close>

lemma iterate_shutdown:
  assumes "shutdown_requested (sig_flags (m_ipc m))"
  obtains u where "iterate os grace m = stop_services os grace u" "trace u = trace m" "services u = services m"
    "clock u = clock m" "ev u = ev m"
proof (rule that)
  let ?m = "log_at os Info ''shutdown relayed from mitos-init - stopping services''
    (set_ipc (set_flag clear_shutdown) m)"
  show "iterate os grace m = stop_services os grace ?m"
    using assms by (simp add: iterate_def Let_def)
qed (simp_all add: frame set_ipc_def)

text \<open>
  C22. When any of the three shutdown signals has arrived, the next iteration does nothing but
  the shutdown: it never goes round again, it leaves the loop (on a clock that advances and with a
  deadline that does not overflow), and when it leaves, every service got SIGTERM first, those no
  wait reported as ended got SIGKILL, and the init process was acknowledged last (unless its FIFO
  could not be opened).
\<close>

theorem shutdown_request_obeyed:
  assumes "shutdown_requested (sig_flags (m_ipc m))"
  shows "(\<forall>m'. iterate os grace m \<noteq> Some (Loop m')) \<and>
    (clock_advances os \<longrightarrow> clock m + os_tick os (ev m + length (services m)) + grace < 2 ^ 63 * nanos_per_sec \<longrightarrow>
      (\<exists>m'. iterate os grace m = Some (Leave m'))) \<and>
    (\<forall>m'. iterate os grace m = Some (Leave m') \<longrightarrow>
      (\<exists>ws es n. trace m' = trace m @ map (\<lambda>p. Kill p SIGTERM) (keys (services m)) @ map (Wait (- 1) True) ws @
           map (\<lambda>p. Kill p SIGKILL) (filter (\<lambda>p. p \<notin> set (reaped_pids ws)) (keys (services m))) @ es @
           (if os_ack os n = None then [Shutdown_ack] else []) \<and>
         (\<forall>e \<in> set es. housekeeping e)))"
proof -
  obtain v where it: "iterate os grace m = stop_services os grace v"
    and same: "trace v = trace m" "services v = services m" "clock v = clock m" "ev v = ev m"
    using iterate_shutdown [OF assms] by metis
  have "\<exists>ws es n. trace m' = trace m @ map (\<lambda>p. Kill p SIGTERM) (keys (services m)) @ map (Wait (- 1) True) ws @
           map (\<lambda>p. Kill p SIGKILL) (filter (\<lambda>p. p \<notin> set (reaped_pids ws)) (keys (services m))) @ es @
           (if os_ack os n = None then [Shutdown_ack] else []) \<and>
         (\<forall>e \<in> set es. housekeeping e)" if l: "iterate os grace m = Some (Leave m')" for m'
  proof -
    from l [unfolded it stop_services_def] obtain r where r: "shutdown_all os grace v = Some r"
      "(case r of Ret m \<Rightarrow> Leave (acknowledge_shutdown os m) | Panic m \<Rightarrow> Crash (panic_hook os m)) = Leave m'" by auto
    then obtain u where u: "shutdown_all os grace v = Some (Ret u)" "m' = acknowledge_shutdown os u"
      by (cases r) auto
    obtain ws es where e: "trace u = trace v @ map (\<lambda>p. Kill p SIGTERM) (keys (services v)) @ map (Wait (- 1) True) ws @
         map (\<lambda>p. Kill p SIGKILL) (filter (\<lambda>p. p \<notin> set (reaped_pids ws)) (keys (services v))) @ es"
      "\<forall>e \<in> set es. housekeeping e"
      by (rule shutdown_all_events [OF u(1)])
    have "trace m' = trace u @ (if os_ack os (ev u) = None then [Shutdown_ack] else [])"
      by (auto simp: u(2) acknowledge_shutdown_def frame split: option.split)
    with e show ?thesis
      by (intro exI [of _ ws] exI [of _ es] exI [of _ "ev u"]) (simp add: same)
  qed
  moreover have "\<exists>m'. iterate os grace m = Some (Leave m')"
    if "clock_advances os" "clock m + os_tick os (ev m + length (services m)) + grace < 2 ^ 63 * nanos_per_sec"
    using shutdown_all_returns [of os v grace] that by (auto simp: it stop_services_def same)
  ultimately show ?thesis by (simp add: it stop_services_not_Loop)
qed

theorem shutdown_request_obeyed_witness:
  "\<exists>m'. iterate calm_os 10 (set_ipc (set_flag (on_signal 15)) (sample_machine [])) = Some (Leave m')"
  using shutdown_request_obeyed [of "set_ipc (set_flag (on_signal 15)) (sample_machine [])" calm_os 10]
  by (simp add: set_ipc_def set_flag_def on_signal_def shutdown_requested_def calm_clock_advances)

text \<open>
  C39. A \<open>shutdown_timeout\<close> of \<open>2 ^ 63\<close> seconds or more (the parser takes any
  \<open>u64\<close>) makes every requested shutdown panic at \<open>Instant::now() + grace\<close>. Then
  every service has had its SIGTERM and nothing else has happened: no process was waited for or got
  SIGKILL, no cgroup was swept, the init process gets no acknowledgement. The panic is the last line
  of the journal.
\<close>

theorem shutdown_overflow_panics:
  assumes "2 ^ 63 \<le> unat secs" and "shutdown_requested (sig_flags (m_ipc m))"
  shows "\<exists>m'. iterate os (from_secs secs) m = Some (Crash m') \<and>
    trace m' = trace m @ map (\<lambda>p. Kill p SIGTERM) (keys (services m)) \<and> services m' = services m \<and>
    last (journal (log_st m')) = log_line ''FAIL'' (os_uptime os (uptime m')) (''PANIC: '' @ os_panic_info os)"
proof -
  obtain v where it: "iterate os (from_secs secs) m = stop_services os (from_secs secs) v"
    and same: "trace v = trace m" "services v = services m"
    using iterate_shutdown [OF assms(2)] by metis
  obtain u where u: "shutdown_all os (from_secs secs) v = Some (Panic u)"
    "trace u = trace v @ map (\<lambda>p. Kill p SIGTERM) (keys (services v))" "services u = services v"
    by (rule shutdown_all_panics [OF assms(1)])
  have "iterate os (from_secs secs) m = Some (Crash (panic_hook os u))"
    by (simp add: it stop_services_def u(1))
  then show ?thesis
    using u(2,3) same by (intro exI [of _ "panic_hook os u"]) (simp add: panic_hook_def frame log_at_error)
qed

theorem shutdown_overflow_panics_witness:
  "\<exists>m'. iterate calm_os (from_secs (2 ^ 63)) (set_ipc (set_flag (on_signal 15))
      (sample_machine [(7, sample_entry (sample_def ''db'' Always))])) = Some (Crash m') \<and>
    trace m' = [Kill 7 SIGTERM]"
  using shutdown_overflow_panics [of "2 ^ 63" "set_ipc (set_flag (on_signal 15))
      (sample_machine [(7, sample_entry (sample_def ''db'' Always))])" calm_os]
  by (auto simp: set_ipc_def set_flag_def on_signal_def shutdown_requested_def)

subsection \<open>Targets\<close>

text \<open>
  C29. Isolating to a configured target: the running services become exactly those of the
  target, which is published with the list of targets, and the request is consumed.
\<close>

theorem isolate_switches:
  fixes os :: os and m :: machine
  assumes "pending_isolate (m_ipc m) = Some name" and "name \<in> sd_target ` set (cfg_services (m_cfg m))"
    and "spawns_succeed os" and "pids_unique os" and "distinct (keys (services m))"
    and "distinct (map sd_name (services_in (cfg_services (m_cfg m)) name))"
    and "fresh_from os (ev m) (set (keys (services m)))"
  defines "m' \<equiv> phase_isolate os m"
  shows "set (running_names m') = {sd_name d | d. d \<in> set (cfg_services (m_cfg m)) \<and> sd_target d = name} \<and>
    m_target m' = name \<and> pending_isolate (m_ipc m') = None \<and>
    last_targets (m_ipc m') = (name, targets_list (cfg_services (m_cfg m)))"
proof -
  let ?new = "services_in (cfg_services (m_cfg m)) name"
  let ?m1 = "m\<lparr>m_ipc := (m_ipc m)\<lparr>pending_isolate := None\<rparr>\<rparr>"
  have "\<exists>msg. m' = set_ipc (publish_targets name (targets_list (cfg_services (m_cfg m))))
      ((snd (reload_services os ?new (log_at os Info msg ?m1)))\<lparr>m_target := name\<rparr>)"
    unfolding m'_def phase_isolate_def take_pending_isolate_def Let_def
    using assms(1,2) by (auto simp: targets_list_facts(3) log_at_more)
  then obtain msg where eq: "m' = set_ipc (publish_targets name (targets_list (cfg_services (m_cfg m))))
      ((snd (reload_services os ?new (log_at os Info msg ?m1)))\<lparr>m_target := name\<rparr>)" by blast
  let ?m = "log_at os Info msg ?m1"
  let ?r = "snd (reload_services os ?new ?m)"
  have same: "services ?m = services m" "ev ?m = ev m" by (simp_all add: frame)
  have ipc: "pending_isolate (m_ipc ?r) = None"
  proof -
    have "supervisor.more ?r = supervisor.more ?m"
      by (rule reload_more) (use assms(5) same in simp)
    from same_more [OF this] show ?thesis by (simp add: log_at_more)
  qed
  have "set (running_names ?r) = sd_name ` set ?new"
    by (rule reload_converges [OF assms(3,4)]) (use assms(5-7) same in simp_all)
  then show ?thesis
    using ipc by (auto simp: eq set_ipc_def publish_targets_def running_names_def services_in_def)
qed

theorem isolate_switches_witness:
  "running_names (phase_isolate calm_os (set_ipc (request_isolate DEFAULT_TARGET) (sample_machine []))) \<noteq> []"
proof -
  let ?m = "set_ipc (request_isolate DEFAULT_TARGET) (sample_machine [])"
  have "set (running_names (phase_isolate calm_os ?m)) =
      {sd_name d | d. d \<in> set (cfg_services (m_cfg ?m)) \<and> sd_target d = DEFAULT_TARGET}"
    using isolate_switches [of ?m DEFAULT_TARGET calm_os]
    by (simp add: set_ipc_def request_isolate_def calm_spawns_succeed calm_pids_unique calm_fresh_from
        config_default_def services_in_def)
  then have "''shell'' \<in> set (running_names (phase_isolate calm_os ?m))"
    by (auto simp: set_ipc_def config_default_def)
  then show ?thesis by auto
qed

text \<open>
  A request for a target no configured service belongs to is consumed and changes nothing
  else: the services, the active target and what is published stay as they are. Without a request
  the phase is the identity.
\<close>

lemma isolate_unknown_ignored:
  fixes os :: os and m :: machine
  assumes "\<forall>name. pending_isolate (m_ipc m) = Some name \<longrightarrow> name \<notin> sd_target ` set (cfg_services (m_cfg m))"
  defines "m' \<equiv> phase_isolate os m"
  shows "services m' = services m \<and> trace m' = trace m \<and> m_target m' = m_target m \<and>
    last_targets (m_ipc m') = last_targets (m_ipc m) \<and> pending_isolate (m_ipc m') = None \<and>
    (pending_isolate (m_ipc m) = None \<longrightarrow> m' = m)"
proof (cases "pending_isolate (m_ipc m)")
  case None
  then have "m' = m" by (simp add: m'_def phase_isolate_def take_pending_isolate_def Let_def)
  with None show ?thesis by simp
next
  case (Some name)
  have "\<exists>msg. m' = log_at os Warn msg (m\<lparr>m_ipc := (m_ipc m)\<lparr>pending_isolate := None\<rparr>\<rparr>)"
    unfolding m'_def phase_isolate_def take_pending_isolate_def Let_def
    using Some assms(1) by (auto simp: targets_list_facts(3))
  with Some show ?thesis by (auto simp: frame log_at_more)
qed

subsection \<open>Every interleaving\<close>

text \<open>
  C14. In every state that any interleaving of the event loop, signals and control requests can
  reach, no pid is in the service table twice, no service remembers more than
  \<open>MAX_RESTARTS_IN_WINDOW\<close> restarts, and the journal behind \<open>mitosctl logs\<close> holds at most
  \<open>MAX_LINES\<close> lines: neither a crash loop nor chatty clients make the state of the manager grow.
\<close>

theorem reachable_state_bounded:
  assumes "reachable os h F grace m"
  shows "distinct (keys (services m)) \<and>
    (\<forall>e \<in> set (services m). length (restart_times (snd e)) \<le> MAX_RESTARTS_IN_WINDOW) \<and>
    length (journal (log_st m)) \<le> MAX_LINES"
  using mh.I_reachable [OF assms history_bounded_init] mj.I_reachable [OF assms journal_bounded_init]
  by (simp add: history_bounded_def table_all_def journal_bounded_def)

theorem reachable_state_bounded_witness:
  "distinct (keys (services (startup_begin calm_os (machine_init 0)))) \<and>
   length (journal (log_st (startup_begin calm_os (machine_init 0)))) \<le> MAX_LINES"
  using reachable_state_bounded [OF reachable.initial [where os = calm_os and t = 0, OF refl]] by simp

text \<open>
  C16. Every definition the daemon holds is well formed in every reachable state, whatever the files contained:
  the services of the configuration in force (there is always one), of the service table and of the
  configuration a watch would restore have a name, a path without white space, arguments that are non-empty
  words, list items without commas, environment keys without \<open>=\<close>, a watchdog time of whole seconds and no
  line break in a user, group, directory or target; every timer has a name and a delay of whole seconds, and no two have the same name
  (a directory listing names each entry once); the
  active target is one line, and the log level is one of the four.
\<close>

theorem reachable_well_typed:
  assumes "reachable os h F grace m"
  shows "config_ok (m_cfg m) \<and> (\<forall>e \<in> set (services m). def_ok (sv_def (snd e))) \<and>
    (\<forall>w. m_watch m = Some w \<longrightarrow> config_ok (w_previous w) \<and> one_line (w_target w)) \<and>
    timer_defs_ok os (m_timer_defs m) \<and> one_line (m_target m) \<and>
    current_level (log_st m) \<in> range level_u8"
  using mw.I_reachable [OF assms well_typed_init]
  by (auto simp: well_typed_def vars_ok_def watch_ok_def table_all_def)

theorem reachable_well_typed_witness:
  "config_ok (m_cfg (ipc_run calm_os (startup_begin calm_os (machine_init 0))))"
proof -
  have "m_thread (startup_begin calm_os (machine_init 0)) = Created"
    by (simp add: startup_begin_def Let_def split_def)
  from reachable_well_typed [OF reachable.later [OF reachable.initial [where os = calm_os and t = 0, OF refl]
      step.listen [OF this]]]
  show ?thesis by blast
qed



subsection \<open>The control socket\<close>



subsection \<open>The race of a launch\<close>

text \<open>
  C40. The race between a launch and the event loop, and what follows. An app is started
  by the listener thread and exits before the thread registers it: the event loop reaps the exit as an
  orphan's, and the registration that follows leaves an entry for a process that is gone. When the system
  later gives that pid to a service, the stale entry takes the exit of the service for the app's: the
  table keeps the service as running, and no restart policy or critical stop is applied.
\<close>

theorem late_registration_leaks:
  fixes os :: os and m :: machine
  assumes "m_thread m = App_started info" and "exit_summary status = Some (ai_pid info, summary)"
    and "ai_pid info \<notin> timer_pids (m_timers m) \<union> app_pids (m_apps m)" and "map_of (services m) (ai_pid info) = None"
  shows "\<exists>m1. dispatch_exit os grace status m = Some (Loop m1) \<and> m_thread m1 = App_started info \<and>
    ai_pid info \<in> app_pids (m_apps (ipc_register os info m1)) \<and>
    (\<forall>m2 sv status' summary'. m_apps m2 = m_apps (ipc_register os info m1) \<and> map_of (services m2) (ai_pid info) = Some sv \<and>
       exit_summary status' = Some (ai_pid info, summary') \<longrightarrow>
         (\<exists>m3. dispatch_exit os grace status' m2 = Some (Loop m3) \<and> services m3 = services m2))"
proof -
  have none: "map_of (tm_pending (m_timers m)) (ai_pid info) = None" "map_of (by_pid (m_apps m)) (ai_pid info) = None"
    using assms(3) by (simp_all add: timer_pids_def app_pids_def map_of_eq_None_iff)
  obtain m0 where m0: "first_refusal os (ai_pid info) m = (False, m0)" "services m0 = services m" "m_thread m0 = m_thread m"
    by (cases "tm_boot (m_timers m)")
      (simp_all add: first_refusal_def timers_reap_def timers_state_def apps_reap_def none now_def Let_def)
  let ?m1 = "check_watch os None m0"
  have d: "dispatch_exit os grace status m = Some (Loop ?m1)"
    using assms(2,4) m0 by (simp add: dispatch_exit_def handle_exit_def)
  have t: "m_thread ?m1 = App_started info"
    using m0(3) assms(1)
    by (auto simp: check_watch_def rollback_check_def watch_active_def now_def log_at_def Let_def split: option.splits)
  have a: "ai_pid info \<in> app_pids (m_apps (ipc_register os info ?m1))"
    by (simp add: ipc_register_def reply_def launch_register_def Let_def app_pids_def dom_update)
  have s: "\<exists>m3. dispatch_exit os grace status' m2 = Some (Loop m3) \<and> services m3 = services m2"
    if "m_apps m2 = m_apps (ipc_register os info ?m1)" "exit_summary status' = Some (ai_pid info, summary')"
    for m2 status' summary'
    using claimed_exit_spares_services [of status' "ai_pid info" summary' m2 os grace] that a by auto
  show ?thesis by (rule exI [of _ ?m1]) (use d t a s in blast)
qed

theorem late_registration_leaks_witness:
  "\<exists>m1. dispatch_exit calm_os 10 (Exited 60 0)
      ((sample_machine [])\<lparr>m_thread := App_started (sample_app\<lparr>ai_pid := 60\<rparr>)\<rparr>) = Some (Loop m1) \<and>
    60 \<in> app_pids (m_apps (ipc_register calm_os (sample_app\<lparr>ai_pid := 60\<rparr>) m1))"
  using late_registration_leaks [of "(sample_machine [])\<lparr>m_thread := App_started (sample_app\<lparr>ai_pid := 60\<rparr>)\<rparr>"
      "sample_app\<lparr>ai_pid := 60\<rparr>" "Exited 60 0" _ calm_os 10]
  by (auto simp: exit_summary_def timer_pids_def timer_state_init_def app_pids_def)

end
