(* ===== verification/Idle.thy ===== *)
theory Idle
  imports Control_Properties
begin

text \<open>
  The event loop of \<open>src/main.rs\<close> in iterations without a request, a timer or a reload watch: what the
  watchdogs do in one, and that a daemon without watchdogs whose \<open>waitpid\<close> reports nothing it is
  responsible for (an orphan it adopted as a subreaper, a stopped process, an error) does nothing at all.
\<close>

text \<open>No flag, no pending isolate, no timer and no watch; idle when nothing else makes the loop poll.\<close>

definition no_requests :: "machine \<Rightarrow> bool" where
  "no_requests m \<longleftrightarrow>
     \<not> shutdown_requested (sig_flags (m_ipc m)) \<and> \<not> reload_requested (sig_flags (m_ipc m)) \<and>
     \<not> status_dump_requested (sig_flags (m_ipc m)) \<and> pending_isolate (m_ipc m) = None \<and>
     m_timer_defs m = [] \<and> m_watch m = None"


text \<open>What of the machine the daemon is about.\<close>

definition same_duties :: "machine \<Rightarrow> machine \<Rightarrow> bool" where
  "same_duties m m' \<longleftrightarrow>
     services m' = services m \<and> m_cfg m' = m_cfg m \<and> m_target m' = m_target m \<and> m_watch m' = m_watch m \<and>
     m_timer_defs m' = m_timer_defs m \<and> timer_pids (m_timers m') = timer_pids (m_timers m) \<and>
     m_apps m' = m_apps m \<and> m_ipc m' = m_ipc m \<and> clock m \<le> clock m'"


lemma same_duties_trans: "same_duties a b \<Longrightarrow> same_duties b c \<Longrightarrow> same_duties a c"
  by (auto simp: same_duties_def)


lemma deliver_more: 
  fixes m :: machine
  shows "supervisor.more (deliver os m) = supervisor.more m"
proof -
  have l: "supervisor.more (notify_lines os who ls s) = supervisor.more s" for os who ls and s :: machine
    by (induction ls arbitrary: s) (simp_all add: log_at_def)
  have "supervisor.more (deliver_all os ds s) = supervisor.more s" for ds and s :: machine
    by (induction os ds s rule: deliver_all.induct) (simp_all add: notify_recv_def l split: option.split)
  then show ?thesis by (simp add: deliver_def)
qed

lemma quiet_more:
  assumes "supervisor.more m' = supervisor.more m" "services m' = services m" "clock m \<le> clock m'"
  shows "same_duties m m'"
  using assms by (cases m, cases m') (simp add: same_duties_def)






text \<open>What the supervisor knows about readiness and pings once the datagrams that came during the wait are in.\<close>

definition heard_while_waiting :: "os \<Rightarrow> machine \<Rightarrow> ready_state" where
  "heard_while_waiting os m =
     fold (\<lambda>(who, text). notify_datagram who (clock m + os_tick os (ev m)) text)
       (datagrams (os_notify os (Suc (ev m)))) (ready_st m)"

text \<open>An iteration without requests and timers, up to the arms of the \<open>match\<close> on what \<open>waitpid\<close> returned.\<close>

lemma iterate_quiet:
  fixes os :: os and m :: machine
  defines "r \<equiv> os_wait os (ev m) (- 1) (needs_polling m)"
  assumes "no_requests m"
  obtains u ps where "iterate os grace m = dispatch_wait os grace (needs_polling m) r (kill_expired os ps u)"
    "trace u = trace m @ [Wait (- 1) (needs_polling m) r]" "same_duties m u"
    "ps = map fst (filter (\<lambda>(p, sv). watchdog_expired (clock u) (ready_st u) sv) (services m))"
    "clock u = clock m + os_tick os (ev m) + os_tick os (Suc (ev m))" "ready_st u = heard_while_waiting os m"
proof -
  let ?b = "needs_polling m"
  have "set_ipc (set_flag clear_shutdown) m = m"
    using assms(2) by (cases "m_ipc m") (simp add: set_ipc_def set_flag_def clear_shutdown_def no_requests_def shutdown_requested_def)
  moreover have "m\<lparr>m_ipc := m_ipc m\<lparr>pending_isolate := None\<rparr>\<rparr> = m"
    using assms(2) by (cases m; cases "m_ipc m") (simp add: no_requests_def)
  then have "phase_status os (phase_isolate os (phase_reload os m)) = m"
    using assms(2) by (simp add: phase_status_def phase_isolate_def phase_reload_def no_requests_def take_pending_isolate_def)
  moreover have "timers_tick os (m_timer_defs m) (cfg_services (m_cfg m)) (m_timers m) m = Ret (m_timers m, m)"
    using assms(2) by (simp add: timers_tick_def no_requests_def)
  moreover obtain m2 where m2: "waitpid os (- 1) ?b m = (r, m2)" "trace m2 = trace m @ [Wait (- 1) ?b r]"
    "same_duties m m2" "clock m2 = clock m + os_tick os (ev m)" "ev m2 = Suc (ev m)" "ready_st m2 = ready_st m"
    by (rule that [of "snd (waitpid os (- 1) ?b m)"])
      (simp_all add: waitpid_def emit_def r_def Let_def same_duties_def)
  let ?u = "snd (now os (deliver os m2))"
  let ?ps = "map fst (filter (\<lambda>(p, sv). watchdog_expired (clock ?u) (ready_st ?u) sv) (services m))"
  have "same_duties m2 ?u"
    by (rule quiet_more) (simp_all add: now_def deliver_more frame Let_def)
  with m2(3) have u: "same_duties m ?u" by (rule same_duties_trans)
  have tu: "trace ?u = trace m @ [Wait (- 1) ?b r]" "clock ?u = clock m + os_tick os (ev m) + os_tick os (Suc (ev m))"
    "ready_st ?u = heard_while_waiting os m"
    using m2(2,4-6) by (simp_all add: frame) (simp add: now_def deliver_ready heard_while_waiting_def Let_def)
  have "services (deliver os m2) = services m" using m2(3) by (simp add: frame same_duties_def)
  then have "expired_watchdogs os (deliver os m2) = (?ps, ?u)"
    by (simp add: expired_watchdogs_def Let_def now_def frame)
  ultimately have "iterate os grace m = dispatch_wait os grace ?b r (kill_expired os ?ps ?u)"
    using assms(2) m2(1) by (simp add: iterate_def no_requests_def Let_def)
  then show thesis using tu u that by blast
qed

lemma kill_expired_trace:
  fixes m :: machine
  shows "trace (kill_expired os ps m) = trace m @ map (\<lambda>p. Kill p SIGKILL) ps"
    "services (kill_expired os ps m) = services m" "clock (kill_expired os ps m) = clock m"
    "supervisor.more (kill_expired os ps m) = supervisor.more m"
  by (induction ps arbitrary: m) (simp_all add: kill_def emit_def frame log_at_def)

text \<open>
  C33. The watchdogs in an iteration without other requests: exactly the services whose
  watchdog has expired, at the time after the wait and with the pings that arrived during it, get SIGKILL,
  each once and before the result of the wait is looked at. That includes a service whose exit the wait has
  just reported, so that a SIGKILL goes to a pid the system may already have given to another process.
\<close>

theorem watchdogs_enforced:
  fixes os :: os and m :: machine
  assumes "no_requests m"
  defines "r \<equiv> os_wait os (ev m) (- 1) (needs_polling m)"
    and "t \<equiv> clock m + os_tick os (ev m) + os_tick os (Suc (ev m))"
  defines "expired \<equiv> map fst (filter (\<lambda>(p, sv). watchdog_expired t (heard_while_waiting os m) sv) (services m))"
  shows "\<exists>u. iterate os grace m = dispatch_wait os grace (needs_polling m) r u \<and> same_duties m u \<and>
    trace u = trace m @ Wait (- 1) (needs_polling m) r # map (\<lambda>p. Kill p SIGKILL) expired"
proof -
  obtain u ps where u: "iterate os grace m = dispatch_wait os grace (needs_polling m) r (kill_expired os ps u)"
    "trace u = trace m @ [Wait (- 1) (needs_polling m) r]" "same_duties m u"
    "ps = map fst (filter (\<lambda>(p, sv). watchdog_expired (clock u) (ready_st u) sv) (services m))"
    "clock u = clock m + os_tick os (ev m) + os_tick os (Suc (ev m))" "ready_st u = heard_while_waiting os m"
    unfolding r_def by (rule iterate_quiet [OF assms(1)])
  then have "ps = expired" by (simp add: expired_def t_def)
  moreover have "same_duties m (kill_expired os ps u)"
    by (rule same_duties_trans [OF u(3)]) (rule quiet_more; simp add: kill_expired_trace)
  ultimately show ?thesis using u(1,2) by (intro exI [of _ "kill_expired os ps u"]) (simp add: kill_expired_trace)
qed

definition late_os :: os where
  "late_os = calm_os\<lparr>os_tick := \<lambda>n. 10, os_wait := \<lambda>n p b. Wait_ok (Exited 7 1)\<rparr>"

theorem watchdogs_enforced_witness:
  "\<exists>u. iterate late_os 10 (sample_machine [(7, sample_entry ((sample_def ''db'' Always)\<lparr>sd_watchdog_timeout := Some 8\<rparr>))]) =
       dispatch_wait late_os 10 True (Wait_ok (Exited 7 1)) u \<and>
     trace u = [Wait (- 1) True (Wait_ok (Exited 7 1)), Kill 7 SIGKILL]"
proof -
  let ?m = "sample_machine [(7, sample_entry ((sample_def ''db'' Always)\<lparr>sd_watchdog_timeout := Some 8\<rparr>))]"
  have q: "no_requests ?m"
    by (simp add: no_requests_def sample_machine_def machine_init_def ipc_init_def flags_init_def shutdown_requested_def)
  have m: "needs_polling ?m" "trace ?m = []" "heard_while_waiting late_os ?m = ready_state_default" "clock ?m = 0"
    by (simp_all add: needs_polling_def has_watchdog_services_def sample_machine_def machine_init_def
        heard_while_waiting_def late_os_def calm_os_def datagrams_def List.map_filter_simps)
  show ?thesis
    using watchdogs_enforced [OF q, of late_os 10] m
    by (auto simp: late_os_def watchdog_expired_def last_ping_def ready_state_default_def duration_since_def)
qed


subsection \<open>Any number of iterations\<close>




end
