(* ===== verification/Service_Start.thy ===== *)
theory Service_Start
  imports Samples
begin

text \<open>
  What starting a service does to the system when no file operation fails: the events of
  \<open>spawn_with_history\<close> (\<open>src/supervisor.rs\<close>), \<open>listen_for\<close> (\<open>src/notify.rs\<close>), \<open>create_for\<close> and
  \<open>attach\<close> (\<open>src/cgroups.rs\<close>) and \<open>set_score_adjust\<close> (\<open>src/oom.rs\<close>) as an abstract specification,
  a list of events, and the proof that the operations do exactly these.
\<close>

definition files_succeed :: "os \<Rightarrow> bool" where
  "files_succeed os \<longleftrightarrow> (\<forall>n op. os_fs os n op = None)"

subsection \<open>The specification\<close>

text \<open>The notification socket of a service: private directory, fresh socket, given to the user the
  service will run as before anything listens on it.\<close>

definition socket_events :: "string \<Rightarrow> u32 option \<Rightarrow> u32 option \<Rightarrow> event list" where
  "socket_events who uid gid =
     map Fs
       ([Create_dir_all NOTIFY_DIR, Set_permissions NOTIFY_DIR 448, Remove_file (notify_path who),
         Bind_datagram (notify_path who), Set_permissions (notify_path who) 384] @
        (if uid = None \<and> gid = None \<or> CHR 0x00 \<in> set (notify_path who) then []
         else [Chown (notify_path who) (case uid of None \<Rightarrow> - 1 | Some u \<Rightarrow> u)
                 (case gid of None \<Rightarrow> - 1 | Some g \<Rightarrow> g)])) @ [Listener who]"

text \<open>The cgroup of a process: its memory limit is in force before the process is moved in.\<close>

definition confine_events :: "string \<Rightarrow> u64 option \<Rightarrow> i32 option \<Rightarrow> pid \<Rightarrow> event list" where
  "confine_events who limit score p =
     (let dir = path_join CGROUP_ROOT who
      in map Fs
        (Create_dir_all dir #
         (case limit of None \<Rightarrow> [] | Some l \<Rightarrow> [Write_file (path_join dir ''memory.max'') (show_nat (unat l))]) @
         [Write_file (path_join dir ''cgroup.procs'') (show_int p)] @
         (case score of None \<Rightarrow> []
          | Some sc \<Rightarrow> [Write_file (''/proc/'' @ show_int p @ ''/oom_score_adj'') (show_int (sint sc))])))"

text \<open>The rescue shell: \<open>r\<close> is what spawning it gave.\<close>

definition rescue_events :: "io_error + pid \<Rightarrow> event list" where
  "rescue_events r =
     Spawn (command_new ''/bin/sh'') r # (case r of Inl e \<Rightarrow> [] | Inr p \<Rightarrow> confine_events ''shell'' None None p)"

subsection \<open>The operations implement it\<close>

lemma fs_succeeds: "files_succeed os \<Longrightarrow> fs os op s = (None, emit (Fs op) s)"
  by (simp add: fs_def files_succeed_def)

lemma fold_emit:
  "trace (fold emit es s) = trace s @ es" "clock (fold emit es s) = clock s"
  "ev (fold emit es s) = ev s + length es"
  by (induction es arbitrary: s) (simp_all add: emit_def)

lemma fold_emit_table:
  fixes s :: "'a supervisor_scheme"
  shows "services (fold emit es s) = services s" "ready_st (fold emit es s) = ready_st s"
  by (induction es arbitrary: s) (simp_all add: emit_def)

lemma listen_for_events:
  "files_succeed os \<Longrightarrow>
   listen_for os who uid gid s = (Some (notify_path who), fold emit (socket_events who uid gid) s)"
  by (simp add: listen_for_def chown_path_def fs_succeeds socket_events_def Let_def)

lemma confine_events_eq:
  "files_succeed os \<Longrightarrow>
   (case score of None \<Rightarrow> attach os who p (snd (create_for os who limit s))
    | Some sc \<Rightarrow> set_score_adjust os p sc (attach os who p (snd (create_for os who limit s)))) =
   fold emit (confine_events who limit score p) s"
  by (simp add: create_for_def create_under_def attach_def attach_under_def set_score_adjust_def
      dir_under_def fs_succeeds confine_events_def Let_def split: option.split)

lemma log_at_table:
  fixes s :: "'a supervisor_scheme"
  shows "services (log_at os l m s) = services s" "ready_st (log_at os l m s) = ready_st s"
  by (simp_all add: log_at_def)

text \<open>What the look-ups and the log leave alone.\<close>

definition same_view :: "'a supervisor_scheme \<Rightarrow> 'a supervisor_scheme \<Rightarrow> bool" where
  "same_view s s' \<longleftrightarrow>
     trace s' = trace s \<and> clock s' = clock s \<and> services s' = services s \<and> ready_st s' = ready_st s"

lemma same_view_refl: "same_view s s"
  by (simp add: same_view_def)

lemma same_view_trans: "same_view s s' \<Longrightarrow> same_view s' s'' \<Longrightarrow> same_view s s''"
  by (simp add: same_view_def)

lemma same_view_log: "same_view s (log_at os l m s)"
  by (simp add: same_view_def frame log_at_table)

lemma same_view_resolve:
  "same_view s (snd (resolve_opt (resolve_uid os) spec s))"
  "same_view s (snd (resolve_opt (resolve_gid os) spec s))"
  by (simp_all add: same_view_def resolve_opt_def resolve_uid_def resolve_gid_def read_to_string_def Let_def
      split: option.split sum.split)

lemma same_view_if_log: "same_view s (if b then log_at os l m s else s)"
  by (simp add: same_view_refl same_view_log)

lemma same_view_identity: "same_view s (snd (resolve_identity os d s))"
  unfolding resolve_identity_def Let_def case_prod_beta snd_conv
  by (rule same_view_trans [OF _ same_view_if_log], rule same_view_trans [OF _ same_view_resolve(2)],
      rule same_view_trans [OF same_view_resolve(1) same_view_if_log])

lemma started_events:
  fixes os d hist p and s :: "'a supervisor_scheme"
  assumes "files_succeed os"
  defines "s' \<equiv> started os d hist p s"
  shows "trace s' = trace s @ confine_events (sd_name d) (sd_memory_limit d) (sd_oom_score_adjust d) p"
    "services s' = AList.update p \<lparr>sv_def = d, restart_times = hist, started_at = clock s'\<rparr> (services s)"
    "ready_st s' = ready_st s" "clock s \<le> clock s'"
  unfolding s'_def started_def Let_def confine_events_eq [OF assms(1)]
  by (simp_all add: now_def insert_service_def fold_emit fold_emit_table frame log_at_table Let_def)

lemma spawn_fallback_events:
  fixes os and s :: "'a supervisor_scheme"
  assumes "files_succeed os"
  defines "r \<equiv> os_spawn os (ev s) (command_new ''/bin/sh'')" and "s' \<equiv> spawn_fallback os s"
  shows "trace s' = trace s @ rescue_events r"
    "services s' = (case r of Inl e \<Rightarrow> services s
       | Inr p \<Rightarrow> AList.update p \<lparr>sv_def = fallback_shell, restart_times = [], started_at = clock s'\<rparr> (services s))"
    "ready_st s' = ready_st s" "clock s \<le> clock s'"
proof -
  have n: "sd_name fallback_shell = ''shell''" by (simp add: fallback_shell_def)
  have c: "attach os w p (snd (create_for os w None t)) = fold emit (confine_events w None None p) t"
    for w p and t :: "'a supervisor_scheme"
    using confine_events_eq [OF assms(1), where score = None and limit = None and s = t] by simp
  show "trace s' = trace s @ rescue_events r"
    "services s' = (case r of Inl e \<Rightarrow> services s
       | Inr p \<Rightarrow> AList.update p \<lparr>sv_def = fallback_shell, restart_times = [], started_at = clock s'\<rparr> (services s))"
    "ready_st s' = ready_st s" "clock s \<le> clock s'"
    unfolding s'_def spawn_fallback_def spawn_def r_def Let_def
    by (simp_all add: n c now_def insert_service_def rescue_events_def fold_emit fold_emit_table frame
        log_at_table emit_def Let_def split: sum.split)
qed

subsection \<open>The property\<close>

text \<open>
  C11. Starting a service, on every branch, when no file operation fails. The system sees,
  in this order and nothing else: the notification socket set up for the user the service runs as, the
  spawn of the service's command with that socket in its environment, and then, for the process that came
  up, its cgroup with the memory limit in force before the process is moved in, and its
  \<open>oom_score_adj\<close>; the process is entered into the table under its pid with the restart history
  given. When the spawn fails the table is unchanged and nothing more is tried, unless the service is
  critical: then \<open>/bin/sh\<close> is spawned, confined without a limit and entered as the service \<open>shell\<close>.
  In any case readiness and watchdog pings of an earlier process of that name are forgotten.
\<close>

theorem service_start_trace:
  fixes os :: os and d hist and s :: "'a supervisor_scheme"
  assumes "files_succeed os" and "resolve_identity os d s = ((uid, gid), s1)"
  defines "s' \<equiv> spawn_with_history os d hist s"
    and "socket \<equiv> socket_events (sd_name d) uid gid"
    and "cmd \<equiv> service_command d (Some (notify_path (sd_name d))) uid gid"
  defines "r \<equiv> os_spawn os (ev s1 + length socket) cmd"
    and "rescue \<equiv> os_spawn os (Suc (ev s1 + length socket)) (command_new ''/bin/sh'')"
  shows "trace s' = trace s @ socket @ Spawn cmd r #
      (case r of
         Inr p \<Rightarrow> confine_events (sd_name d) (sd_memory_limit d) (sd_oom_score_adjust d) p
       | Inl e \<Rightarrow> if sd_critical d then rescue_events rescue else []) \<and>
    services s' =
      (case r of
         Inr p \<Rightarrow> AList.update p \<lparr>sv_def = d, restart_times = hist, started_at = clock s'\<rparr> (services s)
       | Inl e \<Rightarrow>
           (case rescue of
              Inr p \<Rightarrow>
                if sd_critical d
                then AList.update p \<lparr>sv_def = fallback_shell, restart_times = [], started_at = clock s'\<rparr> (services s)
                else services s
            | Inl e \<Rightarrow> services s)) \<and>
    \<not> is_ready (sd_name d) (ready_st s') \<and> last_ping (sd_name d) (ready_st s') = None \<and> clock s \<le> clock s'"
proof -
  define s2 where "s2 = fold emit socket (forget_name (sd_name d) s1)"
  have f: "trace s1 = trace s" "clock s1 = clock s" "services s1 = services s"
    using same_view_identity [of s os d] assms(2) by (simp_all add: same_view_def)
  have s2: "trace s2 = trace s @ socket" "clock s2 = clock s" "services s2 = services s"
    "ev s2 = ev s1 + length socket" "ready_st s2 = forget (sd_name d) (ready_st s1)"
    by (simp_all add: s2_def fold_emit fold_emit_table forget_name_def f)
  have eq: "s' = (case r of
        Inr p \<Rightarrow> started os d hist p (emit (Spawn cmd r) s2)
      | Inl e \<Rightarrow>
          (let s3 = log_at os Error (''failed to start '' @ quote (sd_name d) @ '' ('' @ sd_path d @ ''): '' @ e)
             (emit (Spawn cmd r) s2)
           in if sd_critical d then spawn_fallback os s3 else s3))"
    unfolding s'_def spawn_with_history_def assms(2) listen_for_events [OF assms(1)] spawn_def Let_def
    by (simp add: r_def cmd_def s2_def socket_def fold_emit forget_name_def split: sum.split)
  have ready: "\<not> is_ready (sd_name d) (ready_st s2)" "last_ping (sd_name d) (ready_st s2) = None"
    by (simp_all add: s2)
  show ?thesis
  proof (cases r)
    case (Inr p)
    let ?s = "emit (Spawn cmd r) s2"
    have "s' = started os d hist p ?s" by (simp add: eq Inr)
    with started_events [OF assms(1), where d = d and hist = hist and p = p and s = ?s] ready s2 show ?thesis
      by (simp add: Inr frame emit_def)
  next
    case (Inl e)
    define s3 where
      "s3 = log_at os Error (''failed to start '' @ quote (sd_name d) @ '' ('' @ sd_path d @ ''): '' @ e)
         (emit (Spawn cmd r) s2)"
    have s3: "trace s3 = trace s @ socket @ [Spawn cmd r]" "clock s3 = clock s" "services s3 = services s"
      "ready_st s3 = ready_st s2" "os_spawn os (ev s3) (command_new ''/bin/sh'') = rescue"
      by (simp_all add: s3_def frame log_at_table s2 emit_def rescue_def)
    have s': "s' = (if sd_critical d then spawn_fallback os s3 else s3)"
      by (simp add: eq Inl s3_def Let_def)
    show ?thesis
    proof (cases "sd_critical d")
      case True
      with s' have "s' = spawn_fallback os s3" by simp
      with spawn_fallback_events [OF assms(1), of s3] ready s3 True show ?thesis
        by (simp add: Inl split: sum.split)
    next
      case False
      with s' s3 ready show ?thesis by (simp add: Inl split: sum.split)
    qed
  qed
qed

theorem service_start_trace_witness:
  "\<exists>cmd. cmd_path cmd = ''/bin/web'' \<and>
     trace (spawn_with_history calm_os
       (service_def_default\<lparr>sd_name := ''web'', sd_path := ''/bin/web'', sd_memory_limit := Some 4096\<rparr>) []
       (sample_sup [])) =
     map Fs [Create_dir_all ''/run/mitos-init/notify'', Set_permissions ''/run/mitos-init/notify'' 448,
       Remove_file ''/run/mitos-init/notify/web.sock'', Bind_datagram ''/run/mitos-init/notify/web.sock'',
       Set_permissions ''/run/mitos-init/notify/web.sock'' 384] @
     [Listener ''web'', Spawn cmd (Inr 106)] @
     map Fs [Create_dir_all ''/sys/fs/cgroup/mitos-init/web'',
       Write_file ''/sys/fs/cgroup/mitos-init/web/memory.max'' ''4096'',
       Write_file ''/sys/fs/cgroup/mitos-init/web/cgroup.procs'' ''106'']"
proof -
  let ?d = "service_def_default\<lparr>sd_name := ''web'', sd_path := ''/bin/web'', sd_memory_limit := Some 4096\<rparr>"
  let ?s = "sample_sup []"
  have files: "files_succeed calm_os" by (simp add: files_succeed_def)
  have ident: "resolve_identity calm_os ?d ?s = ((None, None), ?s)"
    by (simp add: resolve_identity_def resolve_opt_def service_def_default_def)
  note t = service_start_trace [OF files ident, of "[]", THEN conjunct1]
  have socket: "socket_events ''web'' None None =
      map Fs [Create_dir_all ''/run/mitos-init/notify'', Set_permissions ''/run/mitos-init/notify'' 448,
        Remove_file ''/run/mitos-init/notify/web.sock'', Bind_datagram ''/run/mitos-init/notify/web.sock'',
        Set_permissions ''/run/mitos-init/notify/web.sock'' 384] @ [Listener ''web'']"
    by code_simp
  have digits: "show_nat 4096 = ''4096''" "show_int 106 = ''106''"
    by (simp_all add: show_nat_def show_int_def show_base.simps [of 10] digit_char_def char_of_def bit_0)
  have confine: "confine_events ''web'' (Some 4096) None 106 =
      map Fs [Create_dir_all ''/sys/fs/cgroup/mitos-init/web'',
        Write_file ''/sys/fs/cgroup/mitos-init/web/memory.max'' ''4096'',
        Write_file ''/sys/fs/cgroup/mitos-init/web/cgroup.procs'' ''106'']"
    by (simp add: confine_events_def digits path_join_def CGROUP_ROOT_def starts_with_def)
  have d: "sd_name ?d = ''web''" "sd_memory_limit ?d = Some 4096" "sd_oom_score_adjust ?d = None"
    by (simp_all add: service_def_default_def)
  have path: "cmd_path (service_command ?d sock None None) = ''/bin/web''" for sock
    by (simp add: service_command_def command_new_def Let_def)
  let ?cmd = "service_command ?d (Some (notify_path ''web'')) None None"
  have len: "length (socket_events ''web'' None None) = 6" by (simp add: socket_events_def)
  have "trace (spawn_with_history calm_os ?d [] ?s) =
      socket_events ''web'' None None @ [Spawn ?cmd (Inr 106)] @ confine_events ''web'' (Some 4096) None 106"
    using t by (simp add: d len)
  with path show ?thesis by (intro exI [of _ ?cmd] conjI) (simp_all only: socket confine append.simps append_assoc)
qed

end
