(* ===== verification/Service_Properties.thy ===== *)
theory Service_Properties
  imports Rollback Boot Samples
begin

text \<open>
  The properties of the supervisor and of the reload watch (\<open>src/supervisor.rs\<close>,
  \<open>src/rollback.rs\<close>), each with an instance on the system of \<open>Samples\<close>.
\<close>

subsection \<open>Exits\<close>

text \<open>
  C3. What \<open>handle_exit\<close> does with the exit of a supervised process, on every branch: a critical
  service halts the system; a service whose policy asks for a restart gives up when
  \<open>MAX_RESTARTS_IN_WINDOW\<close> of its earlier restarts fall into the back-off window at the time of
  the decision, and is otherwise spawned again with that history; any other service is only
  forgotten. Unless it is respawned the table loses exactly the exited pid, and nothing but
  housekeeping (its cgroup) happens. When the respawn fails the same is true: the service is dropped
  although its policy asks for a restart, and the outcome (\<open>Continue\<close>) does not tell.
\<close>

theorem exit_policy:
  fixes os :: os and s :: "'a supervisor_scheme"
  assumes "exit_summary status = Some (p, summary)" and "map_of (services s) p = Some sv"
  defines "d \<equiv> sv_def sv"
    and "t \<equiv> decision_time os p summary sv s"
  defines "recent_restarts \<equiv> filter (\<lambda>r. t - r < BACKOFF_WINDOW) (restart_times sv)"
    and "out \<equiv> fst (handle_exit os status s)"
    and "s' \<equiv> snd (handle_exit os status s)"
  shows "out =
      (if sd_critical d then Halt (sd_name d)
       else if should_restart (sd_restart d) status \<and> MAX_RESTARTS_IN_WINDOW \<le> length recent_restarts
       then GaveUp (sd_name d) else Continue) \<and>
    (if out = Continue \<and> should_restart (sd_restart d) status
     then \<exists>s1. services s1 = AList.delete p (services s) \<and> steps (\<lambda>e. False) s s1 \<and>
            s' = spawn_with_history os d (recent_restarts @ [t]) s1
     else services s' = AList.delete p (services s) \<and> steps (\<lambda>e. False) s s') \<and>
    ((\<forall>n c q. os_spawn os n c \<noteq> Inr q) \<longrightarrow> services s' = AList.delete p (services s))"
proof -
  have hist: "prune_restarts t (restart_times sv) = recent_restarts @ [t]"
    by (simp add: recent_restarts_def prune_restarts_def duration_since_def)
  have "out =
      (if sd_critical d then Halt (sd_name d)
       else if should_restart (sd_restart d) status \<and> MAX_RESTARTS_IN_WINDOW \<le> length recent_restarts
       then GaveUp (sd_name d) else Continue)"
    unfolding out_def recent_restarts_def t_def d_def by (rule handle_exit_outcome [OF assms(1,2)])
  moreover have respawn: "\<exists>s1. services s1 = AList.delete p (services s) \<and> steps (\<lambda>e. False) s s1 \<and>
      s' = spawn_with_history os d (recent_restarts @ [t]) s1"
    if "out = Continue \<and> should_restart (sd_restart d) status"
    using handle_exit_respawn(2) [OF assms(1,2), of os] that
    unfolding s'_def out_def d_def t_def hist [unfolded t_def] by blast
  moreover have forgotten: "services s' = AList.delete p (services s) \<and> steps (\<lambda>e. False) s s'"
    if "\<not> (out = Continue \<and> should_restart (sd_restart d) status)"
    using handle_exit_no_respawn [OF assms(1,2), of os] that unfolding s'_def out_def d_def by blast
  moreover have "services s' = AList.delete p (services s)" if none: "\<forall>n c q. os_spawn os n c \<noteq> Inr q"
  proof (cases "out = Continue \<and> should_restart (sd_restart d) status")
    case True
    then obtain s1 where s1: "services s1 = AList.delete p (services s)"
      "s' = spawn_with_history os d (recent_restarts @ [t]) s1" using respawn by blast
    with spawn_with_history_table [of os d "recent_restarts @ [t]" s1] none show ?thesis by (auto simp: added_def)
  qed (use forgotten in blast)
  ultimately show ?thesis using respawn forgotten by auto
qed

theorem exit_policy_witness:
  "fst (handle_exit calm_os (Exited 7 1) (sample_sup [(7, sample_entry (sample_def ''db'' OnFailure))])) = Continue"
  using exit_policy [of "Exited 7 1" 7 _ "sample_sup [(7, sample_entry (sample_def ''db'' OnFailure))]"
      "sample_entry (sample_def ''db'' OnFailure)" calm_os]
  by (simp add: exit_summary_def MAX_RESTARTS_IN_WINDOW_def)

text \<open>
  C4. The crash-loop limit over a whole life of restarts: when the
  restart decisions of a service fall at the times \<open>ts\<close>, all of them are granted exactly when no
  six consecutive ones lie within the ten-second window.
\<close>

theorem crash_loop_bound:
  assumes "sorted ts"
  shows "grant [] ts \<noteq> None \<longleftrightarrow>
    (\<forall>i. i + MAX_RESTARTS_IN_WINDOW < length ts \<longrightarrow>
       BACKOFF_WINDOW \<le> ts ! (i + MAX_RESTARTS_IN_WINDOW) - ts ! i)"
  by (rule grant_iff [OF assms])

theorem crash_loop_bound_witness: "grant [] [0, 1, 2, 3, 4, 5] = None"
proof -
  have "\<not> (\<forall>i. i + MAX_RESTARTS_IN_WINDOW < length [0 :: nat, 1, 2, 3, 4, 5] \<longrightarrow>
      BACKOFF_WINDOW \<le> [0, 1, 2, 3, 4, 5] ! (i + MAX_RESTARTS_IN_WINDOW) - [0, 1, 2, 3, 4, 5] ! i)"
    by (auto intro!: exI [of _ 0] simp: MAX_RESTARTS_IN_WINDOW_def BACKOFF_WINDOW_def from_secs_def)
  moreover have "sorted [0 :: nat, 1, 2, 3, 4, 5]" by simp
  ultimately show ?thesis using crash_loop_bound by blast
qed

text \<open>
  The exit of a process that is in no table (an orphan
  adopted by the subreaper), and a status that is no exit at all, change nothing.
\<close>

lemma unknown_exit_ignored:
  fixes s :: "'a supervisor_scheme"
  assumes "\<forall>p summary. exit_summary status = Some (p, summary) \<longrightarrow> p \<notin> set (keys (services s))"
  shows "handle_exit os status s = (Continue, s)"
  using assms handle_exit_untracked_id [of status s os] by (cases "exit_summary status") auto

subsection \<open>Reloading\<close>

text \<open>
  C7. A reload leaves every unchanged service alone: its entry stays in the table
  and no signal is sent to its process and no wait done on it, provided the system does not hand
  the pid of such a running process to a new child.
\<close>

theorem reload_spares_unchanged:
  fixes s :: "'a supervisor_scheme"
  assumes "distinct (keys (services s))" and "distinct (map sd_name new)"
    and "fresh_from os (ev s) (fst ` unchanged new (services s))"
  shows "kept (unchanged new (services s)) s (snd (reload_services os new s))"
  by (rule reload_keeps [OF assms])

theorem reload_spares_unchanged_witness:
  "(7, sample_entry (sample_def ''db'' Always)) \<in>
     set (services (snd (reload_services calm_os [sample_def ''db'' Always, sample_def ''web'' Always]
       (sample_sup [(7, sample_entry (sample_def ''db'' Always)), (8, sample_entry (sample_def ''web'' Never))]))))"
proof -
  let ?s = "sample_sup [(7, sample_entry (sample_def ''db'' Always)), (8, sample_entry (sample_def ''web'' Never))]"
  let ?new = "[sample_def ''db'' Always, sample_def ''web'' Always]"
  have "(7, sample_entry (sample_def ''db'' Always)) \<in> unchanged ?new (services ?s)"
    by (simp add: unchanged_def)
  moreover have "fresh_from calm_os (ev ?s) (fst ` unchanged ?new (services ?s))"
    by (rule calm_fresh_from) (auto simp: unchanged_def)
  ultimately show ?thesis
    using reload_spares_unchanged [of ?s ?new calm_os] unfolding kept_def by auto
qed

text \<open>
  C5. A reload converges: when no spawn fails and pids are not reused, the services
  running afterwards are exactly those of the new list, each under the new definition. This is the
  abstract specification of \<open>reload_services\<close>: the set of running names becomes the set of names
  asked for. When the table had at most one entry per service, it still has, and the reload is idempotent:
  reading the same list again reports nothing and does nothing at all.
\<close>

theorem reload_reaches_config:
  fixes s :: "'a supervisor_scheme"
  assumes "spawns_succeed os" and "pids_unique os"
    and "distinct (keys (services s))" and "distinct (map sd_name new)"
    and "fresh_from os (ev s) (set (keys (services s)))"
  defines "s' \<equiv> snd (reload_services os new s)"
  shows "set (running_names s') = sd_name ` set new \<and>
    (\<forall>d \<in> set new. \<exists>e \<in> set (services s'). sd_name (sv_def (snd e)) = sd_name d \<and> defs_equal (sv_def (snd e)) d) \<and>
    (once_each (services s) \<longrightarrow> once_each (services s') \<and> reload_services os new s' = ([], s'))"
  unfolding s'_def using reload_converges [OF assms(1-5)] reload_idempotent [OF assms(1-5)] by simp

theorem reload_reaches_config_witness:
  "set (running_names (snd (reload_services calm_os [sample_def ''web'' Always]
     (sample_sup [(7, sample_entry (sample_def ''db'' Always)), (8, sample_entry (sample_def ''web'' Never))])))) =
     {''web''}"
  using reload_reaches_config [of calm_os
      "sample_sup [(7, sample_entry (sample_def ''db'' Always)), (8, sample_entry (sample_def ''web'' Never))]"
      "[sample_def ''web'' Always]"]
  by (simp add: calm_spawns_succeed calm_pids_unique calm_fresh_from)

text \<open>
  The names a reload reports, for the watch of \<open>src/rollback.rs\<close>, are exactly
  those of the new definitions that were not running up to date, in the order of the list.
\<close>

lemma reload_reports_touched:
  fixes s :: "'a supervisor_scheme"
  assumes "distinct (keys (services s))" and "distinct (map sd_name new)"
    and "''shell'' \<notin> sd_name ` set new \<or> spawns_succeed os" and "fresh_from os (ev s) (set (keys (services s)))"
  shows "fst (reload_services os new s) = map sd_name (filter (\<lambda>d. \<not> up_to_date (services s) d) new)"
  by (rule reload_touched [OF assms])

subsection \<open>Boot\<close>

definition sample_web :: service_def where
  "sample_web = (sample_def ''web'' Always)\<lparr>sd_requires := [''db'']\<rparr>"

lemma sample_web_simps [simp]: "sd_name sample_web = ''web''" "sd_requires sample_web = [''db'']"
  by (simp_all add: sample_web_def)

lemma sample_boot_order: "snd (topological_order (effective_after [sample_web, sample_def ''db'' Always])) = []"
  by code_simp

lemma sample_acyclic: "acyclic (dep_rel (effective_after [sample_web, sample_def ''db'' Always]))"
  by (rule no_rest_acyclic) (simp_all add: sample_boot_order effective_after_names)

text \<open>
  C28. The start order is a permutation of the definitions given: a cycle
  neither drops a service nor starts one twice. A cycle is reported exactly when the \<open>after\<close>
  relation between the configured names has one.
\<close>

theorem start_order_complete:
  assumes "distinct (map sd_name defs)"
  shows "mset (fst (topological_order defs)) = mset defs \<and>
    (snd (topological_order defs) = [] \<longleftrightarrow> acyclic (dep_rel defs))"
proof
  show "mset (fst (topological_order defs)) = mset defs"
    by (rule topological_order_parts [of defs]) simp
  show "snd (topological_order defs) = [] \<longleftrightarrow> acyclic (dep_rel defs)"
    by (rule no_rest_iff [OF assms])
qed

theorem start_order_complete_witness:
  "acyclic (dep_rel (effective_after [sample_web, sample_def ''db'' Always]))"
  using start_order_complete [of "effective_after [sample_web, sample_def ''db'' Always]"]
  by (simp add: sample_boot_order effective_after_names)

text \<open>
  C12. Without a reported cycle, each service is started after every configured
  service it names in \<open>after=\<close>, \<open>requires=\<close> or \<open>wants=\<close> and after every service that names it
  in \<open>before=\<close>.
\<close>

theorem dependencies_start_first:
  assumes "distinct (map sd_name defs)"
    and "snd (topological_order (effective_after defs)) = []"
    and "d \<in> set defs" and "dep \<in> ordering_deps defs d" and "dep \<in> sd_name ` set defs"
  shows "\<exists>as bs. map sd_name (fst (topological_order (effective_after defs))) = as @ sd_name d # bs \<and>
    dep \<in> set as"
  by (rule boot_order [OF assms])

theorem dependencies_start_first_witness:
  "\<exists>as bs. map sd_name (fst (topological_order (effective_after [sample_web, sample_def ''db'' Always]))) =
     as @ ''web'' # bs \<and> ''db'' \<in> set as"
  using dependencies_start_first [of "[sample_web, sample_def ''db'' Always]" sample_web "''db''"]
  by (simp add: sample_boot_order ordering_deps_def)

text \<open>
  C27. When no spawn fails, pids are not reused and there is no dependency
  cycle, then after \<open>spawn_all\<close> the table holds exactly the configured services, in the start order, each
  under its effective definition, whatever the readiness waits did.
\<close>

theorem boot_starts_everything:
  fixes s :: "'a supervisor_scheme"
  assumes "spawns_succeed os" and "pids_unique os" and "services s = []"
    and "distinct (map sd_name defs)" and "acyclic (dep_rel (effective_after defs))"
  shows "running_defs (spawn_all os defs s) = fst (topological_order (effective_after defs)) \<and>
    set (running_names (spawn_all os defs s)) = sd_name ` set defs"
  using spawn_all_table(1) [OF assms(1-4) acyclic_no_rest [OF assms(5)]]
    spawn_all_runs [OF assms(1-4) acyclic_no_rest [OF assms(5)]] by blast

theorem boot_starts_everything_witness:
  "set (running_names (spawn_all calm_os [sample_web, sample_def ''db'' Always] (sample_sup []))) = {''web'', ''db''}"
  using boot_starts_everything [of calm_os "sample_sup []" "[sample_web, sample_def ''db'' Always]"]
  by (simp add: calm_spawns_succeed calm_pids_unique sample_acyclic)

text \<open>
  C6. A reload right after such a boot, of the very same definitions, does not leave all services alone:
  the boot put the effective definitions into the table, the reload compares them with the configured
  ones, and so it restarts exactly the services whose \<open>after\<close> does not already list everything that
  \<open>requires=\<close>, \<open>wants=\<close> and the \<open>before=\<close> of others make them wait for.
\<close>

theorem unchanged_reload_restarts:
  fixes s :: "'a supervisor_scheme"
  assumes "spawns_succeed os" and "pids_unique os" and "services s = []"
    and "distinct (map sd_name defs)" and "acyclic (dep_rel (effective_after defs))"
  shows "fst (reload_services os defs (spawn_all os defs s)) =
    map sd_name (filter (\<lambda>d. \<not> ordering_deps defs d \<subseteq> set (sd_after d)) defs)"
  by (rule unchanged_reload_touches [OF assms(1-4) acyclic_no_rest [OF assms(5)]])

theorem unchanged_reload_restarts_witness:
  "fst (reload_services calm_os [sample_web, sample_def ''db'' Always]
     (spawn_all calm_os [sample_web, sample_def ''db'' Always] (sample_sup []))) = [''web'']"
proof -
  have lists: "sd_after sample_web = []" "sd_before sample_web = []" "sd_before (sample_def ''db'' Always) = []"
    "sd_wants (sample_def ''db'' Always) = []" by (simp_all add: sample_web_def sample_def_def service_def_default_def)
  have "{sd_name e | e. e \<in> set [sample_web, sample_def ''db'' Always] \<and> x \<in> set (sd_before e)} = {}" for x
    by (auto simp: lists)
  then show ?thesis
    using unchanged_reload_restarts [of calm_os "sample_sup []" "[sample_web, sample_def ''db'' Always]"]
    by (simp add: calm_spawns_succeed calm_pids_unique sample_acyclic ordering_deps_def lists)
qed

text \<open>
  C26. A hard dependency is enforced whatever fails: after the boot, a running service
  (other than the rescue shell, which carries a fixed name) has all its configured \<open>requires=\<close>
  names running too.
\<close>

theorem requires_enforced:
  fixes s :: "'a supervisor_scheme"
  assumes "services s = []" and "pids_unique os" and "distinct (map sd_name defs)"
    and "d \<in> set defs" and "sd_name d \<in> set (running_names (spawn_all os defs s))" and "sd_name d \<noteq> ''shell''"
    and "r \<in> set (sd_requires d)" and "r \<in> sd_name ` set defs"
  shows "r \<in> set (running_names (spawn_all os defs s))"
  by (rule spawn_all_requires_running [OF assms])

theorem requires_enforced_witness:
  "''db'' \<in> set (running_names (spawn_all calm_os [sample_web, sample_def ''db'' Always] (sample_sup [])))"
proof -
  have "''web'' \<in> set (running_names (spawn_all calm_os [sample_web, sample_def ''db'' Always] (sample_sup [])))"
    using spawn_all_runs [of calm_os "sample_sup []" "[sample_web, sample_def ''db'' Always]"]
    by (simp add: calm_spawns_succeed calm_pids_unique sample_boot_order)
  then show ?thesis
    using requires_enforced [of "sample_sup []" calm_os "[sample_web, sample_def ''db'' Always]" sample_web "''db''"]
    by (simp add: calm_pids_unique)
qed

end
