(* ===== verification/Stop_Properties.thy ===== *)
theory Stop_Properties
  imports Rollback Boot Samples
begin

text \<open>
  The properties of stopping services one by one, of the shutdown and of the rollback
  (\<open>src/supervisor.rs\<close>, \<open>src/rollback.rs\<close>).
\<close>

subsection \<open>Stopping one service\<close>

text \<open>
  C31. Everything \<open>stop_one\<close> does to a process, in order: SIGTERM; non-blocking waits for
  that pid only; SIGKILL exactly when no wait has seen it end, and then not before the grace period
  is over; the sweep of its cgroup.
\<close>

theorem stop_one_escalates:
  fixes s :: "'a supervisor_scheme"
  shows "\<exists>ws k fs.
    trace (stop_one os p who s) = trace s @ Kill p SIGTERM # map (Wait p True) ws @ k @
       Fs (Write_file (path_join (dir_under CGROUP_ROOT who) ''cgroup.kill'') ''1'') # map Fs fs \<and>
    (k = [] \<and> ws \<noteq> [] \<and> wait_ends_stop (last ws) \<or>
     k = [Kill p SIGKILL] \<and> (\<forall>w \<in> set ws. \<not> wait_ends_stop w) \<and>
       clock s + stop_grace \<le> clock (stop_one os p who s))"
  by (rule stop_one_events [of os p who s]) blast

theorem stop_one_escalates_witness:
  "\<exists>ws k fs. trace (stop_one calm_os 7 ''db'' (sample_sup [])) =
     Kill 7 SIGTERM # map (Wait 7 True) ws @ k @
       Fs (Write_file (path_join (dir_under CGROUP_ROOT ''db'') ''cgroup.kill'') ''1'') # map Fs fs"
  using stop_one_escalates [of calm_os 7 "''db''" "sample_sup []"] unfolding sample_simps append_Nil by blast

subsection \<open>Shutdown\<close>

text \<open>
  C13. What a completed shutdown did, in order: SIGTERM to every service; a wait for any
  child, repeated; SIGKILL to exactly the services no wait reported as ended; the sweep of the
  cgroup of every service that was running, reaped or not, among file operations only.
\<close>

theorem shutdown_order:
  fixes s :: "'a supervisor_scheme"
  assumes "shutdown_all os grace s = Some (Ret u)"
  shows "\<exists>ws es.
    trace u = trace s @ map (\<lambda>p. Kill p SIGTERM) (keys (services s)) @ map (Wait (- 1) True) ws @
       map (\<lambda>p. Kill p SIGKILL) (filter (\<lambda>p. p \<notin> set (reaped_pids ws)) (keys (services s))) @ es \<and>
    sweep_event ` set (running_names s) \<subseteq> set es \<and> (\<forall>e \<in> set es. housekeeping e)"
  by (rule shutdown_all_events [OF assms]) blast

theorem shutdown_order_witness:
  "\<exists>u ws es. shutdown_all calm_os 10 (sample_sup [(7, sample_entry (sample_def ''db'' Always))]) = Some (Ret u) \<and>
     trace u = Kill 7 SIGTERM # map (Wait (- 1) True) ws @
       map (\<lambda>p. Kill p SIGKILL) (filter (\<lambda>p. p \<notin> set (reaped_pids ws)) [7]) @ es \<and>
     sweep_event ''db'' \<in> set es"
proof -
  let ?s = "sample_sup [(7, sample_entry (sample_def ''db'' Always))]"
  obtain u where u: "shutdown_all calm_os 10 ?s = Some (Ret u)"
    using shutdown_all_returns [of calm_os ?s 10] by (auto simp: calm_clock_advances)
  obtain ws es where
    "trace u = trace ?s @ map (\<lambda>p. Kill p SIGTERM) (keys (services ?s)) @ map (Wait (- 1) True) ws @
       map (\<lambda>p. Kill p SIGKILL) (filter (\<lambda>p. p \<notin> set (reaped_pids ws)) (keys (services ?s))) @ es"
    "sweep_event ` set (running_names ?s) \<subseteq> set es"
    using shutdown_order [OF u] by blast
  then show ?thesis
    using u by (intro exI [of _ u] exI [of _ ws] exI [of _ es]) (simp add: running_names_def)
qed

text \<open>
  C30. A shutdown returns, whatever the waits report: on a clock that moves between
  two interactions, and with a grace period that does not overflow the clock's range, the loop ends
  (at the latest at the deadline).
\<close>

theorem shutdown_returns:
  fixes s :: "'a supervisor_scheme"
  assumes "clock_advances os"
    and "clock s + os_tick os (ev s + length (services s)) + grace < 2 ^ 63 * nanos_per_sec"
  shows "\<exists>u. shutdown_all os grace s = Some (Ret u)"
  by (rule shutdown_all_returns [OF assms])

theorem shutdown_returns_witness: "\<exists>u. shutdown_all calm_os (from_secs 5) (sample_sup []) = Some (Ret u)"
  using shutdown_returns [of calm_os "sample_sup []" "from_secs 5"]
  by (simp add: calm_clock_advances from_secs_def)

subsection \<open>Rollback\<close>

text \<open>
  The three outcomes of the watch: it rolls back exactly when the reported failure
  is one of a touched service (even after the deadline), confirms the new configuration when
  the deadline has passed, and otherwise keeps watching; only a rollback changes a service.
\<close>

lemma watch_decides:
  fixes os :: os and cfg :: config and w :: watch and failed :: "string option" and s :: "'a supervisor_scheme"
  defines "failed_touched \<equiv> \<lambda>f. (case f of None \<Rightarrow> False | Some who \<Rightarrow> watch_touched w who)"
    and "r \<equiv> rollback_check os cfg w failed s"
  shows "(if failed_touched failed
     then r = (None, w_previous w, roll_back os w (the failed) s)
     else fst (snd r) = cfg \<and> services (snd (snd r)) = services s \<and>
       fst r = (if fst (now os s) < w_deadline w then Some w else None))"
proof (cases failed)
  case None
  then show ?thesis
    by (simp add: failed_touched_def r_def rollback_check_def watch_active_def frame split_def Let_def)
next
  case (Some who)
  then show ?thesis
    by (simp add: failed_touched_def r_def rollback_check_def watch_active_def frame split_def Let_def)
qed




end
