(* ===== verification/Launch_Properties.thy ===== *)
theory Launch_Properties
  imports Main_Facts Samples
begin

text \<open>
  The properties of launched applications and their sandbox (\<open>src/apps.rs\<close>, \<open>src/sandbox.rs\<close>,
  \<open>src/seccomp.rs\<close>), of timers (\<open>src/timers.rs\<close>) and of the requests a client can make
  (\<open>src/ipc.rs\<close>, \<open>src/bin/mitosctl.rs\<close>).
\<close>

subsection \<open>The system call filter\<close>

text \<open>
  C17. The filter program, run by any machine with the documented semantics of the three
  instructions it uses: a call through another architecture kills the process, a call on the deny
  list fails with \<open>EPERM\<close>, every other call is allowed; the verdict never depends on the initial
  accumulator, and the program is short enough for its length to survive the cast to \<open>u16\<close>.
\<close>

theorem filter_verdict:
  assumes "bpf_semantics run"
  shows "run build_program nr arch a =
      Some (if arch \<noteq> AUDIT_ARCH_X86_64 then SECCOMP_RET_KILL_PROCESS
            else if nr \<in> set BLOCKED_SYSCALLS then SECCOMP_RET_ERRNO OR 1
            else SECCOMP_RET_ALLOW) \<and>
    unat (of_nat (length build_program) :: u16) = length build_program"
  using run_build_program [OF assms, of nr arch a] build_program_len_u16 by (simp add: verdict_def)

theorem filter_verdict_witness:
  "reference_bpf build_program 165 0xC000003E 0 = Some 0x00050001 \<and>
   reference_bpf build_program 0 0xC000003E 0 = Some 0x7fff0000 \<and>
   reference_bpf build_program 0 0x40000003 0 = Some 0x80000000"
  using filter_verdict [OF reference_bpf_semantics, of 165 "0xC000003E" 0]
    filter_verdict [OF reference_bpf_semantics, of 0 "0xC000003E" 0]
    filter_verdict [OF reference_bpf_semantics, of 0 "0x40000003" 0]
  by (simp add: AUDIT_ARCH_X86_64_def BLOCKED_SYSCALLS_def SECCOMP_RET_ERRNO_def SECCOMP_RET_ALLOW_def
      SECCOMP_RET_KILL_PROCESS_def)

subsection \<open>Launching\<close>






text \<open>
  C36. A launch that the permission daemon answers with anything but \<open>ALLOW\<close> is refused, and
  it leaves no mark on the system: nothing is spawned, no cgroup made, no identifier used up. Only
  an answer can deny: every failure to get one (no socket, a failed write, a read that fails or
  times out) permits the launch.
\<close>

theorem denied_launch_inert:
  assumes "h_read h (ev s) path = Inr bytes"
    and "h_daemon h (Suc (ev s)) (''CHECK '' @ concat (map hex_byte (h_sha256 h bytes)) @ '' app_launch'' @ [nl]) = Reply answer"
    and "trim answer \<noteq> ''ALLOW''"
  shows "(\<exists>e. fst (launch os h path args a s) = Inl e) \<and> fst (snd (launch os h path args a s)) = a \<and>
    trace (snd (snd (launch os h path args a s))) = trace s \<and>
    (\<forall>lost \<in> {No_socket, Write_failed, Read_failed}. fst (authorize os path lost s) = None)"
  using denied_launch [OF assms] by (simp add: authorize_def)

theorem denied_launch_inert_witness:
  "fst (snd (launch calm_os (sample_host ''ASK'') ''/bin/ed'' [] apps_init (sample_sup []))) = apps_init"
  using denied_launch_inert [of "sample_host ''ASK''" "sample_sup []" "''/bin/ed''" "[1, 2]" "''ASK''" calm_os "[]" apps_init]
  by (simp add: trim_no_ws is_ws_def code_def)

text \<open>
  The identifiers of two launches of one process lifetime are different, whatever the wall
  clock did, as long as fewer than \<open>2 ^ 64\<close> launches lie between them.
\<close>

lemma app_ids_unique:
  assumes "0 < k" and "k < 2 ^ 64"
  shows "fst (next_id h a s) \<noteq> fst (next_id h (a\<lparr>next_seq := next_seq a + of_nat k\<rparr>) s')"
proof -
  have "(of_nat k :: u64) \<noteq> 0" using assms by (simp add: word_unat_eq_iff unat_of_nat)
  then show ?thesis by (auto simp: next_id_def Let_def app_id_inj)
qed

subsection \<open>Sandboxed services\<close>



text \<open>
  When the watchdog calls a service expired, told from the datagrams received since its start
  only: its time-out has passed since the last \<open>WATCHDOG=1\<close> that arrived through its own socket,
  or since its start when none did. Datagrams for other services, and any state left by an
  earlier instance of it, do not matter.
\<close>

lemma watchdog_verdict:
  assumes "sd_watchdog_timeout (sv_def sv) = Some timeout"
  shows "watchdog_expired t (receive_all ds (forget (sd_name (sv_def sv)) rs)) sv \<longleftrightarrow>
    timeout < t - (case last_heard (sd_name (sv_def sv)) None ds of None \<Rightarrow> started_at sv | Some p \<Rightarrow> p)"
  by (rule watchdog_expired_history [OF assms])

subsection \<open>Timers\<close>

lemma due_schedule:
  assumes "is_due t td ts = Some True"
  shows "\<exists>d. (case tm_last_finished ts (td_name td) of
      Some finished \<Rightarrow> td_on_active td = Some d \<and> finished + d \<le> t
    | None \<Rightarrow> (td_on_boot td = Some d \<or> td_on_boot td = None \<and> td_on_active td = Some d) \<and> tm_boot_time ts + d \<le> t)"
  using assms by (auto simp: is_due_def due_at_def instant_add_def split: option.splits if_splits)

text \<open>
  C25. A round of timers never starts a second run of a timer whose run is not over: afterwards
  the pending runs still belong to different timers under different pids, \<open>tm_running\<close> is exactly
  their set, and every run pending before is pending still. Each new run belongs to a configured
  timer, and it starts on schedule: no earlier than \<open>OnUnitActiveSec\<close> after the end of the last
  run (so a timer with \<open>OnBootSec\<close> only never runs again), or, for the first run, no earlier than
  the delay after the boot instant.
\<close>

theorem timers_on_schedule:
  assumes "pids_unique os" and "timers_ok ts" and "fresh_from os (ev s) (timer_pids ts)"
    and "distinct (map td_name timers)" and "timers_tick os timers defs ts s = Ret (ts', s')"
  shows "timers_ok ts' \<and> set (tm_pending ts) \<subseteq> set (tm_pending ts') \<and>
    (\<forall>n \<in> set (vals (tm_pending ts')) - set (vals (tm_pending ts)).
       \<exists>td \<in> set timers. \<exists>t d. td_name td = n \<and> clock s \<le> t \<and> t \<le> clock s' \<and>
         (case tm_last_finished ts n of
            Some finished \<Rightarrow> td_on_active td = Some d \<and> finished + d \<le> t
          | None \<Rightarrow> (td_on_boot td = Some d \<or> td_on_boot td = None \<and> td_on_active td = Some d) \<and>
              tm_boot_time (fst (timers_state os ts s)) + d \<le> t))"
proof -
  note spec = timers_tick_spec [OF assms]
  have "\<exists>td \<in> set timers. \<exists>t d. td_name td = n \<and> clock s \<le> t \<and> t \<le> clock s' \<and>
      (case tm_last_finished ts n of
         Some finished \<Rightarrow> td_on_active td = Some d \<and> finished + d \<le> t
       | None \<Rightarrow> (td_on_boot td = Some d \<or> td_on_boot td = None \<and> td_on_active td = Some d) \<and>
           tm_boot_time (fst (timers_state os ts s)) + d \<le> t)"
    if "n \<in> set (vals (tm_pending ts')) - set (vals (tm_pending ts))" for n
  proof -
    from spec that obtain td t where td: "td \<in> set timers" "td_name td = n" "clock s \<le> t" "t \<le> clock s'"
      "is_due t td (fst (timers_state os ts s)) = Some True" by blast
    from due_schedule [OF td(5)] td(1-4) show ?thesis by (auto simp: timers_state_same)
  qed
  with spec show ?thesis by blast
qed

definition sample_timer :: timer_def where
  "sample_timer = \<lparr>td_name = ''backup'', td_on_boot = Some 0, td_on_active = Some 50\<rparr>"

theorem timers_on_schedule_witness:
  "\<exists>ts' s'. timers_tick calm_os [sample_timer] [sample_def ''backup'' Never] timer_state_init (sample_sup []) = Ret (ts', s') \<and>
     timers_ok ts'"
proof -
  obtain r where r: "timers_tick calm_os [sample_timer] [sample_def ''backup'' Never] timer_state_init (sample_sup []) = r"
    by blast
  then obtain ts' s' where "timers_tick calm_os [sample_timer] [sample_def ''backup'' Never] timer_state_init (sample_sup []) = Ret (ts', s')"
    by (cases r)
      (auto simp: timers_tick_def timers_state_def timer_state_init_def now_def is_due_def due_at_def tm_boot_time_def
        instant_add_def sample_timer_def Let_def split: option.splits prod.splits)
  with timers_on_schedule [OF calm_pids_unique timers_ok_init _ _ this] show ?thesis
    by (auto simp: timer_pids_def timer_state_init_def fresh_from_def)
qed

subsection \<open>Requests\<close>

text \<open>
  C34. What \<open>mitosctl\<close> is asked for is what the daemon receives. A launch of a path and
  arguments that are non-empty words is parsed back to exactly them; the target of an isolate is left,
  trimmed, for the main loop to take; reload and status raise the flags of SIGUSR1 and SIGUSR2;
  \<open>mitosctl\<close> alone means status. When the listener is idle and serves the connection, \<open>mitosctl targets\<close>
  prints what the main loop last published, \<open>mitosctl ping\<close> prints PONG, and both exit with 0.
\<close>

theorem client_requests_arrive:
  fixes os :: os and h :: host and m :: machine
  assumes "is_token path" and "\<forall>x \<in> set args. is_token x"
    and "target \<noteq> []" and "\<not> is_ws (hd target)" and "\<not> is_ws (last target)"
  defines "server \<equiv> \<lambda>text. Received_text (last (m_replies (ipc_connection os h (Line text) m)))"
  shows "ipc_request (mitosctl_line up (''launch'' # path # args) @ [nl]) i = (Launch_app path args, i) \<and>
    fst (take_pending_isolate (snd (ipc_request (mitosctl_line up [''isolate'', target] @ [nl]) i))) = Some target \<and>
    snd (ipc_request (mitosctl_line up [''reload''] @ [nl]) i) = set_flag (on_signal (signal_number SIGUSR1)) i \<and>
    snd (ipc_request (mitosctl_line up [''status''] @ [nl]) i) = set_flag (on_signal (signal_number SIGUSR2)) i \<and>
    mitosctl_line up [] = mitosctl_line up [''status''] \<and>
    mitosctl_main up [''targets''] server =
      \<lparr>cx_code = 0, cx_stdout = targets_response (m_ipc m), cx_stderr = []\<rparr> \<and>
    mitosctl_main up [''ping''] server = \<lparr>cx_code = 0, cx_stdout = ''PONG'' @ [nl], cx_stderr = []\<rparr>"
  unfolding bare_request(1,2) snd_conv take_pending_isolate_def fst_conv
  using launch_request [OF assms(1,2), of up i] isolate_request [OF assms(3-5), of up i] bare_request(3)
    query_request [of up "m_ipc m"]
  by (simp add: server_def mitosctl_main_def ipc_connection_def ipc_accept_def reply_def)

theorem client_requests_arrive_witness:
  "ipc_request (mitosctl_line (\<lambda>c. [c]) [''launch'', ''/bin/ed'', ''-v''] @ [nl]) ipc_init =
     (Launch_app ''/bin/ed'' [''-v''], ipc_init)"
  by (rule client_requests_arrive [of _ "[''-v'']" "''rescue''", THEN conjunct1])
    (simp_all add: is_token_def is_ws_def code_def)

text \<open>
  The wait for a fresh status ends, in one of two ways: with a text the main loop published
  under a version other than the one of the snapshot, or with the time-out message, and then not
  before the time-out has passed.
\<close>

lemma status_wait_ends:
  fixes os :: os and cell :: "nat \<Rightarrow> u64 \<times> string" and timeout :: duration and s :: "'a kernel_scheme"
  defines "r \<equiv> wait_for_fresh_status os cell timeout s"
  shows "(\<exists>n version body. ev s < n \<and> cell n = (version, body) \<and> version \<noteq> fst (cell (ev s)) \<and> fst r = body @ [nl]) \<or>
    fst r = ''status request timed out'' @ [nl] \<and> clock s + timeout \<le> clock (snd r)"
proof -
  obtain t u where n: "now os (s\<lparr>ev := Suc (ev s)\<rparr>) = (t, u)" by fastforce
  then have u: "ev u = Suc (Suc (ev s))" "clock s \<le> t" by (auto simp: now_def Let_def)
  have r: "r = status_loop os cell (fst (cell (ev s))) (t + timeout) u"
    by (simp add: r_def wait_for_fresh_status_def n Let_def)
  from status_loop_result [of u cell "fst (cell (ev s))" os "t + timeout"] show ?thesis
  proof (elim disjE exE conjE)
    fix n version body
    assume "ev u \<le> n" "cell n = (version, body)" "version \<noteq> fst (cell (ev s))"
      "fst (status_loop os cell (fst (cell (ev s))) (t + timeout) u) = body @ [nl]"
    moreover from this(1) u(1) have "ev s < n" by simp
    ultimately show ?thesis unfolding r by blast
  next
    assume "fst (status_loop os cell (fst (cell (ev s))) (t + timeout) u) = ''status request timed out'' @ [nl]"
      "t + timeout \<le> clock (snd (status_loop os cell (fst (cell (ev s))) (t + timeout) u))"
    moreover from this(2) u(2)
    have "clock s + timeout \<le> clock (snd (status_loop os cell (fst (cell (ev s))) (t + timeout) u))" by linarith
    ultimately show ?thesis unfolding r by blast
  qed
qed

end
