(* ===== verification/File_Properties.thy ===== *)
theory File_Properties
  imports Unit_Facts Oom Samples
begin

text \<open>
  The properties of the parsers and of the buffers: \<open>src/cgroups.rs\<close> (sizes), \<open>src/config.rs\<close>,
  \<open>src/units.rs\<close>, \<open>src/timers.rs\<close> (files), \<open>src/targets.rs\<close>, \<open>src/users.rs\<close>, \<open>src/oom.rs\<close>
  and \<open>src/journal.rs\<close>. The printers are the inverse direction, written for the round trips.
\<close>

subsection \<open>Configuration files\<close>

text \<open>
  C19. The \<open>init.conf\<close> parser inverts a printer: a configuration whose names and values contain no
  white space or quotes (nor commas inside list items) is read back from its text unchanged, with every
  one of the twenty fields of every service, and without a warning.
\<close>

theorem config_round_trip:
  assumes "printable_config host cfg"
  shows "config_parse (show_config host cfg) = (cfg, [])"
  by (rule config_parse_show [OF assms])

lemma sample_printable: "printable (sample_def ''db'' r)"
  by (simp add: printable_def sample_def_def service_def_default_def whole_secs_def printable_env_def
      DEFAULT_TARGET_def is_ws_def code_def dquote_def)

theorem config_round_trip_witness:
  "config_parse (show_config ''box'' (config_default\<lparr>cfg_hostname := Some ''box'', cfg_services := [sample_def ''db'' Always]\<rparr>)) =
     (config_default\<lparr>cfg_hostname := Some ''box'', cfg_services := [sample_def ''db'' Always]\<rparr>, [])"
  by (rule config_round_trip)
    (simp add: printable_config_def sample_printable line_value_def config_default_def DEFAULT_TARGET_def
      is_ws_def code_def dquote_def nl_def cr_def)

text \<open>
  C20. The parsers of the drop-in files invert printers in the same way, the name coming from the
  file's stem: of service units, without a warning, and of timer files with at least one of the two
  delays in whole seconds.
\<close>

theorem drop_in_round_trip:
  assumes "printable d" and "sd_path d \<noteq> []" and "file_stem path = Some (sd_name d)"
    and "file_stem path' = Some (td_name t)" and "td_on_boot t \<noteq> None \<or> td_on_active t \<noteq> None"
    and "whole_secs (td_on_boot t)" and "whole_secs (td_on_active t)"
  shows "parse_unit path (show_unit d) = (Inr d, []) \<and>
    parse_timer path' (section_text ''Timer'' (timer_fields t)) = Inr t"
  by (intro conjI parse_unit_show parse_timer_show assms)

theorem drop_in_round_trip_witness:
  "parse_unit ''/etc/mitos/services.d/db.service'' (show_unit (sample_def ''db'' OnFailure)) =
     (Inr (sample_def ''db'' OnFailure), []) \<and>
   parse_timer ''/etc/mitos/services.d/backup.timer''
     (section_text ''Timer'' (timer_fields \<lparr>td_name = ''backup'', td_on_boot = Some (from_secs 60), td_on_active = None\<rparr>)) =
     Inr \<lparr>td_name = ''backup'', td_on_boot = Some (from_secs 60), td_on_active = None\<rparr>"
proof (rule drop_in_round_trip)
  show "file_stem ''/etc/mitos/services.d/db.service'' = Some (sd_name (sample_def ''db'' OnFailure))"
    unfolding sample_simps by code_simp
  show "sd_path (sample_def ''db'' OnFailure) \<noteq> []" by (simp add: sample_def_def)
  show "file_stem ''/etc/mitos/services.d/backup.timer'' =
      Some (td_name \<lparr>td_name = ''backup'', td_on_boot = Some (from_secs 60), td_on_active = None\<rparr>)"
    unfolding timer_def.simps by code_simp
qed (simp_all add: whole_secs_def from_secs_def sample_printable)

text \<open>
  Whatever the file holds, the parser returns at least one service (the built-in shell when no
  service line is valid), so the boot target of the default configuration is never empty.
\<close>

lemma config_never_empty: "cfg_services (fst (config_parse contents)) \<noteq> []"
  by (rule config_parse_nonempty)

text \<open>
  Merging the drop-in units into the configured services keeps every configured service, in
  place, and appends exactly the first unit of each name not configured; each unit dropped is reported
  in one warning. Names that were distinct stay so.
\<close>

lemma merge_keeps_first:
  "fst (merge_services base extra) = base @ first_named (sd_name ` set base) extra \<and>
   length (snd (merge_services base extra)) + length (fst (merge_services base extra)) = length base + length extra \<and>
   distinct (map sd_name (first_named (sd_name ` set base) extra)) \<and>
   sd_name ` set (fst (merge_services base extra)) = sd_name ` set base \<union> sd_name ` set extra"
  using first_named_distinct [of "sd_name ` set base" extra] merge_services_warnings [of base extra]
  by (auto simp: merge_services_spec)

text \<open>
  The list of targets is sorted, has no duplicates and names exactly the targets of the configured
  services; a target on the list always has a service to run.
\<close>

lemma targets_complete:
  "sorted (targets_list all) \<and> distinct (targets_list all) \<and> set (targets_list all) = sd_target ` set all \<and>
   (\<forall>t. services_in all t \<noteq> [] \<longleftrightarrow> t \<in> set (targets_list all))"
  using targets_list_facts [of all] services_in_nonempty_iff [of all] by auto

subsection \<open>Sizes and ids\<close>

text \<open>
  C37. A printed size with any of the units \<open>parse_size\<close> knows is read as the number times its factor,
  modulo \<open>2 ^ 64\<close>: exact when the product fits, and silently wrapped around when it does not.
\<close>

theorem size_parsing:
  "parse_size (show_size w u) = Some (w * of_nat (unit_factor u)) \<and>
   (unat w * unit_factor u < 2 ^ 64 \<longrightarrow>
      map_option unat (parse_size (show_size w u)) = Some (unat w * unit_factor u))"
  by (intro conjI impI parse_size_wraps parse_size_exact)

theorem size_parsing_witness:
  "map_option unat (parse_size (show_size 512 UMi)) = Some (512 * 2 ^ 20) \<and>
   parse_size (show_size 17592186044416 UM) = Some 0"
  using size_parsing [of 512 UMi] size_parsing [of 17592186044416 UM] by simp

text \<open>
  Resolving a \<open>user=\<close> or \<open>group=\<close> name in the text of the database finds the id field of the first
  line whose first field is the name, wherever that line stands; a number is taken as it is and the
  database is not read.
\<close>

lemma user_lookup:
  fixes s :: "'a kernel_scheme"
  assumes "no_colon who" and "no_colon pw" and "\<forall>x \<in> set rest. no_colon x"
    and "\<forall>l \<in> set earlier. hd (split_on CHR '':'' l) \<noteq> who" and "parse_u32 spec = Some k"
  shows "resolve_lines (earlier @ db_line who pw n rest # later) who 2 = Some n \<and>
    resolve_uid os spec s = (Some k, s) \<and> resolve_gid os spec s = (Some k, s)"
  using resolve_db_line [OF assms(1-3)] resolve_lines_skip [OF assms(4)] resolve_numeric [OF assms(5)] by simp

subsection \<open>Memory pressure and the journal\<close>

text \<open>
  A well-formed pressure file is read as its two \<open>avg10\<close> values, and not at all when one of them
  is no number; whatever the file holds, a round of the monitor does nothing to the system but write
  to the log.
\<close>

lemma pressure_parsing:
  fixes s :: "'a kernel_scheme"
  assumes "no_space x" and "no_space y" and "\<forall>v \<in> set xs \<union> set ys. no_space v"
  shows "parse_pressure F (psi_line ''some'' x xs @ [nl] @ psi_line ''full'' y ys @ [nl]) =
      (case (f_parse F x, f_parse F y) of
         (Some a, Some b) \<Rightarrow> Some \<lparr>some_avg10 = a, full_avg10 = b\<rparr> | _ \<Rightarrow> None) \<and>
    trace (monitor_round F os s) = trace s \<and> kernel.more (monitor_round F os s) = kernel.more s"
proof -
  have "trace (monitor_round F os s) = trace s \<and> kernel.more (monitor_round F os s) = kernel.more s"
    unfolding monitor_round_def read_pressure_def read_to_string_def sleep_def Let_def
    by (simp split: option.split add: log_at_def)
  with parse_psi_file [OF assms] show ?thesis by simp
qed

text \<open>
  The journal implements its abstract specification, the last \<open>MAX_LINES\<close> lines recorded, in
  order: after any sequence of records it holds exactly those, and a filtered view shows exactly those
  of them that contain the filter.
\<close>

lemma journal_is_recent_history:
  "fold record_line ls [] = last_n MAX_LINES ls \<and>
   recent filt (fold record_line ls []) = filter (\<lambda>l. filt = [] \<or> str_contains filt l) (last_n MAX_LINES ls)"
  using jn.fold_rec [of "[]" ls] by (simp add: recent_def)

end
