(* ===== verification/Shipped_Units.thy ===== *)
theory Shipped_Units
  imports Unit_Facts
begin

text \<open>
  What counts in a unit file: the lines below a \<open>[Service]\<close> header, and nothing else. Applied to two of
  the unit files the repository ships (\<open>etc/mitos/services.d\<close>), copied here line by line, it shows that the
  daemon does not read them the way they are meant: the one of the shell has a misspelt header and is
  refused, the one of the settings daemon has its dependencies in \<open>[Unit]\<close> and loses them.
\<close>

definition text_of :: "string list \<Rightarrow> string" where
  "text_of ls = concat (map (\<lambda>l. l @ [nl]) ls)"

lemma lines_text_of: "\<forall>l \<in> set ls. nl \<notin> set l \<and> cr \<notin> set l \<Longrightarrow> lines (text_of ls) = ls"
  unfolding text_of_def by (rule lines_concat)

text \<open>The lines below the headers with the wanted name; \<open>on\<close> tells whether the list starts below one.\<close>

fun section_body :: "string \<Rightarrow> bool \<Rightarrow> string list \<Rightarrow> string list" where
  "section_body wanted on [] = []"
| "section_body wanted on (l # ls) =
     (case section_header (trim l) of
        Some s \<Rightarrow> section_body wanted (s = wanted) ls
      | None \<Rightarrow> if on then l # section_body wanted on ls else section_body wanted on ls)"

lemma section_body_subset: "set (section_body wanted on ls) \<subseteq> set ls"
  by (induction wanted on ls rule: section_body.induct) (auto split: option.split)

lemma section_body_no_header: "l \<in> set (section_body wanted on ls) \<Longrightarrow> section_header (trim l) = None"
  by (induction wanted on ls rule: section_body.induct) (auto split: option.splits if_splits)

lemma header_not_skipped: "section_header l = Some s \<Longrightarrow> l \<noteq> [] \<and> \<not> starts_with ''#'' l \<and> \<not> starts_with '';'' l"
  by (auto simp: section_header_def strip_prefix_def starts_with_def split: if_splits option.splits)

lemma section_line_header:
  "section_header (trim l) = Some s \<Longrightarrow> section_line wanted handler l (sec, acc) = (s, acc)"
  using header_not_skipped [of "trim l" s] by (simp add: section_line_def Let_def)

lemma section_line_other:
  "section_header (trim l) = None \<Longrightarrow> sec \<noteq> wanted \<Longrightarrow> section_line wanted handler l (sec, acc) = (sec, acc)"
  by (simp add: section_line_def Let_def split: option.split)

lemma section_line_keeps:
  "section_header (trim l) = None \<Longrightarrow> fst (section_line wanted handler l (sec, acc)) = sec"
  by (simp add: section_line_def Let_def split: option.split)

lemma fold_section_body:
  "snd (fold (section_line wanted handler) ls (sec, acc)) =
   snd (fold (section_line wanted handler) (section_body wanted (sec = wanted) ls) (wanted, acc))"
proof (induction ls arbitrary: sec acc)
  case (Cons l ls)
  show ?case
  proof (cases "section_header (trim l)")
    case (Some s)
    then show ?thesis using Cons.IH [of s acc] by (simp add: section_line_header)
  next
    case None
    obtain acc' where step: "section_line wanted handler l (wanted, acc) = (wanted, acc')"
      using section_line_keeps [OF None, of wanted handler wanted acc]
      by (cases "section_line wanted handler l (wanted, acc)") simp
    show ?thesis
    proof (cases "sec = wanted")
      case True
      then show ?thesis using None Cons.IH [of wanted acc'] step by simp
    next
      case False
      then show ?thesis using None Cons.IH [of sec acc] by (simp add: section_line_other)
    qed
  qed
qed simp

lemma section_header_brackets: "section_header (trim (''['' @ w @ '']'')) = Some w"
  by (simp add: trim_id section_header_def strip_prefix_def strip_suffix_def starts_with_def is_ws_def code_def)

lemma section_line_bracket: "section_line wanted handler (CHR ''['' # w @ '']'') (sec, acc) = (w, acc)"
  using section_line_header [OF section_header_brackets [of w], of wanted handler sec acc] by simp

text \<open>The section loop on the lines that count alone, below one header.\<close>

lemma section_lines_body:
  assumes cr: "cr \<notin> set body" "cr \<notin> set wanted" "nl \<notin> set wanted"
  shows "section_lines wanted handler body acc =
    section_lines wanted handler (text_of ((''['' @ wanted @ '']'') # section_body wanted (wanted = []) (lines body))) acc"
proof -
  let ?h = "''['' @ wanted @ '']''"
  let ?b = "section_body wanted (wanted = []) (lines body)"
  have no_cr: "cr \<notin> set l" if "l \<in> set (lines body)" for l
    using that lines_subset [of l body] cr(1) by blast
  have clean: "\<forall>l \<in> set (?h # ?b). nl \<notin> set l \<and> cr \<notin> set l"
    using section_body_subset [of wanted "wanted = []" "lines body"] no_cr lines_no_nl [of _ body] cr(2,3)
    by (auto simp: nl_def cr_def)
  have "fold (section_line wanted handler) ?b (wanted, acc) =
      fold (section_line wanted handler) (?h # ?b) ([], acc)"
    by (simp add: section_line_bracket)
  then show ?thesis
    unfolding section_lines_def lines_text_of [OF clean]
    using fold_section_body [of wanted handler "lines body" "[]" acc] by (simp add: eq_commute)
qed

text \<open>
  C21. A unit file means what the lines below its \<open>[Service]\<close> headers say: the parser gives the same definition,
  error and warnings for the file that holds nothing else.
\<close>

theorem only_service_section_counts:
  assumes "cr \<notin> set body"
  shows "parse_unit path body =
    parse_unit path (text_of (''[Service]'' # section_body ''Service'' False (lines body)))"
proof -
  have "section_lines ''Service'' (unit_key path) body (fields_init Never, []) =
      section_lines ''Service'' (unit_key path)
        (text_of (''[Service]'' # section_body ''Service'' False (lines body))) (fields_init Never, [])"
    using section_lines_body [OF assms, of "''Service''" "unit_key path" "(fields_init Never, [])"]
    by (simp add: cr_def nl_def)
  then show ?thesis unfolding parse_unit_def by (simp split: option.split)
qed

subsection \<open>Shipped files\<close>

definition mitos_shell_file :: "string list" where
  "mitos_shell_file =
     [''[Unit]'',
      ''Description=MITOS Primary Interactive'',
      ''Shell'',
      '''',
      ''Documentation=https://github.com/shark-'',
      ''empire/mitos-shell'',
      '''',
      ''# Ensure essential background services'',
      ''#are spawned before the shell After=mitos-logger.service After=mitos-network.service'',
      '''',
      ''# Wait for readiness before starting'',
      ''#the shell'',
      ''X-AfterReady=mitos-logger.service'',
      '''',
      ''[Servicel]'',
      ''# Absolute path to the compiled shell'',
      ''#binary'',
      ''ExecStart=/bin/mitos-shell'',
      '''',
      ''# Restart if it crashes, but not on a'',
      ''#-clean '' @ [squote] @ ''exit'' @ [squote] @ '' (0)'',
      ''Restart=on-failure'',
      '''',
      ''# X-Critical=true means if this exits,'',
      ''#the OS begins system shutdown'',
      ''X-Critical=true'',
      '''',
      ''# Resource isolation via group v2'',
      ''MemoryMax=512M'',
      ''# Essential environment variables for a'',
      ''blank environment'',
      ''Environment=TERM=linux'',
      ''Environment=HOME=/root'',
      ''Environment=USER=root'',
      ''Environment=PATH=/usr/local/sbin:/usr/ local/bin:/usr/sbin:/usr/bin:/sbin:/bin'',
      ''Environment=SHELL=/bin/mitos-shell'',
      '''',
      ''[Install]'',
      ''WantedBy=multi-user.target'']"

definition mitos_settings_file :: "string list" where
  "mitos_settings_file =
     [''[Unit]'',
      ''Description=MITOS Settings Daemon'',
      ''Documentation=https://github.com/shark-empire/mitos-settings'',
      ''Requires=mitos-services.service'',
      ''After=mitos-session.service'',
      ''Wants=mitos-session.service'',
      '''',
      ''[Service]'',
      ''Type=simple'',
      ''ExecStart=/usr/lib/mitos/mitos-settings --daemon'',
      ''# Tells mitos-services: \"Do not start me until mitos-session has sent READY=1\"'',
      ''X-AfterReady=mitos-session'',
      ''ExecReload=/bin/kill -HUP $MAINPID'',
      '''',
      ''# Security'',
      ''ProtectSystem=strict'',
      ''ProtectHome=read-only'',
      ''ReadWritePaths=/run/mitos-settings ~/.config/mitos'',
      ''PrivateTmp=true'',
      ''NoNewPrivileges=true'',
      '''',
      ''Restart=on-failure'',
      ''RestartSec=5s'',
      ''Environment=RUST_LOG=info'',
      '''',
      ''[Install]'',
      ''WantedBy=multi-user.target'']"

lemma shipped_no_cr: "cr \<notin> set (text_of mitos_shell_file)" "cr \<notin> set (text_of mitos_settings_file)"
  by code_simp+

lemma shipped_lines:
  "lines (text_of mitos_shell_file) = mitos_shell_file" "lines (text_of mitos_settings_file) = mitos_settings_file"
  by (rule lines_text_of, code_simp)+

lemma shell_body: "section_body ''Service'' False mitos_shell_file = []"
  by code_simp

lemma settings_unit:
  "map_option sd_after (case fst (parse_unit ''/etc/mitos/services.d/mitos-settings.service'' (text_of mitos_settings_file)) of
     Inl e \<Rightarrow> None | Inr d \<Rightarrow> Some d) = Some []"
  by code_simp

theorem only_service_section_counts_witness:
  "parse_unit ''/etc/mitos/services.d/mitos-shell.service'' (text_of mitos_shell_file) =
     (Inl ''missing ExecStart= in [Service]'', [])"
  unfolding only_service_section_counts [OF shipped_no_cr(1)] shipped_lines shell_body by code_simp

end
