(* ===== verification/Spec2Isabelle.thy ===== *)
theory Spec2Isabelle
  imports System Idle Service_Start Service_Properties Stop_Properties Control_Properties Launch_Properties File_Properties Shipped_Units
begin

text \<open>
  \<^bold>\<open>mitos-services.\<close> The repository is a service manager in Rust, which runs as a supervised child of the
  init process \<open>mitos-init\<close>, and its control client \<open>mitosctl\<close>. This development models it as a shallow embedding and proves what
  makes it correct. This theory imports all others; it holds the properties that go from the text of
  the configuration file to the running services.

  \<^bold>\<open>The program.\<close> \<open>src/main.rs\<close> opens the log, reads \<open>/etc/mitos/init.conf\<close> and the drop-in
  units, sets up signal handlers, starts the services of the default target in dependency order and then
  loops: react to a
  shutdown, reload, isolate or status request, check watchdogs, fire timers, wait for a child, and hand
  an exited pid to its owner (timers, apps, the supervisor). The supervisor (\<open>src/supervisor.rs\<close>) keeps the
  table of running services, restarts them with a crash-loop bound, reconciles the table with a new
  configuration, and shuts everything down. A reload is watched for ten seconds and rolled back when a
  service it touched dies for good (\<open>src/rollback.rs\<close>). A listener thread (\<open>src/ipc.rs\<close>) answers
  \<open>mitosctl\<close>: it sets the same flags as the signal handlers, reads the journal, and launches applications
  (\<open>src/apps.rs\<close>) after asking a permission daemon. The child side of a spawn applies a sandbox and a
  system call filter (\<open>src/sandbox.rs\<close>, \<open>src/seccomp.rs\<close>).

  \<^bold>\<open>Theories and sources.\<close>
  \<^item> \<open>Prelude\<close>, \<open>Rust_Text\<close>: machine types, generic lemmas; the string operations of the Rust standard
    library that the sources use (\<open>trim\<close>, \<open>split_once\<close>, \<open>lines\<close>, number parsers).
  \<^item> \<open>Journal\<close> (\<open>journal.rs\<close>), \<open>Logging\<close> (\<open>logging.rs\<close>), \<open>Syscalls\<close>, \<open>Seccomp\<close> (\<open>seccomp.rs\<close>), \<open>Sandbox\<close>
    (\<open>sandbox.rs\<close> and the \<open>pre_exec\<close> closure of \<open>supervisor.rs\<close>).
  \<^item> \<open>Kernel\<close>: the operating system as the process sees it. The record \<open>os\<close> answers the interaction with
    number \<open>n\<close>; the record \<open>kernel\<close> holds the clock, the number of the next interaction, the trace of
    everything the program did to the system, and the log.
  \<^item> \<open>Cgroups\<close> (\<open>cgroups.rs\<close>), \<open>Users\<close> (\<open>users.rs\<close>), \<open>Config\<close> (\<open>config.rs\<close>, \<open>targets.rs\<close>), \<open>Units\<close>
    (\<open>units.rs\<close>), \<open>Timers\<close> (\<open>timers.rs\<close>), \<open>Notify\<close> (\<open>notify.rs\<close>), \<open>Oom\<close> (\<open>oom.rs\<close>), \<open>Apps\<close> (\<open>apps.rs\<close>).
  \<^item> \<open>Ordering\<close> and \<open>Supervisor\<close> (\<open>supervisor.rs\<close>): the record \<open>supervisor\<close> extends \<open>kernel\<close> by the service
    table and the readiness state. \<open>Rollback\<close> (\<open>rollback.rs\<close>).
  \<^item> \<open>Ipc\<close> (\<open>signals.rs\<close>, the socket, shared cells and dispatch of \<open>ipc.rs\<close>, the client \<open>bin/mitosctl.rs\<close>),
    \<open>Main_Loop\<close> (\<open>main.rs\<close>): the record \<open>machine\<close> extends \<open>supervisor\<close> by the variables of the event loop
    and the statics of the other modules; \<open>step\<close> interleaves start-up and the iterations of the
    loop with signal handlers, the listener thread and the memory pressure monitor.
  \<^item> Facts: \<open>Config_Facts\<close>, \<open>Unit_Facts\<close> (round trips), \<open>Well_Formed\<close> (what the parsers guarantee of every
    definition they accept), \<open>Shipped_Units\<close> (which lines of a unit file count, with two unit files of the
    repository), \<open>Timer_Facts\<close>, \<open>Sup_Frames\<close> (what an operation
    leaves alone), \<open>Sup_Facts\<close> and \<open>Sup_Lifecycle\<close> (the service table over a boot, a reload, a shutdown),
    \<open>Boot\<close>, \<open>Main_Facts\<close> (invariants of the step relation), \<open>System\<close> (start-up and reload from the files),
    \<open>Ownership\<close> (no process has two owners), \<open>Idle\<close> (the event loop with nothing to do), \<open>Run_Records\<close> (timer runs and the app registry).
  \<^item> \<open>Samples\<close>: concrete systems and states for the instances of the theorems. Properties: this theory,
    \<open>Service_Start\<close>, \<open>Service_Properties\<close>, \<open>Stop_Properties\<close>, \<open>Control_Properties\<close>, \<open>Launch_Properties\<close>, \<open>File_Properties\<close>.

  \<^bold>\<open>Interfaces.\<close> \<open>bounded_log\<close> (what the journal promises a reader), \<open>per_name_state\<close> (readiness keyed by
  name), \<open>pid_owner\<close> (the contract of \<open>reap\<close> between the main loop, timers and apps), \<open>kernel_closed\<close>
  and \<open>table_closed\<close> (predicates kept by everything the supervisor does), \<open>ops_closed\<close>, \<open>main_closed\<close>,
  \<open>machine_closed\<close> (predicates kept by the modules, by the phases of the event loop, by every step; with
  \<open>strict\<close>, predicates that rely on well-formed definitions). Each is interpreted on the model's own
  operations.

  \<^bold>\<open>What is shown.\<close>
  \<^item> Files: every parser inverts a printer (configuration, unit, timer, pressure file); only the lines below
    \<open>[Service]\<close> count in a unit; merging, user lookup and sizes do what they say on every input, wrap-around
    included.
  \<^item> Start-up and reload: the services of the configured target, and only those, run; dependencies
    first; \<open>requires=\<close> is enforced; a reload leaves alone the services whose definition equals the one in the
    table, and is idempotent; a rollback restores the services, but not the timers. A second reload inside the
    watch disarms the rollback, and a reload that cannot read \<open>init.conf\<close> replaces the services by the
    built-in ones. The boot, however, puts definitions with an extended
    \<open>after=\<close> into the table, so that the first reload restarts services nobody changed.
  \<^item> Life of a service: the exact list of what a start does to the system (\<open>Service_Start\<close>), the decision
    of \<open>handle_exit\<close> on every branch, the crash-loop bound as a fact on sequences of restarts, watchdogs,
    \<open>stop_one\<close>.
  \<^item> The event loop: an idle daemon does nothing but wait, for any number of iterations (\<open>Idle\<close>); who an exit
    belongs to; a critical exit stops the daemon or rolls back.
  \<^item> Shutdown: a request leaves the loop, the order of what a shutdown does, that it returns, and that an
    absurd time-out panics instead.
  \<^item> Control: a request reaches the daemon as it was given, the status hand-shake with its race.
  \<^item> Every reachable state: bounds, well-formed definitions whatever the files contain, one owner for each
    process, no overlapping runs of a timer.
  \<^item> Sandbox: an app that was launched made exactly the isolation calls, all successful, before \<open>exec\<close>;
    the verdict of the filter on every call number.

  \<^bold>\<open>Loops, fuel and bounds.\<close> Waiting loops (\<open>ready_loop\<close>, \<open>stop_loop\<close>, \<open>status_loop\<close>) terminate by the
  distance of the clock to their deadline or by their count of sleeps. The loop of \<open>shutdown_all\<close> is a
  \<open>partial_function\<close>, because it ends only when the clock moves; that it returns is the theorem
  \<open>shutdown_returns\<close>. The filter machine of the sample runs with the length of the program plus one as
  fuel, which is enough because jumps only go forward. Instants and durations are nanoseconds as natural
  numbers; the additions of configured durations are checked for the overflow panic of \<open>Instant + Duration\<close>
  (\<open>instant_add\<close>), the addition of small constants is not. Sizes are \<open>u64\<close> and wrap around as in a release
  build.

  \<^bold>\<open>Abstractions.\<close> Text is a list of \<^typ>\<open>char\<close>, so scalar values above U+00FF are outside the model. A
  \<open>HashMap\<close> is an association list in insertion order; where the program iterates over one, the theorems
  speak of the set of keys or hold for any order. One iteration of the event loop is one step: other
  threads act between iterations, except that a launch and a status request are split at the points where
  the main loop can come between, and start-up where the background threads begin. What the listener
  threads of the notify sockets received becomes visible when the supervisor sleeps or waits (\<open>os_notify\<close>
  yields the results of \<open>recv\<close>, \<open>notify_recv\<close> is the body of the thread). A lock is never poisoned.

  \<^bold>\<open>Not modelled\<close>, because it is input and output without logic of the program: the bytes of a request
  before they are a line, and the formatting of the uptime. The crates \<open>nix\<close>, \<open>libc\<close> and \<open>sha2\<close> and the kernel are parameters.
  The unit tests are not modelled.
\<close>

section \<open>From the configuration file to the running services\<close>

text \<open>The system of \<open>Samples\<close> with a configuration file, a drop-in unit and a timer.\<close>

definition file_os :: "string \<Rightarrow> config \<Rightarrow> service_def \<Rightarrow> timer_def \<Rightarrow> os" where
  "file_os host cfg d t =
     calm_os
       \<lparr>os_read := \<lambda>n p.
          if p = CONFIG_PATH then Inr (show_config host cfg)
          else if p = drop_in_path ''service'' (sd_name d) then Inr (show_unit d)
          else if p = drop_in_path ''timer'' (td_name t) then Inr (section_text ''Timer'' (timer_fields t))
          else Inl ''No such file or directory'',
        os_read_dir := \<lambda>n p. Some [sd_name d @ ''.service'', td_name t @ ''.timer'', ''README'']\<rparr>"

definition sample_cfg :: config where
  "sample_cfg =
     config_default\<lparr>cfg_hostname := Some ''box'', cfg_services := [sample_web, sample_def ''db'' Always]\<rparr>"

definition disk_unit :: service_def where
  "disk_unit = sample_def ''log'' Never"

definition disk_timer :: timer_def where
  "disk_timer = \<lparr>td_name = ''tick'', td_on_boot = Some (from_secs 60), td_on_active = None\<rparr>"

abbreviation disk_os :: os where
  "disk_os \<equiv> file_os ''box'' sample_cfg disk_unit disk_timer"

lemma file_os_answers:
  "spawns_succeed (file_os host cfg d t)" "pids_unique (file_os host cfg d t)"
  "\<forall>p \<in> K. p < 100 \<Longrightarrow> fresh_from (file_os host cfg d t) n K"
  using calm_spawns_succeed calm_pids_unique calm_fresh_from [of K n]
  by (simp_all add: file_os_def spawns_succeed_def pids_unique_def fresh_from_def)

lemmas sample_text = printable_def service_def_default_def whole_secs_def printable_env_def plain_item_def
  line_value_def DEFAULT_TARGET_def is_ws_def code_def dquote_def nl_def cr_def

lemma sample_paths:
  "unit_paths ''service'' [''log.service'', ''tick.timer'', ''README''] = [drop_in_path ''service'' ''log'']"
  "unit_paths ''timer'' [''log.service'', ''tick.timer'', ''README''] = [drop_in_path ''timer'' ''tick'']"
  "drop_in_path ''timer'' ''tick'' \<noteq> drop_in_path ''service'' ''log''"
  "drop_in_path ''service'' ''log'' \<noteq> CONFIG_PATH" "drop_in_path ''timer'' ''tick'' \<noteq> CONFIG_PATH"
  by code_simp+

lemma sample_configured: "configured disk_os ''box'' sample_cfg [disk_unit] [disk_timer]"
proof -
  have cfg: "printable_config ''box'' sample_cfg"
    by (simp add: printable_config_def sample_cfg_def sample_web_def sample_def_def config_default_def sample_text)
  have "printed_unit disk_os disk_unit" "printed_timer disk_os disk_timer"
    by (simp_all add: printed_unit_def printed_timer_def file_os_def disk_unit_def disk_timer_def sample_paths
        sample_def_def drop_in_name_def sample_text from_secs_def)
  then show ?thesis
    unfolding configured_def drop_ins_def using cfg
    by (auto simp: file_os_def disk_unit_def disk_timer_def sample_paths
        intro!: exI [of _ "[''log.service'', ''tick.timer'', ''README'']"])
qed

lemma sample_target:
  "services_in (cfg_services (with_units sample_cfg [disk_unit])) DEFAULT_TARGET =
     [sample_web, sample_def ''db'' Always, disk_unit]"
  by (simp add: services_in_def sample_cfg_def sample_web_def disk_unit_def with_units_def)

lemma disk_boot_order:
  "snd (topological_order (effective_after [sample_web, sample_def ''db'' Always, disk_unit])) = []"
  by code_simp

lemma disk_unit_name [simp]: "sd_name disk_unit = ''log''"
  by (simp add: disk_unit_def)

lemma sample_cfg_simps [simp]:
  "cfg_default_target sample_cfg = DEFAULT_TARGET" "map sd_name (cfg_services sample_cfg) = [''web'', ''db'']"
  by (simp_all add: sample_cfg_def config_default_def)

text \<open>
  C1. The whole start-up, from the text of the files: when \<open>init.conf\<close>, the drop-in units and the timer
  files hold printable contents, no spawn fails, no pid is reused and the default target has no
  dependency cycle, then after \<open>startup\<close> the configuration in force is the one of \<open>init.conf\<close> with the
  units whose names are new, the timers are those of the files, and exactly the services of the default
  target are running; that target and the list of all targets are what the control socket reports, and
  no watch is running.
\<close>

theorem boot_from_file:
  fixes os :: os and cfg :: config and us :: "service_def list" and t :: instant
  assumes "configured os host cfg us tds" and "spawns_succeed os" and "pids_unique os"
    and "distinct (map sd_name (cfg_services cfg))"
    and "acyclic (dep_rel (effective_after (services_in (cfg_services (with_units cfg us)) (cfg_default_target cfg))))"
  defines "m \<equiv> startup os (machine_init t)" and "full \<equiv> with_units cfg us"
  shows "m_cfg m = full \<and> m_target m = cfg_default_target cfg \<and> m_timer_defs m = tds \<and> m_watch m = None \<and>
    set (running_names m) = {sd_name d | d. d \<in> set (cfg_services full) \<and> sd_target d = cfg_default_target cfg} \<and>
    last_targets (m_ipc m) = (cfg_default_target cfg, targets_list (cfg_services full))"
proof -
  let ?defs = "services_in (cfg_services full) (cfg_default_target cfg)"
  obtain m0 where m0: "services m0 = []" "m_cfg m0 = full" "m_target m0 = cfg_default_target cfg"
    "m_timer_defs m0 = tds" "m_watch m0 = None"
    "last_targets (m_ipc m0) = (cfg_default_target cfg, targets_list (cfg_services full))"
    and m: "m = (or_log os Error ''failed to unblock signals: '' (unblock_handled os (spawn_all os ?defs m0)))
      \<lparr>m_booted := True\<rparr>"
    unfolding m_def full_def by (rule startup_split [OF configured_files [OF assms(1)]])
  let ?u = "spawn_all os ?defs m0"
  let ?v = "or_log os Error ''failed to unblock signals: '' (unblock_handled os ?u)"
  have names: "set (running_names ?u) = sd_name ` set ?defs"
    using with_units_distinct [OF assms(4), of us] assms(5)
    by (intro spawn_all_exact assms(2,3) m0(1)) (simp_all add: services_in_def distinct_map_filter full_def)
  have more: "supervisor.more ?u = supervisor.more m0" by (rule spawn_all_more) (simp add: m0)
  note u = same_kernel_more [of ?v ?u, unfolded more_or_log more_signals, OF refl]
  show ?thesis
    using names same_more [OF more] u m0
    by (auto simp: m running_names_def services_in_def)
qed

theorem boot_from_file_witness:
  "set (running_names (startup disk_os (machine_init 0))) = {''web'', ''db'', ''log''}"
proof -
  have ac: "acyclic (dep_rel (effective_after [sample_web, sample_def ''db'' Always, disk_unit]))"
    by (rule no_rest_acyclic) (simp_all add: disk_boot_order effective_after_names)
  have "{sd_name d | d. d \<in> set (cfg_services (with_units sample_cfg [disk_unit])) \<and> sd_target d = DEFAULT_TARGET} =
      sd_name ` set (services_in (cfg_services (with_units sample_cfg [disk_unit])) DEFAULT_TARGET)"
    by (auto simp: services_in_def)
  then show ?thesis
    using boot_from_file [OF sample_configured file_os_answers(1,2), of 0] ac
    by (simp add: sample_target)
qed

text \<open>
  C2. The whole reload, from the text of the files: when the flag is raised, \<open>init.conf\<close>, the drop-in units
  and the timer files hold printable contents, no spawn fails and no pid is reused, then afterwards the
  configuration and the timers of the files are in force, exactly their services for the active target are
  running, each under its new definition; the flag is down, and a watch has begun that would restore the
  configuration of before.
\<close>

theorem reload_from_file:
  fixes os :: os and cfg :: config and us :: "service_def list" and m :: machine
  assumes "configured os host cfg us tds" and "reload_requested (sig_flags (m_ipc m))"
    and "spawns_succeed os" and "pids_unique os"
    and "distinct (keys (services m))" and "distinct (map sd_name (cfg_services cfg))"
    and "fresh_from os (ev m) (set (keys (services m)))"
  defines "m' \<equiv> phase_reload os m" and "full \<equiv> with_units cfg us"
    and "wanted \<equiv> services_in (cfg_services (with_units cfg us)) (m_target m)"
  shows "m_cfg m' = full \<and> m_target m' = m_target m \<and> m_timer_defs m' = tds \<and>
    set (running_names m') = sd_name ` set wanted \<and>
    (\<forall>d \<in> set wanted. \<exists>e \<in> set (services m'). sd_name (sv_def (snd e)) = sd_name d \<and> defs_equal (sv_def (snd e)) d) \<and>
    \<not> reload_requested (sig_flags (m_ipc m')) \<and>
    (\<exists>w. m_watch m' = Some w \<and> w_previous w = m_cfg m \<and> w_target w = m_target m)"
  using phase_reload_effect [OF configured_files [OF assms(1)] assms(2-7), folded m'_def full_def wanted_def]
  by blast

theorem reload_from_file_witness:
  "set (running_names (phase_reload disk_os
     ((sample_machine [(8, sample_entry (sample_def ''web'' Never))])
        \<lparr>m_target := DEFAULT_TARGET, m_ipc := set_flag (on_signal (signal_number SIGUSR1)) ipc_init\<rparr>))) =
   {''web'', ''db'', ''log''}"
  using reload_from_file [OF sample_configured, of "(sample_machine [(8, sample_entry (sample_def ''web'' Never))])
        \<lparr>m_target := DEFAULT_TARGET, m_ipc := set_flag (on_signal (signal_number SIGUSR1)) ipc_init\<rparr>"]
  by (simp add: file_os_answers sample_target set_flag_def on_signal_def)

text \<open>
  C8. A rollback undoes a reload, in part. When a service the reload touched fails for good
  during the watch, the watch ends, the previous configuration and its log level are in force again, and
  (no spawn failing, no pid reused) the running services are exactly those the previous configuration lists
  for the target of the watch, each under its previous definition. What the reload changed beyond that
  stays: the timers of the new files, the list of targets the control socket reports, and the active target,
  which after an isolate in between is not the one whose services run.
\<close>

theorem rollback_restores:
  fixes os :: os and m :: machine
  assumes "m_watch m = Some w" and "watch_touched w who" and "spawns_succeed os" and "pids_unique os"
    and "distinct (keys (services m))"
    and "distinct (map sd_name (services_in (cfg_services (w_previous w)) (w_target w)))"
    and "fresh_from os (ev m) (set (keys (services m)))"
  defines "m' \<equiv> check_watch os (Some who) m"
    and "wanted \<equiv> services_in (cfg_services (w_previous w)) (w_target w)"
  shows "m_watch m' = None \<and> m_cfg m' = w_previous w \<and>
    current_level (log_st m') = level_u8 (cfg_loglevel (w_previous w)) \<and>
    set (running_names m') = sd_name ` set wanted \<and>
    (\<forall>d \<in> set wanted. \<exists>e \<in> set (services m'). sd_name (sv_def (snd e)) = sd_name d \<and> defs_equal (sv_def (snd e)) d) \<and>
    m_timer_defs m' = m_timer_defs m \<and> last_targets (m_ipc m') = last_targets (m_ipc m) \<and> m_target m' = m_target m"
proof -
  let ?u = "roll_back os w who m"
  have r: "rollback_check os (m_cfg m) w (Some who) m = (None, w_previous w, ?u)"
    using assms(2) by (simp add: rollback_check_def)
  then have m': "m' = ?u\<lparr>m_watch := None, m_cfg := w_previous w\<rparr>"
    by (simp add: m'_def check_watch_def assms(1))
  obtain v :: machine where v: "services v = services m" "ev v = ev m"
    "services ?u = services (snd (reload_services os wanted v))"
    unfolding wanted_def by (rule roll_back_services)
  have "set (running_names ?u) = sd_name ` set wanted"
    "\<forall>d \<in> set wanted. \<exists>e \<in> set (services ?u). sd_name (sv_def (snd e)) = sd_name d \<and> defs_equal (sv_def (snd e)) d"
    using reload_converges [OF assms(3,4), of v wanted] assms(5-7) v by (simp_all add: wanted_def running_names_def)
  moreover have "supervisor.more ?u = supervisor.more m"
    using above.I_check [where m = m and x = "supervisor.more m" and os = os and cfg = "m_cfg m" and w = w
        and failed = "Some who"] assms(5) by (simp add: r)
  note same_more [OF this]
  ultimately show ?thesis by (simp add: m' roll_back_level running_names_def)
qed

definition sample_watch :: watch where
  "sample_watch =
     \<lparr>w_deadline = 100, w_touched = [''web''],
      w_previous = config_default\<lparr>cfg_services := [sample_def ''db'' Always]\<rparr>, w_target = DEFAULT_TARGET\<rparr>"

theorem rollback_restores_witness:
  "set (running_names (check_watch calm_os (Some ''web'')
     ((sample_machine [(8, sample_entry (sample_def ''web'' Never))])
        \<lparr>m_watch := Some sample_watch, m_timer_defs := [disk_timer]\<rparr>))) = {''db''}"
  using rollback_restores [where os = calm_os and who = "''web''" and w = sample_watch and
      m = "(sample_machine [(8, sample_entry (sample_def ''web'' Never))])
        \<lparr>m_watch := Some sample_watch, m_timer_defs := [disk_timer]\<rparr>"]
  by (simp add: sample_watch_def watch_touched_def services_in_def calm_spawns_succeed calm_pids_unique
      calm_fresh_from)




text \<open>
  C9. Two reloads of the same files in a row, the second inside the watch of the first.
  The second finds every service up to date, changes nothing, and replaces the watch: the new one has
  touched no service and would restore the configuration just read instead of the one before. So the exit
  of a critical service that the first reload broke, which after one reload is answered by a rollback to the
  old configuration, after two stops the daemon and all its services.
\<close>

theorem second_reload_disarms:
  fixes os :: os and cfg :: config and us :: "service_def list" and m :: machine
  assumes "configured os host cfg us tds" and "reload_requested (sig_flags (m_ipc m))"
    and "spawns_succeed os" and "pids_unique os"
    and "distinct (keys (services m))" and "distinct (map sd_name (cfg_services cfg))"
    and "fresh_from os (ev m) (set (keys (services m)))" and "once_each (services m)"
  defines "m1 \<equiv> phase_reload os m"
    and "m2 \<equiv> phase_reload os (set_ipc (set_flag (on_signal (signal_number SIGUSR1))) (phase_reload os m))"
  assumes "map_of (services m1) p = Some sv" and "sd_critical (sv_def sv)"
    and "watch_touched (the (m_watch m1)) (sd_name (sv_def sv))"
    and "p \<notin> timer_pids (m_timers m) \<union> app_pids (m_apps m)" and "exit_summary status = Some (p, summary)"
  shows "services m2 = services m1 \<and> m_cfg m2 = m_cfg m1 \<and>
    (\<exists>w. m_watch m2 = Some w \<and> w_touched w = [] \<and> w_previous w = m_cfg m1) \<and>
    (\<exists>m'. dispatch_exit os grace status m1 = Some (Loop m') \<and> m_cfg m' = m_cfg m) \<and>
    (\<forall>m'. dispatch_exit os grace status m2 \<noteq> Some (Loop m'))"
proof -
  let ?n = "set_ipc (set_flag (on_signal (signal_number SIGUSR1))) m1"
  let ?wanted = "services_in (cfg_services (with_units cfg us)) (m_target m)"
  note files = configured_files [OF assms(1)]
  note e = phase_reload_effect [OF files assms(2-7), folded m1_def]
  have n: "services ?n = services m1" "m_target ?n = m_target m" "m_cfg ?n = m_cfg m1" "m_timers ?n = m_timers m"
    "m_apps ?n = m_apps m" "reload_requested (sig_flags (m_ipc ?n))"
    using e(2-5) by (simp_all add: set_ipc_def set_flag_def on_signal_def)
  have "\<forall>d \<in> set ?wanted. up_to_date (services ?n) d"
    using e(8) up_to_date_once [OF e(10) [OF assms(8)]] n(1) by auto
  moreover have "set (running_names ?n) \<subseteq> sd_name ` set ?wanted" using e(7) n(1) by (simp add: running_names_def)
  moreover have "distinct (keys (services ?n))" using e(11) n(1) by simp
  ultimately have u: "services m2 = services m1" "m_cfg m2 = m_cfg m1" "m_timers m2 = m_timers m" "m_apps m2 = m_apps m"
    "\<exists>w. m_watch m2 = Some w \<and> w_touched w = [] \<and> w_previous w = m_cfg m1"
    using phase_reload_noop [OF files n(6)] n e(1) unfolding m2_def m1_def [symmetric] by simp_all
  obtain w1 where w1: "m_watch m1 = Some w1" "w_previous w1 = m_cfg m" using e(9) by blast
  have claimed: "p \<notin> timer_pids (m_timers m1) \<union> app_pids (m_apps m1)" "p \<notin> timer_pids (m_timers m2) \<union> app_pids (m_apps m2)"
    using assms(14) e(4,5) u(3,4) by simp_all
  have "\<exists>m'. dispatch_exit os grace status m1 = Some (Loop m') \<and> m_cfg m' = m_cfg m"
    using critical_exit_rolls_back [OF assms(15,11,12) claimed(1) w1(1)] assms(13) w1 by auto
  moreover have "dispatch_exit os grace status m2 \<noteq> Some (Loop m')" for m'
    using critical_exit_leaves [OF assms(15) _ assms(12) claimed(2)] assms(11) u(1,5) by (auto simp: watch_touched_def)
  ultimately show ?thesis using u by blast
qed

definition bus_cfg :: config where
  "bus_cfg = config_default\<lparr>cfg_hostname := Some ''box'', cfg_services := [sample_critical]\<rparr>"

abbreviation bus_os :: os where
  "bus_os \<equiv> file_os ''box'' bus_cfg disk_unit disk_timer"

lemma bus_configured: "configured bus_os ''box'' bus_cfg [disk_unit] [disk_timer]"
proof -
  have cfg: "printable_config ''box'' bus_cfg"
    by (simp add: printable_config_def bus_cfg_def sample_critical_def sample_def_def config_default_def sample_text)
  have "printed_unit bus_os disk_unit" "printed_timer bus_os disk_timer"
    by (simp_all add: printed_unit_def printed_timer_def file_os_def disk_unit_def disk_timer_def sample_paths
        sample_def_def drop_in_name_def sample_text from_secs_def)
  then show ?thesis
    unfolding configured_def drop_ins_def using cfg
    by (auto simp: file_os_def disk_unit_def disk_timer_def sample_paths
        intro!: exI [of _ "[''log.service'', ''tick.timer'', ''README'']"])
qed

definition before_reload :: machine where
  "before_reload =
     (machine_init 0)\<lparr>m_target := DEFAULT_TARGET, m_ipc := set_flag (on_signal (signal_number SIGUSR1)) ipc_init\<rparr>"

theorem second_reload_disarms_witness:
  "\<exists>p. \<forall>m'. dispatch_exit bus_os 10 (Exited p 1)
     (phase_reload bus_os (set_ipc (set_flag (on_signal (signal_number SIGUSR1))) (phase_reload bus_os before_reload))) \<noteq>
     Some (Loop m')"
proof -
  let ?m = before_reload
  have m: "services ?m = []" "m_target ?m = DEFAULT_TARGET" "reload_requested (sig_flags (m_ipc ?m))"
    "timer_pids (m_timers ?m) = {}" "app_pids (m_apps ?m) = {}"
    by (simp_all add: before_reload_def machine_init_def set_flag_def on_signal_def timer_pids_def
        timer_state_init_def app_pids_def apps_init_def)
  have cfg: "distinct (map sd_name (cfg_services bus_cfg))" by (simp add: bus_cfg_def)
  have bus: "sample_critical \<in> set (services_in (cfg_services (with_units bus_cfg [disk_unit])) DEFAULT_TARGET)"
    by (simp add: services_in_def with_units_def bus_cfg_def sample_critical_def)
  have crit: "sd_critical sample_critical" by (simp add: sample_critical_def)
  have os: "spawns_succeed bus_os" "pids_unique bus_os" "distinct (keys (services ?m))"
    "fresh_from bus_os (ev ?m) (set (keys (services ?m)))" "once_each (services ?m)"
    by (simp_all add: file_os_answers m(1) once_each_def)
  note e = phase_reload_effect [OF configured_files [OF bus_configured] m(3) os(1-3) cfg os(4)]
  obtain p sv where sv: "(p, sv) \<in> set (services (phase_reload bus_os ?m))" "sd_name (sv_def sv) = sd_name sample_critical"
    "defs_equal (sv_def sv) sample_critical"
    using e(8) bus m(2) by fastforce
  then have "map_of (services (phase_reload bus_os ?m)) p = Some sv" "sd_critical (sv_def sv)"
    using e(11) crit by (simp_all add: defs_equal_def)
  moreover have "watch_touched (the (m_watch (phase_reload bus_os ?m))) (sd_name (sv_def sv))"
    using e(9) bus m(1,2) sv(2) by (auto simp: watch_touched_def up_to_date_def)
  moreover have "exit_summary (Exited p 1) = Some (p, snd (the (exit_summary (Exited p 1))))" by (simp add: exit_summary_def)
  ultimately show ?thesis
    using second_reload_disarms [OF bus_configured m(3) os(1-3) cfg os(4,5), where p = p and sv = sv and grace = 10] m(4,5)
    by blast
qed

end
